(* ===== verification/Prelude.thy ===== *)
theory Prelude
  imports Main "HOL-Library.Word" "HOL-Library.State_Monad"
begin

text \<open>
  Shared vocabulary of the development: the lemma collections, the Go string routines of the
  standard library that the operator calls (\<open>strings\<close>, \<open>strconv\<close>, \<open>encoding/hex\<close>), the
  two's-complement reading of \<open>time.Duration\<close>, and generic facts about lists and lines.

  A Go string is a byte sequence, so it is a \<^typ>\<open>string\<close> here, one \<^typ>\<open>char\<close> per byte.
\<close>

named_theorems go_str  \<comment> \<open>definitions of the string routines, for evaluation\<close>
named_theorems io_spec \<comment> \<open>trace specifications of effectful operations\<close>
named_theorems io_run  \<comment> \<open>definitions unfolded when a concrete run is evaluated\<close>

unbundle bit_operations_syntax

section \<open>Bytes and Go strings\<close>

type_synonym byte = "8 word"

abbreviation (input) newline :: char where "newline \<equiv> CHR 0x0A"
abbreviation (input) tab :: char where "tab \<equiv> CHR 0x09"

definition byte_of :: "char \<Rightarrow> byte" where
  "byte_of c = of_nat (of_char c)"

definition ascii_lower :: "char \<Rightarrow> char" where
  "ascii_lower c = (let n = (of_char c :: nat) in
     if 65 \<le> n \<and> n \<le> 90 then char_of (n + 32) else c)"

definition is_ascii :: "string \<Rightarrow> bool" where
  "is_ascii s = list_all (\<lambda>c. (of_char c :: nat) < 128) s"

text \<open>
  \<open>strings.ToLower\<close> maps an ASCII string byte by byte; for any other string it applies the
  Unicode case tables, which are the parameter \<open>ul\<close>.
\<close>

definition to_lower :: "(string \<Rightarrow> string) \<Rightarrow> string \<Rightarrow> string" where
  "to_lower ul s = (if is_ascii s then map ascii_lower s else ul s)"

text \<open>\<open>strings.TrimRight(s, cutset)\<close> for an ASCII cutset.\<close>

definition trim_right :: "char list \<Rightarrow> string \<Rightarrow> string" where
  "trim_right cutset s = rev (dropWhile (\<lambda>c. c \<in> set cutset) (rev s))"

text \<open>
  \<open>strings.TrimSpace\<close>: the UTF-8 encodings of the runes for which \<open>unicode.IsSpace\<close> holds.
\<close>

definition space_runes :: "char list list" where
  "space_runes =
     map (\<lambda>n. [char_of (n::nat)]) [0x09, 0x0A, 0x0B, 0x0C, 0x0D, 0x20]
     @ map (map (char_of :: nat \<Rightarrow> char))
         [[0xC2, 0x85], [0xC2, 0xA0], [0xE1, 0x9A, 0x80],
          [0xE2, 0x80, 0x80], [0xE2, 0x80, 0x81], [0xE2, 0x80, 0x82], [0xE2, 0x80, 0x83],
          [0xE2, 0x80, 0x84], [0xE2, 0x80, 0x85], [0xE2, 0x80, 0x86], [0xE2, 0x80, 0x87],
          [0xE2, 0x80, 0x88], [0xE2, 0x80, 0x89], [0xE2, 0x80, 0x8A],
          [0xE2, 0x80, 0xA8], [0xE2, 0x80, 0xA9], [0xE2, 0x80, 0xAF],
          [0xE2, 0x81, 0x9F], [0xE3, 0x80, 0x80]]"

definition strip_prefix :: "'a list \<Rightarrow> 'a list \<Rightarrow> 'a list option" where
  "strip_prefix p s = (if take (length p) s = p then Some (drop (length p) s) else None)"

fun first_strip :: "'a list list \<Rightarrow> 'a list \<Rightarrow> 'a list option" where
  "first_strip [] s = None"
| "first_strip (p # ps) s =
     (case strip_prefix p s of Some r \<Rightarrow> Some r | None \<Rightarrow> first_strip ps s)"

fun trim_left_runes :: "nat \<Rightarrow> 'a list list \<Rightarrow> 'a list \<Rightarrow> 'a list" where
  "trim_left_runes 0 ps s = s"
| "trim_left_runes (Suc n) ps s =
     (case first_strip ps s of Some r \<Rightarrow> trim_left_runes n ps r | None \<Rightarrow> s)"

definition trim_space :: "string \<Rightarrow> string" where
  "trim_space s =
     (let l = trim_left_runes (length s) space_runes s
      in rev (trim_left_runes (length l) (map rev space_runes) (rev l)))"

text \<open>\<open>strings.ReplaceAll(s, "\n", r)\<close>.\<close>

definition replace_newlines :: "string \<Rightarrow> string \<Rightarrow> string" where
  "replace_newlines r s = concat (map (\<lambda>c. if c = newline then r else [c]) s)"

text \<open>\<open>%d\<close> and \<open>strconv.FormatInt(n, 10)\<close>.\<close>

fun dec_nat :: "nat \<Rightarrow> string" where
  "dec_nat n = (if n < 10 then [char_of (48 + n)] else dec_nat (n div 10) @ [char_of (48 + n mod 10)])"

declare dec_nat.simps [simp del]

definition dec_int :: "int \<Rightarrow> string" where
  "dec_int i = (if i < 0 then CHR ''-'' # dec_nat (nat (- i)) else dec_nat (nat i))"

text \<open>\<open>hex.EncodeToString\<close> and \<open>%x\<close> of a byte slice.\<close>

definition hex_digit :: "nat \<Rightarrow> char" where
  "hex_digit n = (if n < 10 then char_of (48 + n) else char_of (87 + n))"

definition hex_byte :: "byte \<Rightarrow> string" where
  "hex_byte b = [hex_digit (unat b div 16), hex_digit (unat b mod 16)]"

definition hex_encode :: "byte list \<Rightarrow> string" where
  "hex_encode bs = concat (map hex_byte bs)"

lemmas [go_str] = byte_of_def ascii_lower_def is_ascii_def to_lower_def trim_right_def
  replace_newlines_def dec_int_def hex_digit_def hex_byte_def hex_encode_def

lemma length_hex_encode [simp]: "length (hex_encode bs) = 2 * length bs"
  by (induction bs) (auto simp: hex_encode_def hex_byte_def)

lemma unat_lt2p_8: "unat (b :: byte) < 256"
  by (rule unsigned_less [of b, simplified])

lemma set_hex_encode: "set (hex_encode bs) \<subseteq> hex_digit ` {..<16}"
proof -
  have "unat b div 16 < 16" for b :: byte
    using unat_lt2p_8 [of b] by (simp add: less_mult_imp_div_less)
  then show ?thesis by (auto simp: hex_encode_def hex_byte_def)
qed

lemma length_trim_right: "length (trim_right cs s) \<le> length s"
proof -
  have "length (dropWhile (\<lambda>c. c \<in> set cs) (rev s)) \<le> length (rev s)"
    by (rule length_dropWhile_le)
  then show ?thesis by (simp add: trim_right_def)
qed

lemma trim_right_last: "trim_right cs s \<noteq> [] \<Longrightarrow> last (trim_right cs s) \<notin> set cs"
proof -
  assume "trim_right cs s \<noteq> []"
  then have "dropWhile (\<lambda>c. c \<in> set cs) (rev s) \<noteq> []" by (simp add: trim_right_def)
  then have "hd (dropWhile (\<lambda>c. c \<in> set cs) (rev s)) \<notin> set cs" by (rule hd_dropWhile)
  then show ?thesis by (simp add: trim_right_def last_rev)
qed

section \<open>Durations and instants\<close>

text \<open>
  \<open>time.Duration\<close> is a signed 64-bit count of nanoseconds. Its values are read as \<^typ>\<open>int\<close>,
  and the arithmetic that can overflow wraps explicitly; \<open>time.Time.Sub\<close> saturates.
\<close>

type_synonym duration = int
type_synonym instant = int

definition wrap64 :: "int \<Rightarrow> int" where
  "wrap64 i = (i + 2 ^ 63) mod 2 ^ 64 - 2 ^ 63"

definition in_int64 :: "int \<Rightarrow> bool" where
  "in_int64 i \<longleftrightarrow> - (2 ^ 63) \<le> i \<and> i < 2 ^ 63"

lemma wrap64_id [simp]: "in_int64 i \<Longrightarrow> wrap64 i = i"
  by (simp add: wrap64_def in_int64_def)

lemma wrap64_range [simp]: "in_int64 (wrap64 i)"
proof -
  have "0 \<le> (i + 2 ^ 63) mod 2 ^ 64 \<and> (i + 2 ^ 63) mod 2 ^ 64 < (2 ^ 64 :: int)" by simp
  then show ?thesis by (simp add: wrap64_def in_int64_def)
qed

definition time_sub :: "instant \<Rightarrow> instant \<Rightarrow> duration" where
  "time_sub t u = max (- (2 ^ 63)) (min (2 ^ 63 - 1) (t - u))"

abbreviation (input) second :: duration where "second \<equiv> 1000000000"
abbreviation (input) minute :: duration where "minute \<equiv> 60000000000"

text \<open>\<open>Truncate(time.Second)\<close>; the zero time of Go is a whole second, too.\<close>

definition truncate_second :: "instant \<Rightarrow> instant" where
  "truncate_second t = t - t mod second"

lemma truncate_second_idem [simp]: "truncate_second (truncate_second t) = truncate_second t"
  by (simp add: truncate_second_def minus_mod_eq_mult_div)

section \<open>Lines of a text\<close>

text \<open>The lines a scanner sees that cuts at every newline and drops an empty last piece.\<close>

fun lines_of :: "string \<Rightarrow> string list" where
  "lines_of [] = []"
| "lines_of (c # s) =
     (if c = newline then [] # lines_of s
      else (case lines_of s of [] \<Rightarrow> [[c]] | l # ls \<Rightarrow> (c # l) # ls))"

lemma lines_of_eq_Nil [simp]: "lines_of s = [] \<longleftrightarrow> s = []"
  by (cases s) (auto split: list.splits)

lemma lines_of_append_newline:
  "lines_of (s @ newline # t) = lines_of (s @ [newline]) @ lines_of t"
proof (induction s)
  case Nil
  show ?case by simp
next
  case (Cons c s)
  have "lines_of (s @ [newline]) \<noteq> []" by (cases s) (auto split: list.splits)
  with Cons show ?case by (auto split: list.splits)
qed

lemma lines_of_no_newline:
  "newline \<notin> set s \<Longrightarrow> s \<noteq> [] \<Longrightarrow> lines_of s = [s]"
proof (induction s)
  case Nil
  then show ?case by simp
next
  case (Cons c s)
  then show ?case by (cases s) auto
qed

lemma lines_of_one: "newline \<notin> set s \<Longrightarrow> lines_of (s @ [newline]) = [s]"
proof (induction s)
  case Nil
  then show ?case by simp
next
  case (Cons c s)
  then show ?case by auto
qed

end
