(* ===== verification/Api_Types.thy ===== *)
theory Api_Types
  imports Prelude
begin

text \<open>
  The data the operator works on: the two custom resources of \<open>api/v1alpha1\<close>, the part of the
  Kubernetes objects the code touches, and the unstructured values (\<open>interface{}\<close>) that the
  untyped client and the YAML decoder hand out.

  A Go map is a partial function; where the code can meet a nil map and write to it, the field is
  an option with \<^term>\<open>None\<close> for nil. A pointer that may be nil is an option. An instant is a
  number of nanoseconds. String-typed enumerations of the API stay strings, since the code
  compares them with constants and accepts any other value.
\<close>

section \<open>Object metadata\<close>

type_synonym smap = "string \<rightharpoonup> string"

definition sget :: "smap \<Rightarrow> string \<Rightarrow> string" where
  "sget m k = (case m k of None \<Rightarrow> '''' | Some v \<Rightarrow> v)"

lemma sget_simps [simp]:
  "sget Map.empty k = ''''" "sget (m(k \<mapsto> v)) k = v" "k \<noteq> k' \<Longrightarrow> sget (m(k' \<mapsto> v)) k = sget m k"
  by (simp_all add: sget_def)

record owner_ref =
  or_apiVersion :: string
  or_kind :: string
  or_name :: string
  or_uid :: string

record object_meta =
  om_name :: string
  om_namespace :: string
  om_uid :: string
  om_resourceVersion :: string
  om_labels :: smap
  om_annotations :: smap
  om_finalizers :: "string list"
  om_owners :: "owner_ref list"
  om_creation :: "instant option"
  om_deletion :: "instant option"

definition empty_meta :: "string \<Rightarrow> string \<Rightarrow> object_meta" where
  "empty_meta ns name = \<lparr>om_name = name, om_namespace = ns, om_uid = '''', om_resourceVersion = '''',
     om_labels = Map.empty, om_annotations = Map.empty, om_finalizers = [], om_owners = [],
     om_creation = None, om_deletion = None\<rparr>"

section \<open>TelcoHealthcheck (the singleton configuration)\<close>

definition LogLevelInfo :: string where "LogLevelInfo = ''info''"
definition LogLevelDebug :: string where "LogLevelDebug = ''debug''"
definition TelcoHealthcheckCanonicalName :: string where
  "TelcoHealthcheckCanonicalName = ''telco-healthcheck''"
definition GroupVersion :: string where "GroupVersion = ''ran.openshift.io/v1alpha1''"

record managedClustersSpec =
  mc_include :: "string list"
  mc_exclude :: "string list"

record alertsSpec =
  al_hostNetwork :: bool
  al_podNetwork :: bool
  al_hostReservedCPU :: bool
  al_ovsProcessCPU :: bool
  al_userAlerts :: bool

record rdsComplianceSpec =
  rds_period :: "duration option"
  rds_enabled :: bool
  rds_minJitter :: "duration option"
  rds_maxJitter :: "duration option"

record lowLatencyCheckSpec =
  ll_period :: "duration option"
  ll_enabled :: bool
  ll_minJitter :: "duration option"
  ll_maxJitter :: "duration option"

record periodicHealthChecksSpec =
  ph_period :: duration
  ph_minJitter :: "duration option"
  ph_maxJitter :: "duration option"
  ph_rdsCompliance :: rdsComplianceSpec
  ph_lowLatencyCheck :: lowLatencyCheckSpec

definition AlertManagerAuthNone :: string where "AlertManagerAuthNone = ''none''"
definition AlertManagerAuthBearer :: string where "AlertManagerAuthBearer = ''bearer''"
definition AlertManagerAuthBasic :: string where "AlertManagerAuthBasic = ''basic''"

record alertManagerCredentialsSecret =
  cs_name :: string

record alertManagerSpec =
  am_url :: string
  am_authType :: string
  am_credentialsSecret :: "alertManagerCredentialsSecret option"

record telcoHealthcheckSpec =
  sp_alertManager :: "alertManagerSpec option"
  sp_managedClusters :: managedClustersSpec
  sp_managedNamespaces :: "string list"
  sp_alerts :: alertsSpec
  sp_periodic :: periodicHealthChecksSpec
  sp_logLevel :: string
  sp_purgeInterval :: "duration option"

record telcoHealthcheckStatus =
  st_monitoredClusters :: "string list"
  st_lastPeriodicRunTime :: "instant option"
  st_lastRDSComplianceRunTime :: "instant option"
  st_lastLowLatencyCheckRunTime :: "instant option"

record telcoHealthcheck = object_meta +
  thc_spec :: telcoHealthcheckSpec
  thc_status :: telcoHealthcheckStatus

section \<open>TelcoHealthCheckRun (the audit record of one run)\<close>

definition TriggerTypeAlert :: string where "TriggerTypeAlert = ''alert''"
definition TriggerTypePeriodicHealthCheck :: string where
  "TriggerTypePeriodicHealthCheck = ''periodicHealthCheck''"

record agenticRunStatus =
  rs_type :: string
  rs_phase :: string
  rs_summary :: string

record alertNotification =
  an_firing :: bool
  an_startsAt :: instant
  an_endsAt :: "instant option"
  an_summary :: string

record telcoHealthCheckRunStatus =
  rr_agenticRunName :: string
  rr_clusterName :: string
  rr_triggeredBy :: string
  rr_trigger :: string
  rr_agenticRunStatus :: "agenticRunStatus option"
  rr_actionRequired :: string
  rr_notifications :: "alertNotification list"
  rr_alertStartsAt :: "instant option"
  rr_lastAlertSentTime :: "instant option"

record telcoHealthCheckRun = object_meta +
  rec_status :: telcoHealthCheckRunStatus

text \<open>The zero values of the Go structs.\<close>

definition zero_agenticRunStatus :: agenticRunStatus where
  "zero_agenticRunStatus = \<lparr>rs_type = '''', rs_phase = '''', rs_summary = ''''\<rparr>"

definition zero_runStatus :: telcoHealthCheckRunStatus where
  "zero_runStatus = \<lparr>rr_agenticRunName = '''', rr_clusterName = '''', rr_triggeredBy = '''',
     rr_trigger = '''', rr_agenticRunStatus = None, rr_actionRequired = '''', rr_notifications = [],
     rr_alertStartsAt = None, rr_lastAlertSentTime = None\<rparr>"

section \<open>Other Kubernetes objects\<close>

record configMap = object_meta +
  cm_data :: "smap option"

record secret = object_meta +
  sec_type :: string
  sec_data :: "smap option"

record cronJob = object_meta +
  cj_schedule :: string
  cj_containers :: "(string \<times> (string \<times> string) list) list"

text \<open>Reading a missing key, or any key of a nil map, gives the empty string.\<close>

definition data_get :: "smap option \<Rightarrow> string \<Rightarrow> string" where
  "data_get d k = (case d of None \<Rightarrow> '''' | Some m \<Rightarrow> sget m k)"

lemma data_get_simps [simp]:
  "data_get None k = ''''" "data_get (Some m) k = sget m k"
  by (simp_all add: data_get_def)

text \<open>The dynamic values of an \<open>interface{}\<close>, with the type assertions of Go.\<close>

datatype uval =
    UNull
  | UBool bool
  | UInt int
  | UStr string
  | USlice "uval list"
  | UMap "string \<rightharpoonup> uval"
  | UOther string  \<comment> \<open>a value of any other Go type, such as a map with other keys\<close>

type_synonym ufields = "string \<rightharpoonup> uval"

definition as_string :: "uval option \<Rightarrow> string option" where
  "as_string v = (case v of Some (UStr s) \<Rightarrow> Some s | _ \<Rightarrow> None)"

definition as_map :: "uval option \<Rightarrow> ufields option" where
  "as_map v = (case v of Some (UMap m) \<Rightarrow> Some m | _ \<Rightarrow> None)"

definition as_slice :: "uval option \<Rightarrow> uval list option" where
  "as_slice v = (case v of Some (USlice xs) \<Rightarrow> Some xs | _ \<Rightarrow> None)"

lemma as_simps [simp]:
  "as_string (Some (UStr s)) = Some s" "as_map (Some (UMap m)) = Some m"
  "as_slice (Some (USlice xs)) = Some xs" "as_slice None = None" "as_map None = None"
  "as_string None = None"
  by (simp_all add: as_string_def as_map_def as_slice_def)

record unstr = object_meta +
  u_kind :: string
  u_fields :: ufields

text \<open>
  The accessors of \<open>k8s.io/apimachinery\<close> for nested fields are library code: they are the fields
  of a parameter. \<open>nested_string\<close> and \<open>nested_slice\<close> return the value and whether an error is
  reported; \<open>set_nested\<close> returns the error message or the changed object.
\<close>

record ulib =
  nested_string :: "ufields \<Rightarrow> string list \<Rightarrow> string \<times> bool \<times> bool"
  nested_slice :: "ufields \<Rightarrow> string list \<Rightarrow> uval list \<times> bool \<times> bool"
  nested_string_map :: "ufields \<Rightarrow> string list \<Rightarrow> smap"
  set_nested :: "ufields \<Rightarrow> uval \<Rightarrow> string list \<Rightarrow> string + ufields"

datatype kobj =
    KTHC telcoHealthcheck
  | KRecord telcoHealthCheckRun
  | KConfigMap configMap
  | KSecret secret
  | KCluster object_meta
  | KCronJob cronJob
  | KUnstr unstr

end
