(* ===== verification/Hub_Client.thy ===== *)
theory Hub_Client
  imports Api_Types
begin

text \<open>
  How the model talks to the world outside the program: the Kubernetes API of the hub, the clock,
  the random source, the external Alertmanager. None of these is defined here. An operation is a
  state transformer over the trace of calls made so far, and the answer to a call is chosen by the
  environment \<open>e\<close>, an arbitrary function of that trace, so that it can depend on everything that
  happened before (other writers, lost responses, conflicts). A theorem that holds for every \<open>e\<close>
  holds whatever the API server does.
\<close>

section \<open>Errors\<close>

datatype api_reason =
    NotFound | Conflict | AlreadyExists | Invalid | BadRequest | Forbidden | Unauthorized
  | MethodNotSupported | RequestEntityTooLarge | Timeout | OtherReason string

text \<open>\<open>fmt.Errorf\<close> without \<open>%w\<close> is \<open>Msg\<close>, with \<open>%w\<close> it is \<open>Wrap\<close>.\<close>

datatype gerr = ApiErr api_reason | Msg string | Wrap string gerr

text \<open>\<open>apierrors.ReasonForError\<close> looks through wrapped errors.\<close>

fun reason_of :: "gerr \<Rightarrow> api_reason option" where
  "reason_of (ApiErr r) = Some r"
| "reason_of (Msg m) = None"
| "reason_of (Wrap m e) = reason_of e"

definition isNotFound :: "gerr \<Rightarrow> bool" where
  "isNotFound e \<longleftrightarrow> reason_of e = Some NotFound"

definition ignoreNotFound :: "gerr \<Rightarrow> gerr option" where
  "ignoreNotFound e = (if isNotFound e then None else Some e)"

lemma isNotFound_simps [simp]:
  "isNotFound (ApiErr r) \<longleftrightarrow> r = NotFound" "\<not> isNotFound (Msg m)" "isNotFound (Wrap m e) = isNotFound e"
  by (simp_all add: isNotFound_def)

text \<open>Code that can panic (a write to a nil map, an index out of range) returns an outcome.\<close>

datatype 'a outcome = Done 'a | Panicked

section \<open>Calls and answers\<close>

text \<open>
  \<open>Cached\<close> reads go through the manager's client, which may answer from its informer cache, \<open>Live\<close>
  ones through a client that always asks the API server.
\<close>

datatype source = Cached | Live

datatype kind =
    ThcKind | RecordKind | ConfigMapKind | SecretKind | ManagedClusterKind | CronJobKind
  | AgenticRunKind | AnalysisResultKind | RouteKind

datatype zap_level = DebugLevel | InfoLevel

instantiation zap_level :: linorder
begin

definition less_eq_zap_level :: "zap_level \<Rightarrow> zap_level \<Rightarrow> bool" where
  "less_eq_zap_level a b \<longleftrightarrow> (a = InfoLevel \<longrightarrow> b = InfoLevel)"

definition less_zap_level :: "zap_level \<Rightarrow> zap_level \<Rightarrow> bool" where
  "less_zap_level a b \<longleftrightarrow> a = DebugLevel \<and> b = InfoLevel"

instance
  by (intro_classes; simp add: less_eq_zap_level_def less_zap_level_def)
    (metis zap_level.exhaust zap_level.distinct(1))+

end

text \<open>A request to the external Alertmanager, and a creation that runs after a delay.\<close>

record http_alert =
  ha_labels :: smap
  ha_annotations :: smap
  ha_startsAt :: instant
  ha_endsAt :: instant

record http_request =
  hr_endpoint :: string
  hr_contentType :: string
  hr_authorization :: "string option"
  hr_followRedirects :: bool
  hr_payload :: "http_alert list"

datatype call =
    Get source kind string string
  | ListObjs source kind string "(string \<times> string) list"
  | Create kobj
  | Update kobj
  | StatusUpdate kobj
  | StatusPatch kobj kobj
  | Delete kobj
  | ApplyPatch unstr
  | Now
  | Rand63
  | Rand63n int
  | HttpDo http_request
  | SetLevel zap_level
  | Spawn duration string string string

datatype resp =
    ROk
  | RErr gerr
  | RObj kobj
  | RList "kobj list"
  | RTime instant
  | RInt int
  | RHttp int

type_synonym trace = "(call \<times> resp) list"
type_synonym env = "trace \<Rightarrow> call \<Rightarrow> resp"
type_synonym 'a io = "(trace, 'a) state"

abbreviation ret :: "'a \<Rightarrow> 'a io" where "ret \<equiv> State_Monad.return"

definition invoke :: "env \<Rightarrow> call \<Rightarrow> resp io" where
  "invoke e c = State (\<lambda>t. let r = e t c in (r, t @ [(c, r)]))"

lemma run_invoke [simp]: "run_state (invoke e c) t = (e t c, t @ [(c, e t c)])"
  by (simp add: invoke_def Let_def)

text \<open>Typed wrappers; an answer of the wrong shape is a decoding error of the client.\<close>

definition decode_error :: gerr where "decode_error = Msg ''unexpected response''"

definition err_of :: "resp \<Rightarrow> gerr" where
  "err_of r = (case r of RErr er \<Rightarrow> er | _ \<Rightarrow> decode_error)"

definition ack :: "resp \<Rightarrow> gerr option" where
  "ack r = (case r of ROk \<Rightarrow> None | RObj x \<Rightarrow> None | RErr er \<Rightarrow> Some er | _ \<Rightarrow> Some decode_error)"

fun as_thc :: "resp \<Rightarrow> gerr + telcoHealthcheck" where
  "as_thc (RObj (KTHC x)) = Inr x"
| "as_thc r = Inl (err_of r)"

fun as_record :: "resp \<Rightarrow> gerr + telcoHealthCheckRun" where
  "as_record (RObj (KRecord x)) = Inr x"
| "as_record r = Inl (err_of r)"

fun as_configMap :: "resp \<Rightarrow> gerr + configMap" where
  "as_configMap (RObj (KConfigMap x)) = Inr x"
| "as_configMap r = Inl (err_of r)"

fun as_secret :: "resp \<Rightarrow> gerr + secret" where
  "as_secret (RObj (KSecret x)) = Inr x"
| "as_secret r = Inl (err_of r)"

fun as_cronJob :: "resp \<Rightarrow> gerr + cronJob" where
  "as_cronJob (RObj (KCronJob x)) = Inr x"
| "as_cronJob r = Inl (err_of r)"

fun as_unstr :: "resp \<Rightarrow> gerr + unstr" where
  "as_unstr (RObj (KUnstr x)) = Inr x"
| "as_unstr r = Inl (err_of r)"

definition list_of :: "(kobj \<Rightarrow> 'a option) \<Rightarrow> resp \<Rightarrow> gerr + 'a list" where
  "list_of f r = (case r of RList xs \<Rightarrow> Inr (List.map_filter f xs) | _ \<Rightarrow> Inl (err_of r))"

definition kRecord :: "kobj \<Rightarrow> telcoHealthCheckRun option" where
  "kRecord x = (case x of KRecord y \<Rightarrow> Some y | _ \<Rightarrow> None)"
definition kConfigMap :: "kobj \<Rightarrow> configMap option" where
  "kConfigMap x = (case x of KConfigMap y \<Rightarrow> Some y | _ \<Rightarrow> None)"
definition kCluster :: "kobj \<Rightarrow> object_meta option" where
  "kCluster x = (case x of KCluster y \<Rightarrow> Some y | _ \<Rightarrow> None)"

definition as_time :: "resp \<Rightarrow> instant" where
  "as_time r = (case r of RTime t \<Rightarrow> t | _ \<Rightarrow> 0)"

definition as_int :: "resp \<Rightarrow> int" where
  "as_int r = (case r of RInt i \<Rightarrow> i | _ \<Rightarrow> 0)"

definition api_get :: "(resp \<Rightarrow> gerr + 'a) \<Rightarrow> env \<Rightarrow> source \<Rightarrow> kind \<Rightarrow> string \<Rightarrow> string \<Rightarrow> (gerr + 'a) io" where
  "api_get dec e c k ns name = do { r \<leftarrow> invoke e (Get c k ns name); ret (dec r) }"

definition api_list :: "(kobj \<Rightarrow> 'a option) \<Rightarrow> env \<Rightarrow> source \<Rightarrow> kind \<Rightarrow> string \<Rightarrow> (string \<times> string) list
    \<Rightarrow> (gerr + 'a list) io" where
  "api_list f e c k ns ls = do { r \<leftarrow> invoke e (ListObjs c k ns ls); ret (list_of f r) }"

definition api_do :: "env \<Rightarrow> call \<Rightarrow> gerr option io" where
  "api_do e c = do { r \<leftarrow> invoke e c; ret (ack r) }"

definition now :: "env \<Rightarrow> instant io" where
  "now e = do { r \<leftarrow> invoke e Now; ret (as_time r) }"

lemmas [io_run] = api_get_def api_list_def api_do_def now_def

text \<open>\<open>ctrl.Result\<close>, what a reconciler asks of its queue.\<close>

record ctrl_result =
  res_requeue :: bool
  res_after :: duration

definition no_result :: ctrl_result where "no_result = \<lparr>res_requeue = False, res_after = 0\<rparr>"
definition requeue_now :: ctrl_result where "requeue_now = \<lparr>res_requeue = True, res_after = 0\<rparr>"
definition requeue_after :: "duration \<Rightarrow> ctrl_result" where
  "requeue_after d = \<lparr>res_requeue = False, res_after = d\<rparr>"

text \<open>\<open>return ctrl.Result{}, client.IgnoreNotFound(err)\<close>.\<close>

definition not_found_result :: "gerr \<Rightarrow> ctrl_result \<times> gerr option" where
  "not_found_result er = (no_result, ignoreNotFound er)"

lemmas resp_simps [simp] = err_of_def ack_def list_of_def as_time_def as_int_def
  kRecord_def kConfigMap_def kCluster_def

text \<open>Reading back what an answer held.\<close>

lemma as_thc_Inr: "as_thc g = Inr x \<longleftrightarrow> g = RObj (KTHC x)"
  by (induction g rule: as_thc.induct) auto

lemma as_record_Inr: "as_record g = Inr x \<longleftrightarrow> g = RObj (KRecord x)"
  by (induction g rule: as_record.induct) auto

lemma as_configMap_Inr: "as_configMap g = Inr x \<longleftrightarrow> g = RObj (KConfigMap x)"
  by (induction g rule: as_configMap.induct) auto

lemma as_secret_Inr: "as_secret g = Inr x \<longleftrightarrow> g = RObj (KSecret x)"
  by (induction g rule: as_secret.induct) auto

lemma as_cronJob_Inr: "as_cronJob g = Inr x \<longleftrightarrow> g = RObj (KCronJob x)"
  by (induction g rule: as_cronJob.induct) auto

lemma as_unstr_Inr: "as_unstr g = Inr x \<longleftrightarrow> g = RObj (KUnstr x)"
  by (induction g rule: as_unstr.induct) auto

end
