(* ===== verification/Trace_Logic.thy ===== *)
theory Trace_Logic
  imports Hub_Client
begin

text \<open>
  A small program logic over traces. \<open>spec m Q\<close> says that from any past the operation \<open>m\<close>
  only appends to the trace, and that its result and the appended calls satisfy \<open>Q\<close>. The
  environment is inside \<open>m\<close>, so a \<open>spec\<close> of an operation over a variable environment covers
  every behaviour of the hub. \<open>emits P m\<close> is the special case in which every call satisfies \<open>P\<close>.
\<close>

definition spec :: "'a io \<Rightarrow> ('a \<Rightarrow> trace \<Rightarrow> bool) \<Rightarrow> bool" where
  "spec m Q \<longleftrightarrow> (\<forall>t. \<exists>u. snd (run_state m t) = t @ u \<and> Q (fst (run_state m t)) u)"

lemma specD:
  assumes "spec m Q" obtains u where "snd (run_state m t) = t @ u" "Q (fst (run_state m t)) u"
  using assms unfolding spec_def by blast

text \<open>A specification of a result that is an optional error, read off a run.\<close>

lemma spec_no_error:
  assumes "spec m (\<lambda>x u. (x = None \<longrightarrow> P u) \<and> Q u)"
  shows "\<exists>u. snd (run_state m t) = t @ u \<and> Q u
    \<and> (case fst (run_state m t) of Some er \<Rightarrow> True | None \<Rightarrow> P u)"
proof -
  obtain u where "snd (run_state m t) = t @ u" "(fst (run_state m t) = None \<longrightarrow> P u) \<and> Q u"
    by (rule specD [OF assms])
  then show ?thesis by (intro exI [of _ u]) (simp split: option.split)
qed

lemma spec_run:
  assumes "spec m Q" "run_state m [] = (x, u)" shows "Q x u"
  using assms unfolding spec_def by (metis append_Nil fst_conv snd_conv)

lemma spec_ret [io_spec]: "Q x [] \<Longrightarrow> spec (ret x) Q"
  by (simp add: spec_def)

lemma spec_invoke [io_spec]: "(\<And>r. Q r [(c, r)]) \<Longrightarrow> spec (invoke e c) Q"
  by (simp add: spec_def)

lemma spec_bind [io_spec]:
  assumes "spec m (\<lambda>x u. spec (f x) (\<lambda>y v. Q y (u @ v)))"
  shows "spec (State_Monad.bind m f) Q"
proof -
  have "\<exists>w. snd (run_state (State_Monad.bind m f) t) = t @ w
        \<and> Q (fst (run_state (State_Monad.bind m f) t)) w" for t
  proof -
    obtain u where u: "snd (run_state m t) = t @ u"
        "spec (f (fst (run_state m t))) (\<lambda>y v. Q y (u @ v))"
      by (rule specD [OF assms])
    obtain v where v: "snd (run_state (f (fst (run_state m t))) (t @ u)) = (t @ u) @ v"
        "Q (fst (run_state (f (fst (run_state m t))) (t @ u))) (u @ v)"
      by (rule specD [OF u(2)])
    from u v show ?thesis by (auto simp: split_beta)
  qed
  then show ?thesis by (simp add: spec_def)
qed

lemma spec_conseq: "spec m Q \<Longrightarrow> (\<And>x u. Q x u \<Longrightarrow> Q' x u) \<Longrightarrow> spec m Q'"
  unfolding spec_def by blast

lemma spec_conj: "spec m Q \<Longrightarrow> spec m Q' \<Longrightarrow> spec m (\<lambda>x u. Q x u \<and> Q' x u)"
  unfolding spec_def by (metis same_append_eq)

lemma spec_if [io_spec]:
  "(b \<Longrightarrow> spec m Q) \<Longrightarrow> (\<not> b \<Longrightarrow> spec m' Q) \<Longrightarrow> spec (if b then m else m') Q"
  by simp

lemma spec_option [io_spec]:
  "(x = None \<Longrightarrow> spec m Q) \<Longrightarrow> (\<And>y. x = Some y \<Longrightarrow> spec (f y) Q)
   \<Longrightarrow> spec (case x of None \<Rightarrow> m | Some y \<Rightarrow> f y) Q"
  by (cases x) simp_all

lemma spec_sum [io_spec]:
  "(\<And>y. x = Inl y \<Longrightarrow> spec (f y) Q) \<Longrightarrow> (\<And>y. x = Inr y \<Longrightarrow> spec (g y) Q)
   \<Longrightarrow> spec (case x of Inl y \<Rightarrow> f y | Inr y \<Rightarrow> g y) Q"
  by (cases x) simp_all

lemma spec_prod [io_spec]:
  "(\<And>a b. x = (a, b) \<Longrightarrow> spec (f a b) Q) \<Longrightarrow> spec (case x of (a, b) \<Rightarrow> f a b) Q"
  by (cases x) simp

lemma spec_list [io_spec]:
  "(x = [] \<Longrightarrow> spec m Q) \<Longrightarrow> (\<And>y ys. x = y # ys \<Longrightarrow> spec (f y ys) Q)
   \<Longrightarrow> spec (case x of [] \<Rightarrow> m | y # ys \<Rightarrow> f y ys) Q"
  by (cases x) simp_all

lemma spec_Let [io_spec]: "spec (f x) Q \<Longrightarrow> spec (let y = x in f y) Q"
  by (simp add: Let_def)

lemma spec_api_get [io_spec]:
  "(\<And>r. Q (dec r) [(Get c k ns name, r)]) \<Longrightarrow> spec (api_get dec e c k ns name) Q"
  unfolding api_get_def by (rule spec_bind spec_invoke spec_ret | simp)+

lemma spec_api_list [io_spec]:
  "(\<And>r. Q (list_of f r) [(ListObjs c k ns ls, r)]) \<Longrightarrow> spec (api_list f e c k ns ls) Q"
  unfolding api_list_def by (rule spec_bind spec_invoke spec_ret | simp)+

lemma spec_api_do [io_spec]: "(\<And>r. Q (ack r) [(c, r)]) \<Longrightarrow> spec (api_do e c) Q"
  unfolding api_do_def by (rule spec_bind spec_invoke spec_ret | simp)+

lemma spec_now [io_spec]: "(\<And>r. Q (as_time r) [(Now, r)]) \<Longrightarrow> spec (now e) Q"
  unfolding now_def by (rule spec_bind spec_invoke spec_ret | simp)+

section \<open>Calls of an operation\<close>

definition emits :: "(call \<Rightarrow> bool) \<Rightarrow> 'a io \<Rightarrow> bool" where
  "emits P m \<longleftrightarrow> spec m (\<lambda>_ u. \<forall>ev \<in> set u. P (fst ev))"

named_theorems io_emits \<comment> \<open>introduction rules of \<open>emits\<close>\<close>

lemma emits_ret [io_emits]: "emits P (ret x)"
  by (simp add: emits_def spec_def)

lemma emits_invoke [io_emits]: "P c \<Longrightarrow> emits P (invoke e c)"
  by (simp add: emits_def spec_def)

lemma emits_bind [io_emits]:
  assumes "emits P m" "\<And>x. emits P (f x)" shows "emits P (State_Monad.bind m f)"
  unfolding emits_def
proof (rule spec_bind, rule spec_conseq [OF assms(1) [unfolded emits_def]])
  fix x and u :: trace assume u: "\<forall>ev \<in> set u. P (fst ev)"
  show "spec (f x) (\<lambda>_ v. \<forall>ev \<in> set (u @ v). P (fst ev))"
    using assms(2) [of x] u unfolding emits_def by (auto elim!: spec_conseq)
qed

lemma emits_if [io_emits]: "(b \<Longrightarrow> emits P m) \<Longrightarrow> (\<not> b \<Longrightarrow> emits P m') \<Longrightarrow> emits P (if b then m else m')"
  by simp

lemma emits_option [io_emits]:
  "(x = None \<Longrightarrow> emits P m) \<Longrightarrow> (\<And>y. x = Some y \<Longrightarrow> emits P (f y))
   \<Longrightarrow> emits P (case x of None \<Rightarrow> m | Some y \<Rightarrow> f y)"
  by (cases x) simp_all

lemma emits_sum [io_emits]:
  "(\<And>y. x = Inl y \<Longrightarrow> emits P (f y)) \<Longrightarrow> (\<And>y. x = Inr y \<Longrightarrow> emits P (g y))
   \<Longrightarrow> emits P (case x of Inl y \<Rightarrow> f y | Inr y \<Rightarrow> g y)"
  by (cases x) simp_all

lemma emits_prod [io_emits]:
  "(\<And>a b. x = (a, b) \<Longrightarrow> emits P (f a b)) \<Longrightarrow> emits P (case x of (a, b) \<Rightarrow> f a b)"
  by (cases x) simp

lemma emits_list [io_emits]:
  "(x = [] \<Longrightarrow> emits P m) \<Longrightarrow> (\<And>y ys. x = y # ys \<Longrightarrow> emits P (f y ys))
   \<Longrightarrow> emits P (case x of [] \<Rightarrow> m | y # ys \<Rightarrow> f y ys)"
  by (cases x) simp_all

lemma emits_Let [io_emits]: "emits P (f x) \<Longrightarrow> emits P (let y = x in f y)"
  by (simp add: Let_def)

lemma emits_api_get [io_emits]: "P (Get c k ns name) \<Longrightarrow> emits P (api_get dec e c k ns name)"
  unfolding api_get_def by (intro io_emits)

lemma emits_api_list [io_emits]: "P (ListObjs c k ns ls) \<Longrightarrow> emits P (api_list f e c k ns ls)"
  unfolding api_list_def by (intro io_emits)

lemma emits_api_do [io_emits]: "P c \<Longrightarrow> emits P (api_do e c)"
  unfolding api_do_def by (intro io_emits)

lemma emits_now [io_emits]: "P Now \<Longrightarrow> emits P (now e)"
  unfolding now_def by (intro io_emits)

lemma emits_mono: "emits P m \<Longrightarrow> (\<And>c. P c \<Longrightarrow> P' c) \<Longrightarrow> emits P' m"
  unfolding emits_def by (erule spec_conseq) auto

text \<open>Calls of an operation that never satisfy \<open>P\<close> leave what a filter of the trace sees alone.\<close>

lemma spec_of_emits:
  "emits P m \<Longrightarrow> (\<And>x u. \<forall>ev \<in> set u. P (fst ev) \<Longrightarrow> Q x u) \<Longrightarrow> spec m Q"
  unfolding emits_def by (rule spec_conseq)

section \<open>Retry on conflict\<close>

text \<open>
  \<open>retry.RetryOnConflict\<close> of client-go calls the function again while it reports a conflict. How
  often it does so is a setting of that library (\<open>DefaultRetry\<close>), the parameter \<open>k\<close>: one
  attempt and at most \<open>k\<close> more.
\<close>

fun retry_on_conflict :: "nat \<Rightarrow> gerr option io \<Rightarrow> gerr option io" where
  "retry_on_conflict 0 f = f"
| "retry_on_conflict (Suc k) f = do {
     r \<leftarrow> f;
     (case r of
        Some er \<Rightarrow> if reason_of er = Some Conflict then retry_on_conflict k f else ret r
      | None \<Rightarrow> ret None) }"

lemma emits_retry [io_emits]: "emits P f \<Longrightarrow> emits P (retry_on_conflict k f)"
  by (induction k) (auto intro!: io_emits)

text \<open>
  An attempt's postcondition that is closed under "a failed attempt with a conflict, then the
  rest" is a postcondition of the loop.
\<close>

lemma spec_retry:
  assumes att: "spec f Q"
    and again: "\<And>er u r v. Q (Some er) u \<Longrightarrow> reason_of er = Some Conflict \<Longrightarrow> Q r v \<Longrightarrow> Q r (u @ v)"
  shows "spec (retry_on_conflict k f) Q"
proof (induction k)
  case 0
  show ?case using att by simp
next
  case (Suc k)
  have "spec (case r of Some er \<Rightarrow> if reason_of er = Some Conflict then retry_on_conflict k f else ret r
        | None \<Rightarrow> ret None) (\<lambda>y v. Q y (u @ v))" if "Q r u" for r u
    using that again Suc by (auto intro!: io_spec intro: spec_conseq)
  then show ?case using att by (auto intro!: spec_bind intro: spec_conseq)
qed

section \<open>Guarded calls\<close>

text \<open>
  \<open>guarded G u\<close>: every call of \<open>u\<close> is allowed by what happened in \<open>u\<close> before it. A guard is
  stable if it cannot be lost by adding older history.
\<close>

definition guarded :: "(trace \<Rightarrow> call \<Rightarrow> bool) \<Rightarrow> trace \<Rightarrow> bool" where
  "guarded G u \<longleftrightarrow> (\<forall>v c a w. u = v @ (c, a) # w \<longrightarrow> G v c)"

definition stable :: "(trace \<Rightarrow> call \<Rightarrow> bool) \<Rightarrow> bool" where
  "stable G \<longleftrightarrow> (\<forall>x v c. G v c \<longrightarrow> G (x @ v) c)"

lemma guarded_Nil [simp]: "guarded G []"
  by (simp add: guarded_def)

lemma guarded_Cons [simp]: "guarded G ((c, a) # u) \<longleftrightarrow> G [] c \<and> guarded (\<lambda>v. G ((c, a) # v)) u"
  unfolding guarded_def by (auto simp: Cons_eq_append_conv)

lemma guarded_append_iff: "guarded G (u @ v) \<longleftrightarrow> guarded G u \<and> guarded (\<lambda>w. G (u @ w)) v"
proof (induction u arbitrary: G)
  case Nil
  show ?case by simp
next
  case (Cons ev u)
  then show ?case by (cases ev) simp
qed

lemma guarded_mono: "guarded G u \<Longrightarrow> (\<And>v c. G v c \<Longrightarrow> H v c) \<Longrightarrow> guarded H u"
  unfolding guarded_def by blast

lemma guarded_append: "stable G \<Longrightarrow> guarded G u \<Longrightarrow> guarded G v \<Longrightarrow> guarded G (u @ v)"
  unfolding guarded_append_iff by (auto simp: stable_def intro: guarded_mono)

lemma guarded_all: "(\<And>ev v. ev \<in> set u \<Longrightarrow> G v (fst ev)) \<Longrightarrow> guarded G u"
  unfolding guarded_def by fastforce

text \<open>Sequencing under a stable guard.\<close>

lemma spec_bind_guarded:
  assumes "stable G" "spec m (\<lambda>_ u. guarded G u)" "\<And>x. spec (f x) (\<lambda>_ u. guarded G u)"
  shows "spec (State_Monad.bind m f) (\<lambda>_ u. guarded G u)"
proof (rule spec_bind, rule spec_conseq [OF assms(2)])
  fix x and u :: trace assume "guarded G u"
  then show "spec (f x) (\<lambda>_ v. guarded G (u @ v))"
    by (intro spec_conseq [OF assms(3)]) (rule guarded_append [OF assms(1)])
qed

end
