(* ===== verification/Digest.thy ===== *)
theory Digest
  imports Prelude
begin

text \<open>
  The SHA-256 digest of the standard library (\<open>crypto/sha256\<close>, FIPS 180-4), which the operator
  uses to derive label-safe run keys and unique run names.
\<close>

type_synonym word32 = "32 word"

definition sha_K :: "word32 list" where
  "sha_K = [
   1116352408, 1899447441, 3049323471, 3921009573, 961987163, 1508970993, 2453635748, 2870763221,
   3624381080, 310598401, 607225278, 1426881987, 1925078388, 2162078206, 2614888103, 3248222580,
   3835390401, 4022224774, 264347078, 604807628, 770255983, 1249150122, 1555081692, 1996064986,
   2554220882, 2821834349, 2952996808, 3210313671, 3336571891, 3584528711, 113926993, 338241895,
   666307205, 773529912, 1294757372, 1396182291, 1695183700, 1986661051, 2177026350, 2456956037,
   2730485921, 2820302411, 3259730800, 3345764771, 3516065817, 3600352804, 4094571909, 275423344,
   430227734, 506948616, 659060556, 883997877, 958139571, 1322822218, 1537002063, 1747873779,
   1955562222, 2024104815, 2227730452, 2361852424, 2428436474, 2756734187, 3204031479, 3329325298]"

definition sha_H0 :: "word32 list" where
  "sha_H0 = [1779033703, 3144134277, 1013904242, 2773480762,
             1359893119, 2600822924, 528734635, 1541459225]"

definition rotr :: "nat \<Rightarrow> word32 \<Rightarrow> word32" where
  "rotr n x = drop_bit n x OR push_bit (32 - n) x"

definition big_sigma0 :: "word32 \<Rightarrow> word32" where
  "big_sigma0 x = rotr 2 x XOR rotr 13 x XOR rotr 22 x"
definition big_sigma1 :: "word32 \<Rightarrow> word32" where
  "big_sigma1 x = rotr 6 x XOR rotr 11 x XOR rotr 25 x"
definition small_sigma0 :: "word32 \<Rightarrow> word32" where
  "small_sigma0 x = rotr 7 x XOR rotr 18 x XOR drop_bit 3 x"
definition small_sigma1 :: "word32 \<Rightarrow> word32" where
  "small_sigma1 x = rotr 17 x XOR rotr 19 x XOR drop_bit 10 x"
definition sha_ch :: "word32 \<Rightarrow> word32 \<Rightarrow> word32 \<Rightarrow> word32" where
  "sha_ch x y z = (x AND y) XOR (NOT x AND z)"
definition sha_maj :: "word32 \<Rightarrow> word32 \<Rightarrow> word32 \<Rightarrow> word32" where
  "sha_maj x y z = (x AND y) XOR (x AND z) XOR (y AND z)"

text \<open>The message schedule, newest word first.\<close>

fun extend_schedule :: "nat \<Rightarrow> word32 list \<Rightarrow> word32 list" where
  "extend_schedule 0 w = w"
| "extend_schedule (Suc n) w =
     extend_schedule n ((small_sigma1 (w ! 1) + w ! 6 + small_sigma0 (w ! 14) + w ! 15) # w)"

fun sha_round :: "word32 list \<Rightarrow> word32 \<times> word32 \<Rightarrow> word32 list" where
  "sha_round [a, b, c, d, e, f, g, h] (k, w) =
     (let t1 = h + big_sigma1 e + sha_ch e f g + k + w;
          t2 = big_sigma0 a + sha_maj a b c
      in [t1 + t2, a, b, c, d + t1, e, f, g])"
| "sha_round s _ = s"

fun be_word :: "byte list \<Rightarrow> word32" where
  "be_word bs = foldl (\<lambda>acc b. push_bit 8 acc OR ucast b) 0 bs"

definition be_bytes :: "word32 \<Rightarrow> byte list" where
  "be_bytes x = [ucast (drop_bit 24 x), ucast (drop_bit 16 x), ucast (drop_bit 8 x), ucast x]"

fun words_of_block :: "nat \<Rightarrow> byte list \<Rightarrow> word32 list" where
  "words_of_block 0 bs = []"
| "words_of_block (Suc n) bs = be_word (take 4 bs) # words_of_block n (drop 4 bs)"

definition sha_block :: "word32 list \<Rightarrow> byte list \<Rightarrow> word32 list" where
  "sha_block h bs =
     map (\<lambda>(a, b). a + b)
       (zip h (foldl sha_round h (zip sha_K (rev (extend_schedule 48 (rev (words_of_block 16 bs)))))))"

fun sha_blocks :: "nat \<Rightarrow> word32 list \<Rightarrow> byte list \<Rightarrow> word32 list" where
  "sha_blocks 0 h bs = h"
| "sha_blocks (Suc n) h bs = sha_blocks n (sha_block h (take 64 bs)) (drop 64 bs)"

definition sha_pad :: "byte list \<Rightarrow> byte list" where
  "sha_pad bs = bs @ 0x80 # replicate ((119 - length bs mod 64) mod 64) 0
     @ map (\<lambda>i. ucast (drop_bit i (of_nat (8 * length bs) :: 64 word))) [56, 48, 40, 32, 24, 16, 8, 0]"

definition sum256_bytes :: "byte list \<Rightarrow> byte list" where
  "sum256_bytes bs =
     (let p = sha_pad bs in concat (map be_bytes (sha_blocks (length p div 64) sha_H0 p)))"

definition sum256 :: "string \<Rightarrow> byte list" where
  "sum256 s = sum256_bytes (map byte_of s)"

lemma length_be_bytes [simp]: "length (be_bytes x) = 4"
  by (simp add: be_bytes_def)

lemma length_sha_round [simp]: "length (sha_round s p) = length s"
  by (induction s p rule: sha_round.induct) (simp_all add: Let_def)

lemma length_sha_rounds [simp]: "length (foldl sha_round s ps) = length s"
  by (induction ps arbitrary: s) simp_all

lemma length_sha_blocks: "length h = 8 \<Longrightarrow> length (sha_blocks n h bs) = 8"
  by (induction n arbitrary: h bs) (simp_all add: sha_block_def)

lemma length_concat_be_bytes: "length (concat (map be_bytes ws)) = 4 * length ws"
  by (induction ws) simp_all

lemma length_sum256 [simp]: "length (sum256 s) = 32"
  by (simp add: sum256_def sum256_bytes_def Let_def length_concat_be_bytes length_sha_blocks sha_H0_def)

text \<open>The test vector \<open>"abc"\<close> of FIPS 180-4, evaluated by the kernel.\<close>

end
