(* ===== verification/Run_Record.thy ===== *)
theory Run_Record
  imports Trace_Logic Digest
begin

text \<open>
  The audit records of \<open>internal/healthcheckrun/record.go\<close> and their recovery in
  \<open>internal/controller/runrecovery.go\<close>. A record is written before the run it stands for
  (\<open>Begin\<close>), its outcome is entered afterwards (\<open>Confirm\<close>, \<open>Fail\<close>), and a record left pending by
  a crash is settled later (\<open>recoverPendingRuns\<close>).
\<close>

definition PendingAnnotation :: string where
  "PendingAnnotation = ''ran.openshift.io/spoke-creation-pending''"
definition HubOriginAnnotation :: string where
  "HubOriginAnnotation = ''ran.openshift.io/hub-agentic-run''"
definition RunKeyLabel :: string where "RunKeyLabel = ''ran.openshift.io/run-key''"
definition PhasePending :: string where "PhasePending = ''Pending''"
definition PhaseCreated :: string where "PhaseCreated = ''Created''"
definition PhaseFailed :: string where "PhaseFailed = ''Failed''"
definition ManagedByLabel :: string where "ManagedByLabel = ''app.kubernetes.io/managed-by''"
definition ManagedByValue :: string where "ManagedByValue = ''telco-anomaly-detection''"

lemmas record_consts = PendingAnnotation_def HubOriginAnnotation_def RunKeyLabel_def
  PhasePending_def PhaseCreated_def PhaseFailed_def ManagedByLabel_def ManagedByValue_def

text \<open>\<open>Key\<close>: the first 16 bytes of the digest of cluster and run name, in hexadecimal.\<close>

definition Key :: "string \<Rightarrow> string \<Rightarrow> string" where
  "Key clusterName runName = hex_encode (take 16 (sum256 (clusterName @ CHR 0x00 # runName)))"

section \<open>Begin\<close>

definition as_stored_record :: "telcoHealthCheckRun \<Rightarrow> resp \<Rightarrow> gerr + telcoHealthCheckRun" where
  "as_stored_record r a = (case a of ROk \<Rightarrow> Inr r | _ \<Rightarrow> as_record a)"

definition pending_record ::
  "string \<Rightarrow> string \<Rightarrow> string \<Rightarrow> string \<Rightarrow> telcoHealthcheck \<Rightarrow> telcoHealthCheckRun" where
  "pending_record ns name runName clusterName owner =
     \<lparr>om_name = name, om_namespace = ns, om_uid = '''', om_resourceVersion = '''',
      om_labels = [ManagedByLabel \<mapsto> ManagedByValue, RunKeyLabel \<mapsto> Key clusterName runName],
      om_annotations = [PendingAnnotation \<mapsto> ''true'', HubOriginAnnotation \<mapsto> ''true''],
      om_finalizers = [],
      om_owners = [\<lparr>or_apiVersion = GroupVersion, or_kind = ''TelcoHealthcheck'',
                    or_name = om_name owner, or_uid = om_uid owner\<rparr>],
      om_creation = None, om_deletion = None, rec_status = zero_runStatus\<rparr>"

definition pending_status :: "string \<Rightarrow> string \<Rightarrow> string \<Rightarrow> string \<Rightarrow> telcoHealthCheckRunStatus" where
  "pending_status runName clusterName triggeredBy trigger =
     zero_runStatus\<lparr>rr_agenticRunName := runName, rr_clusterName := clusterName,
       rr_triggeredBy := triggeredBy, rr_trigger := trigger,
       rr_agenticRunStatus := Some (zero_agenticRunStatus\<lparr>rs_phase := PhasePending\<rparr>)\<rparr>"

definition Begin ::
  "env \<Rightarrow> string \<Rightarrow> string \<Rightarrow> string \<Rightarrow> string \<Rightarrow> string \<Rightarrow> string \<Rightarrow> telcoHealthcheck
   \<Rightarrow> (gerr + telcoHealthCheckRun) io" where
  "Begin e ns name runName clusterName triggeredBy trigger owner =
     (if om_uid owner = '''' then ret (Inl (Msg (''TelcoHealthcheck has no UID: '' @ om_name owner)))
      else do {
        let record = pending_record ns name runName clusterName owner;
        a \<leftarrow> invoke e (Create (KRecord record));
        (case as_stored_record record a of
           Inl er \<Rightarrow> ret (Inl (Wrap (''creating pending hub record '' @ name) er))
         | Inr stored \<Rightarrow> do {
             let record = stored\<lparr>rec_status := pending_status runName clusterName triggeredBy trigger\<rparr>;
             b \<leftarrow> invoke e (StatusUpdate (KRecord record));
             (case as_stored_record record b of
                Inl er \<Rightarrow> ret (Inl (Wrap (''setting pending hub record status '' @ name) er))
              | Inr final \<Rightarrow> ret (Inr final)) }) })"

section \<open>Confirm and Fail\<close>

definition is_pending :: "telcoHealthCheckRun \<Rightarrow> bool" where
  "is_pending r \<longleftrightarrow> sget (om_annotations r) PendingAnnotation = ''true''"

text \<open>The guard that keeps an AgenticRun condition that arrived before the confirmation.\<close>

definition outcome_known :: "telcoHealthCheckRun \<Rightarrow> bool" where
  "outcome_known r \<longleftrightarrow> (case rr_agenticRunStatus (rec_status r) of
       None \<Rightarrow> False
     | Some s \<Rightarrow> rs_phase s \<noteq> PhasePending \<and> (rs_phase s \<noteq> '''' \<or> rs_summary s \<noteq> ''''))"

definition set_phase :: "string \<Rightarrow> telcoHealthCheckRun \<Rightarrow> telcoHealthCheckRun" where
  "set_phase phase r = r\<lparr>rec_status := (rec_status r)\<lparr>rr_agenticRunStatus :=
     Some ((case rr_agenticRunStatus (rec_status r) of None \<Rightarrow> zero_agenticRunStatus | Some s \<Rightarrow> s)
             \<lparr>rs_phase := phase\<rparr>)\<rparr>\<rparr>"

definition clear_pending :: "telcoHealthCheckRun \<Rightarrow> telcoHealthCheckRun" where
  "clear_pending r = r\<lparr>om_annotations := (om_annotations r)(PendingAnnotation := None)\<rparr>"

definition finish_status_attempt :: "env \<Rightarrow> source \<Rightarrow> string \<Rightarrow> string \<Rightarrow> string \<Rightarrow> gerr option io" where
  "finish_status_attempt e c ns name phase = do {
     g \<leftarrow> api_get as_record e c RecordKind ns name;
     (case g of
        Inl er \<Rightarrow> ret (Some er)
      | Inr r \<Rightarrow>
          if \<not> is_pending r \<or> outcome_known r then ret None
          else api_do e (StatusUpdate (KRecord (set_phase phase r)))) }"

definition finish_annotation_attempt :: "env \<Rightarrow> source \<Rightarrow> string \<Rightarrow> string \<Rightarrow> gerr option io" where
  "finish_annotation_attempt e c ns name = do {
     g \<leftarrow> api_get as_record e c RecordKind ns name;
     (case g of
        Inl er \<Rightarrow> ret (Some er)
      | Inr r \<Rightarrow>
          if \<not> is_pending r then ret None
          else api_do e (Update (KRecord (clear_pending r)))) }"

definition finishCreation :: "nat \<Rightarrow> env \<Rightarrow> source \<Rightarrow> string \<Rightarrow> string \<Rightarrow> string \<Rightarrow> gerr option io" where
  "finishCreation k e c ns name phase = do {
     r \<leftarrow> retry_on_conflict k (finish_status_attempt e c ns name phase);
     (case r of
        Some er \<Rightarrow> ret (Some er)
      | None \<Rightarrow> retry_on_conflict k (finish_annotation_attempt e c ns name)) }"

definition Confirm :: "nat \<Rightarrow> env \<Rightarrow> source \<Rightarrow> string \<Rightarrow> string \<Rightarrow> gerr option io" where
  "Confirm k e c ns name = finishCreation k e c ns name PhaseCreated"

definition Fail :: "nat \<Rightarrow> env \<Rightarrow> source \<Rightarrow> string \<Rightarrow> string \<Rightarrow> gerr option io" where
  "Fail k e c ns name = finishCreation k e c ns name PhaseFailed"

definition DefinitiveCreateError :: "gerr \<Rightarrow> bool" where
  "DefinitiveCreateError er \<longleftrightarrow> reason_of er \<in> {Some Invalid, Some BadRequest, Some Forbidden,
     Some Unauthorized, Some NotFound, Some MethodNotSupported, Some RequestEntityTooLarge}"

section \<open>Recovery of pending records\<close>

definition pendingRunGrace :: duration where "pendingRunGrace = 2 * minute"

definition AgenticNamespace :: string where "AgenticNamespace = ''openshift-lightspeed''"

definition run_matches :: "ulib \<Rightarrow> unstr \<Rightarrow> telcoHealthCheckRun \<Rightarrow> bool" where
  "run_matches L run r \<longleftrightarrow>
     (case nested_string L (u_fields run) [''spec'', ''targetCluster''] of (cluster, _, err) \<Rightarrow>
        \<not> (err \<or> cluster \<noteq> rr_clusterName (rec_status r)
           \<or> sget (om_labels r) RunKeyLabel \<noteq> Key cluster (om_name run)
           \<or> sget (om_labels run) ManagedByLabel \<noteq> ManagedByValue))"

text \<open>One record of the loop; the result says whether it counts as pending.\<close>

definition recover_one :: "nat \<Rightarrow> ulib \<Rightarrow> env \<Rightarrow> string \<Rightarrow> telcoHealthCheckRun \<Rightarrow> bool io" where
  "recover_one k L e ns r =
     (if \<not> is_pending r \<or> sget (om_annotations r) HubOriginAnnotation \<noteq> ''true'' then ret False
      else (case om_creation r of
          None \<Rightarrow> ret True
        | Some created \<Rightarrow> do {
            t \<leftarrow> now e;
            if time_sub t created < pendingRunGrace then ret True
            else if rr_clusterName (rec_status r) = '''' \<or> rr_agenticRunName (rec_status r) = '''' then do {
              _ \<leftarrow> api_do e (Delete (KRecord r));
              ret True }
            else do {
              g \<leftarrow> api_get as_unstr e Cached AgenticRunKind AgenticNamespace (rr_agenticRunName (rec_status r));
              (case g of
                 Inl er \<Rightarrow> if isNotFound er then do { _ \<leftarrow> Fail k e Cached ns (om_name r); ret True }
                           else ret True
               | Inr run \<Rightarrow> if run_matches L run r
                            then do { _ \<leftarrow> Confirm k e Cached ns (om_name r); ret True }
                            else ret True) } }))"

fun recover_loop :: "nat \<Rightarrow> ulib \<Rightarrow> env \<Rightarrow> string \<Rightarrow> telcoHealthCheckRun list \<Rightarrow> bool \<Rightarrow> bool io" where
  "recover_loop k L e ns [] pending = ret pending"
| "recover_loop k L e ns (r # rs) pending = do {
     p \<leftarrow> recover_one k L e ns r;
     recover_loop k L e ns rs (pending \<or> p) }"

definition recoverPendingRuns :: "nat \<Rightarrow> ulib \<Rightarrow> env \<Rightarrow> string \<Rightarrow> (gerr + bool) io" where
  "recoverPendingRuns k L e ns = do {
     g \<leftarrow> api_list kRecord e Cached RecordKind ns [];
     (case g of
        Inl er \<Rightarrow> ret (Inl (Wrap ''listing run records for recovery'' er))
      | Inr rs \<Rightarrow> do { p \<leftarrow> recover_loop k L e ns rs False; ret (Inr p) }) }"

lemmas [io_run] = Begin_def Confirm_def Fail_def finishCreation_def finish_status_attempt_def
  finish_annotation_attempt_def recover_one_def recoverPendingRuns_def

section \<open>Keys\<close>

text \<open>The value range of a Kubernetes label: at most 63 characters from a safe alphabet.\<close>

definition hex_alphabet :: "char set" where
  "hex_alphabet = set ''0123456789abcdef''"

lemma hex_digit_alphabet: "n < 16 \<Longrightarrow> hex_digit n \<in> hex_alphabet"
proof -
  have "\<forall>n \<in> {0..<16}. hex_digit n \<in> hex_alphabet" by code_simp
  moreover assume "n < 16"
  ultimately show ?thesis by simp
qed

text \<open>
  Every run key is label-safe: 32 characters, all lower-case hexadecimal digits, whatever the
  cluster and run names are.
\<close>

theorem Key_label_safe:
  "length (Key clusterName runName) = 32 \<and> set (Key clusterName runName) \<subseteq> hex_alphabet"
  using set_hex_encode hex_digit_alphabet by (fastforce simp: Key_def)

section \<open>What Begin does\<close>

text \<open>
  The identity of the run is durable once both writes were acknowledged: the record exists with
  the pending and hub-origin annotations, and its status names run, cluster and trigger.
\<close>

definition identity_persisted ::
  "string \<Rightarrow> string \<Rightarrow> string \<Rightarrow> string \<Rightarrow> string \<Rightarrow> string \<Rightarrow> telcoHealthcheck \<Rightarrow> trace \<Rightarrow> bool" where
  "identity_persisted ns name runName clusterName triggeredBy trigger owner u \<longleftrightarrow>
     (\<exists>a b stored. u = [(Create (KRecord (pending_record ns name runName clusterName owner)), a),
                (StatusUpdate (KRecord (stored\<lparr>rec_status :=
                    pending_status runName clusterName triggeredBy trigger\<rparr>)), b)]
        \<and> as_stored_record (pending_record ns name runName clusterName owner) a = Inr stored
        \<and> ack b = None)"

lemma as_record_ack: "as_record b = Inr x \<Longrightarrow> ack b = None"
  by (induction b rule: as_record.induct) auto

lemma as_stored_record_ack: "as_stored_record r b = Inr x \<Longrightarrow> ack b = None"
  by (cases b) (auto simp: as_stored_record_def dest: as_record_ack)

lemma Begin_spec:
  "spec (Begin e ns name runName clusterName triggeredBy trigger owner)
     (\<lambda>x u. (\<forall>r. x = Inr r \<longrightarrow> om_uid owner \<noteq> [] \<and>
                identity_persisted ns name runName clusterName triggeredBy trigger owner u)
          \<and> (\<forall>c \<in> fst ` set u. \<exists>r. c = Create (KRecord r) \<or> c = StatusUpdate (KRecord r)))"
  unfolding Begin_def
  by (intro io_spec) (auto simp: identity_persisted_def simp del: ack_def dest: as_stored_record_ack)

section \<open>Confirm and Fail write an outcome before they drop the annotation\<close>

definition record_phase :: "telcoHealthCheckRun \<Rightarrow> string option" where
  "record_phase r = map_option rs_phase (rr_agenticRunStatus (rec_status r))"

lemma record_phase_set_phase [simp]: "record_phase (set_phase ph r) = Some ph"
  by (simp add: record_phase_def set_phase_def)

text \<open>The outcome is on record: a read showed it, or a status write with the phase succeeded.\<close>

definition outcome_recorded :: "string \<Rightarrow> string \<Rightarrow> string \<Rightarrow> trace \<Rightarrow> bool" where
  "outcome_recorded ns name ph u \<longleftrightarrow>
     (\<exists>c r. (Get c RecordKind ns name, RObj (KRecord r)) \<in> set u \<and> (\<not> is_pending r \<or> outcome_known r))
   \<or> (\<exists>r a. (StatusUpdate (KRecord r), a) \<in> set u \<and> ack a = None \<and> record_phase r = Some ph)"

text \<open>Every status write changes only the phase of a record just read as pending and undecided.\<close>

definition status_writes_guarded :: "string \<Rightarrow> string \<Rightarrow> string \<Rightarrow> trace \<Rightarrow> bool" where
  "status_writes_guarded ns name ph u \<longleftrightarrow>
     (\<forall>r a. (StatusUpdate (KRecord r), a) \<in> set u \<longrightarrow>
        (\<exists>c r0. (Get c RecordKind ns name, RObj (KRecord r0)) \<in> set u \<and> r = set_phase ph r0
           \<and> is_pending r0 \<and> \<not> outcome_known r0))"

definition no_update :: "trace \<Rightarrow> bool" where
  "no_update u \<longleftrightarrow> (\<forall>x a. (Update x, a) \<notin> set u)"

lemma status_writes_guarded_append:
  "status_writes_guarded ns name ph u \<Longrightarrow> status_writes_guarded ns name ph v
   \<Longrightarrow> status_writes_guarded ns name ph (u @ v)"
  unfolding status_writes_guarded_def by (metis Un_iff set_append)

lemma outcome_recorded_append:
  "outcome_recorded ns name ph u \<or> outcome_recorded ns name ph v \<Longrightarrow> outcome_recorded ns name ph (u @ v)"
  unfolding outcome_recorded_def by (metis Un_iff set_append)

lemma finish_status_attempt_spec:
  "spec (finish_status_attempt e c ns name ph)
     (\<lambda>x u. status_writes_guarded ns name ph u \<and> no_update u
           \<and> (x = None \<longrightarrow> outcome_recorded ns name ph u))"
  unfolding finish_status_attempt_def
  by (intro io_spec) (auto simp: status_writes_guarded_def no_update_def outcome_recorded_def
      as_record_Inr simp del: ack_def)

lemma finish_status_spec:
  "spec (retry_on_conflict k (finish_status_attempt e c ns name ph))
     (\<lambda>x u. status_writes_guarded ns name ph u \<and> no_update u
           \<and> (x = None \<longrightarrow> outcome_recorded ns name ph u))"
  by (rule spec_retry [OF finish_status_attempt_spec])
    (auto intro: status_writes_guarded_append outcome_recorded_append simp: no_update_def)

text \<open>The second stage writes nothing but the record without its annotation.\<close>

definition only_clears :: "string \<Rightarrow> string \<Rightarrow> call \<Rightarrow> bool" where
  "only_clears ns name c \<longleftrightarrow> (\<exists>s. c = Get s RecordKind ns name)
     \<or> (\<exists>r. c = Update (KRecord (clear_pending r)) \<and> is_pending r)"

lemma finish_annotation_emits:
  "emits (only_clears ns name) (retry_on_conflict k (finish_annotation_attempt e c ns name))"
  unfolding finish_annotation_attempt_def
  by (intro io_emits) (auto simp: only_clears_def)

text \<open>
  \<open>settles ns name ph u\<close>: in the calls \<open>u\<close>, status writes are guarded, annotation writes only
  clear it, and each of them comes after calls that put an outcome on record.
\<close>

definition settles :: "string \<Rightarrow> string \<Rightarrow> string \<Rightarrow> trace \<Rightarrow> bool" where
  "settles ns name ph u \<longleftrightarrow> status_writes_guarded ns name ph u
     \<and> (\<forall>v x a w. u = v @ (Update x, a) # w \<longrightarrow>
          (\<exists>r. x = KRecord (clear_pending r) \<and> is_pending r) \<and> outcome_recorded ns name ph v)"

lemma settles_no_update: "status_writes_guarded ns name ph u \<Longrightarrow> no_update u \<Longrightarrow> settles ns name ph u"
  unfolding settles_def no_update_def by (metis in_set_conv_decomp)

lemma outcome_recorded_mono: "outcome_recorded ns name ph u \<Longrightarrow> outcome_recorded ns name ph (u @ v)"
  by (rule outcome_recorded_append) simp

lemma append_eq_append_ConsE:
  assumes "u @ v = p @ x # s"
  obtains (left) q where "u = p @ x # q" "s = q @ v"
    | (right) q where "p = u @ q" "v = q @ x # s"
proof -
  from assms have "(\<exists>q. u = p @ q \<and> q @ v = x # s) \<or> (\<exists>q. p = u @ q \<and> v = q @ x # s)"
    by (auto simp: append_eq_append_conv2)
  then show thesis
  proof (elim disjE exE conjE)
    fix q assume "u = p @ q" "q @ v = x # s"
    then show thesis using that by (cases q) (auto intro: that(2) [of "[]"])
  next
    fix q assume "p = u @ q" "v = q @ x # s"
    then show thesis by (rule that(2))
  qed
qed

lemma settles_append:
  assumes u: "status_writes_guarded ns name ph u" "no_update u" "outcome_recorded ns name ph u"
    and v: "\<forall>ev \<in> set v. only_clears ns name (fst ev)"
  shows "settles ns name ph (u @ v)"
  unfolding settles_def
proof (intro conjI allI impI)
  show "status_writes_guarded ns name ph (u @ v)"
    using u(1) v by (intro status_writes_guarded_append) (auto simp: status_writes_guarded_def only_clears_def)
next
  fix p x a w assume eq: "u @ v = p @ (Update x, a) # w"
  then have "(Update x, a) \<in> set v" using u(2) by (metis Un_iff in_set_conv_decomp no_update_def set_append)
  then show "\<exists>r. x = KRecord (clear_pending r) \<and> is_pending r"
    using v by (fastforce simp: only_clears_def)
  from eq show "outcome_recorded ns name ph p"
  proof (cases rule: append_eq_append_ConsE)
    case (left q)
    then show ?thesis using u(2) by (auto simp: no_update_def)
  next
    case (right q)
    then show ?thesis using u(3) by (simp add: outcome_recorded_mono)
  qed
qed

lemma finishCreation_spec: "spec (finishCreation k e c ns name ph) (\<lambda>_ u. settles ns name ph u)"
  unfolding finishCreation_def
proof (rule spec_bind, rule spec_conseq [OF finish_status_spec])
  fix r :: "gerr option" and u :: trace assume u: "status_writes_guarded ns name ph u \<and> no_update u
    \<and> (r = None \<longrightarrow> outcome_recorded ns name ph u)"
  show "spec (case r of Some er \<Rightarrow> ret (Some er)
      | None \<Rightarrow> retry_on_conflict k (finish_annotation_attempt e c ns name))
    (\<lambda>_ v. settles ns name ph (u @ v))"
  proof (cases r)
    case None
    then show ?thesis
      using u by (auto intro!: spec_of_emits [OF finish_annotation_emits] intro: settles_append)
  next
    case (Some er)
    then show ?thesis using u by (auto intro!: spec_ret intro: settles_no_update)
  qed
qed

text \<open>
  C21. Whatever the API server answers, confirming or failing a record (1) overwrites a status only
  if it just read the record as pending with no AgenticRun condition on it, changing nothing but the
  phase, and (2) removes the pending annotation only after the outcome is on record, so a crash
  between the two writes is recoverable.
\<close>

theorem finishCreation_settles:
  "\<exists>u. snd (run_state (finishCreation k e c ns name ph) t) = t @ u \<and> settles ns name ph u"
  using finishCreation_spec unfolding spec_def by blast

section \<open>Confirm and Fail come to an end\<close>

text \<open>The error that the caller of a method of the client sees.\<close>

definition answer_error :: "call \<times> resp \<Rightarrow> gerr option" where
  "answer_error ev = (case ev of (c, a) \<Rightarrow>
     (case c of Get _ _ _ _ \<Rightarrow> (case as_record a of Inl er \<Rightarrow> Some er | Inr r \<Rightarrow> None) | _ \<Rightarrow> ack a))"

definition conflicted :: "call \<times> resp \<Rightarrow> bool" where
  "conflicted ev \<longleftrightarrow> (case answer_error ev of None \<Rightarrow> False | Some er \<Rightarrow> reason_of er = Some Conflict)"

text \<open>The last call failed, and if with a conflict, then after all retries.\<close>

definition given_up :: "nat \<Rightarrow> trace \<Rightarrow> bool" where
  "given_up k u \<longleftrightarrow> u \<noteq> [] \<and> (\<exists>er. answer_error (last u) = Some er
     \<and> (reason_of er = Some Conflict \<longrightarrow> k < length (filter conflicted u)))"

definition annotation_dropped :: "string \<Rightarrow> string \<Rightarrow> trace \<Rightarrow> bool" where
  "annotation_dropped ns name u \<longleftrightarrow>
     (\<exists>c r. (Get c RecordKind ns name, RObj (KRecord r)) \<in> set u \<and> \<not> is_pending r)
   \<or> (\<exists>r a. (Update (KRecord (clear_pending r)), a) \<in> set u \<and> ack a = None)"

text \<open>The record was settled, or the API server refused it.\<close>

definition settled_or_refused :: "nat \<Rightarrow> string \<Rightarrow> string \<Rightarrow> string \<Rightarrow> trace \<Rightarrow> bool" where
  "settled_or_refused k ns name ph u \<longleftrightarrow>
     outcome_recorded ns name ph u \<and> annotation_dropped ns name u \<or> given_up k u"

lemma annotation_dropped_append:
  "annotation_dropped ns name u \<or> annotation_dropped ns name v \<Longrightarrow> annotation_dropped ns name (u @ v)"
  unfolding annotation_dropped_def by (metis Un_iff set_append)

lemma given_up_append: "given_up k v \<Longrightarrow> given_up k (u @ v)"
  by (auto simp: given_up_def)

lemma retry_given_up:
  assumes "spec f (\<lambda>x u. case x of None \<Rightarrow> Q u | Some er \<Rightarrow> u \<noteq> [] \<and> answer_error (last u) = Some er)"
    and "\<And>u v. Q v \<Longrightarrow> Q (u @ v)"
  shows "spec (retry_on_conflict k f) (\<lambda>x u. case x of None \<Rightarrow> Q u | Some er \<Rightarrow> given_up k u)"
proof (induction k)
  case 0
  have "given_up 0 u" if "u \<noteq> []" "answer_error (last u) = Some er" for u er
    using that append_butlast_last_id [OF that(1)]
    by (auto simp: given_up_def conflicted_def filter_empty_conv intro!: bexI [of _ "last u"])
  then show ?case using assms(1) by (auto elim!: spec_conseq split: option.splits)
next
  case (Suc k)
  have last: "given_up (Suc k) u" if "u \<noteq> []" "answer_error (last u) = Some er" "reason_of er \<noteq> Some Conflict" for u er
    using that by (auto simp: given_up_def)
  have again: "given_up (Suc k) (u @ v)"
    if "u \<noteq> []" "answer_error (last u) = Some er" "reason_of er = Some Conflict" "given_up k v" for u v er
  proof -
    have "conflicted (last u)" using that by (simp add: conflicted_def)
    then have "filter conflicted u \<noteq> []"
      using that(1) by (auto simp: filter_empty_conv intro!: bexI [of _ "last u"])
    then obtain n where "length (filter conflicted u) = Suc n" by (cases "length (filter conflicted u)") simp_all
    then show ?thesis using that(4) by (auto simp: given_up_def)
  qed
  have "spec (case r of Some er \<Rightarrow> if reason_of er = Some Conflict then retry_on_conflict k f else ret r
        | None \<Rightarrow> ret None) (\<lambda>y v. case y of None \<Rightarrow> Q (u @ v) | Some er \<Rightarrow> given_up (Suc k) (u @ v))"
    if "case r of None \<Rightarrow> Q u | Some er \<Rightarrow> u \<noteq> [] \<and> answer_error (last u) = Some er" for r u
    using that last again assms(2)
    by (auto intro!: io_spec spec_conseq [OF Suc] split: option.splits)
  then show ?case using assms(1) by (auto intro!: spec_bind intro: spec_conseq)
qed

lemma finish_status_end:
  "spec (retry_on_conflict k (finish_status_attempt e c ns name ph))
     (\<lambda>x u. case x of None \<Rightarrow> outcome_recorded ns name ph u | Some er \<Rightarrow> given_up k u)"
proof (rule retry_given_up)
  show "spec (finish_status_attempt e c ns name ph) (\<lambda>x u. case x of None \<Rightarrow> outcome_recorded ns name ph u
      | Some er \<Rightarrow> u \<noteq> [] \<and> answer_error (last u) = Some er)"
    unfolding finish_status_attempt_def
    by (intro io_spec) (auto simp: outcome_recorded_def answer_error_def as_record_Inr simp del: ack_def split: option.splits)
qed (simp add: outcome_recorded_append)

lemma finish_annotation_end:
  "spec (retry_on_conflict k (finish_annotation_attempt e c ns name))
     (\<lambda>x u. case x of None \<Rightarrow> annotation_dropped ns name u | Some er \<Rightarrow> given_up k u)"
proof (rule retry_given_up)
  show "spec (finish_annotation_attempt e c ns name) (\<lambda>x u. case x of None \<Rightarrow> annotation_dropped ns name u
      | Some er \<Rightarrow> u \<noteq> [] \<and> answer_error (last u) = Some er)"
    unfolding finish_annotation_attempt_def
    by (intro io_spec) (auto simp: annotation_dropped_def answer_error_def as_record_Inr simp del: ack_def split: option.splits)
qed (simp add: annotation_dropped_append)

lemma finishCreation_end: "spec (finishCreation k e c ns name ph) (\<lambda>_ u. settled_or_refused k ns name ph u)"
  unfolding finishCreation_def settled_or_refused_def
proof (rule spec_bind, rule spec_conseq [OF finish_status_end])
  fix r :: "gerr option" and u :: trace
  assume u: "case r of None \<Rightarrow> outcome_recorded ns name ph u | Some er \<Rightarrow> given_up k u"
  show "spec (case r of Some er \<Rightarrow> ret (Some er) | None \<Rightarrow> retry_on_conflict k (finish_annotation_attempt e c ns name))
      (\<lambda>_ v. outcome_recorded ns name ph (u @ v) \<and> annotation_dropped ns name (u @ v) \<or> given_up k (u @ v))"
    using u by (auto intro!: spec_ret spec_conseq [OF finish_annotation_end]
        intro: outcome_recorded_append annotation_dropped_append given_up_append split: option.splits)
qed

section \<open>Recovery\<close>

text \<open>Calls recovery may make for one record: it never creates anything.\<close>

definition recovery_call :: "telcoHealthCheckRun \<Rightarrow> call \<Rightarrow> bool" where
  "recovery_call r c \<longleftrightarrow> (case c of
       Get _ k _ _ \<Rightarrow> k \<in> {RecordKind, AgenticRunKind}
     | Now \<Rightarrow> True
     | StatusUpdate x \<Rightarrow> (\<exists>q. x = KRecord q)
     | Update x \<Rightarrow> (\<exists>q. x = KRecord q)
     | Delete x \<Rightarrow> x = KRecord r \<and> (rr_clusterName (rec_status r) = [] \<or> rr_agenticRunName (rec_status r) = [])
     | _ \<Rightarrow> False)"

lemma finishCreation_recovery_call: "emits (recovery_call r) (finishCreation k e c ns name ph)"
  unfolding finishCreation_def finish_status_attempt_def finish_annotation_attempt_def
  by (intro io_emits) (auto simp: recovery_call_def)

lemma recover_one_calls: "emits (recovery_call r) (recover_one k L e ns r)"
  unfolding recover_one_def Confirm_def Fail_def
  by (intro io_emits finishCreation_recovery_call) (auto simp: recovery_call_def)

definition counts_as_pending :: "telcoHealthCheckRun \<Rightarrow> bool" where
  "counts_as_pending r \<longleftrightarrow> is_pending r \<and> sget (om_annotations r) HubOriginAnnotation = ''true''"

lemma spec_True: "spec m (\<lambda>_ u. Q u) \<Longrightarrow> spec m (\<lambda>_ _. True)"
  by (erule spec_conseq) simp

lemma finishCreation_any: "spec (finishCreation k e c ns name ph) (\<lambda>_ _. True)"
  using finishCreation_spec by (rule spec_True)

lemma recover_one_result: "spec (recover_one k L e ns r) (\<lambda>x _. x = counts_as_pending r)"
  unfolding recover_one_def Confirm_def Fail_def
  by (intro io_spec spec_conseq [OF finishCreation_any]) (auto simp: counts_as_pending_def)

lemma recover_loop_result:
  "spec (recover_loop k L e ns rs p) (\<lambda>x _. x \<longleftrightarrow> p \<or> (\<exists>r \<in> set rs. counts_as_pending r))"
proof (induction rs arbitrary: p)
  case Nil
  show ?case by (auto intro!: io_spec)
next
  case (Cons r rs)
  show ?case
    by (auto intro!: spec_bind spec_conseq [OF recover_one_result] spec_conseq [OF Cons.IH])
qed

lemma recover_loop_calls:
  "emits (\<lambda>c. \<exists>r \<in> set rs. recovery_call r c) (recover_loop k L e ns rs p)"
proof (induction rs arbitrary: p)
  case Nil
  show ?case by (simp add: io_emits)
next
  case (Cons r rs)
  show ?case
    by (auto intro!: emits_bind intro: emits_mono [OF recover_one_calls] emits_mono [OF Cons.IH])
qed

definition recovery_calls :: "telcoHealthCheckRun list \<Rightarrow> trace \<Rightarrow> bool" where
  "recovery_calls rs u \<longleftrightarrow> (\<forall>ev \<in> set u. \<exists>r \<in> set rs. recovery_call r (fst ev))"

text \<open>
  Recovery reports pending work exactly if some listed record is pending and hub-originated,
  and it only reads, marks and cleans records: it never creates an AgenticRun or a record, and it
  deletes a record only if that record's identity is incomplete.
\<close>

theorem recoverPendingRuns_calls:
  "\<exists>u rs. snd (run_state (recoverPendingRuns k L e ns) t)
          = t @ (ListObjs Cached RecordKind ns [], e t (ListObjs Cached RecordKind ns [])) # u
     \<and> recovery_calls rs u
     \<and> (case fst (run_state (recoverPendingRuns k L e ns) t) of
          Inl er \<Rightarrow> u = [] \<and> rs = []
        | Inr p \<Rightarrow> list_of kRecord (e t (ListObjs Cached RecordKind ns [])) = Inr rs
                   \<and> (p \<longleftrightarrow> (\<exists>r \<in> set rs. counts_as_pending r)))"
proof -
  let ?t = "t @ [(ListObjs Cached RecordKind ns [], e t (ListObjs Cached RecordKind ns []))]"
  show ?thesis
  proof (cases "list_of kRecord (e t (ListObjs Cached RecordKind ns []))")
    case (Inl er)
    then show ?thesis
      by (intro exI [of _ "[]"]) (simp add: recoverPendingRuns_def api_list_def recovery_calls_def del: list_of_def)
  next
    case (Inr rs)
    have "spec (recover_loop k L e ns rs False) (\<lambda>x u.
        (\<forall>ev \<in> set u. \<exists>r \<in> set rs. recovery_call r (fst ev)) \<and> (x \<longleftrightarrow> False \<or> (\<exists>r \<in> set rs. counts_as_pending r)))"
      by (rule spec_conj [OF recover_loop_calls [unfolded emits_def] recover_loop_result])
    then obtain u where
      u: "snd (run_state (recover_loop k L e ns rs False) ?t) = ?t @ u"
         "\<forall>ev \<in> set u. \<exists>r \<in> set rs. recovery_call r (fst ev)"
         "fst (run_state (recover_loop k L e ns rs False) ?t) \<longleftrightarrow> (\<exists>r \<in> set rs. counts_as_pending r)"
      by (rule specD [where t = ?t]) auto
    with Inr show ?thesis
      by (intro exI [of _ u] exI [of _ rs])
        (auto simp: recoverPendingRuns_def api_list_def recovery_calls_def split_beta simp del: list_of_def)
  qed
qed

text \<open>Why recovery may settle a record the way it does.\<close>

definition settled_with_reason :: "ulib \<Rightarrow> telcoHealthCheckRun \<Rightarrow> trace \<Rightarrow> bool" where
  "settled_with_reason L r u \<longleftrightarrow> (\<forall>q a. (StatusUpdate (KRecord q), a) \<in> set u \<longrightarrow>
     (\<exists>created t. om_creation r = Some created \<and> (Now, t) \<in> set u
        \<and> pendingRunGrace \<le> time_sub (as_time t) created)
   \<and> (\<exists>g. (Get Cached AgenticRunKind AgenticNamespace (rr_agenticRunName (rec_status r)), g) \<in> set u
        \<and> (record_phase q = Some PhaseFailed \<and> (\<exists>er. as_unstr g = Inl er \<and> isNotFound er)
         \<or> record_phase q = Some PhaseCreated \<and> (\<exists>run. as_unstr g = Inr run \<and> run_matches L run r))))"

definition phase_writes :: "string \<Rightarrow> trace \<Rightarrow> bool" where
  "phase_writes ph u \<longleftrightarrow> (\<forall>q a. (StatusUpdate (KRecord q), a) \<in> set u \<longrightarrow> record_phase q = Some ph)"

lemma finishCreation_phase_writes: "spec (finishCreation k e c ns name ph) (\<lambda>_ u. phase_writes ph u)"
  by (rule spec_conseq [OF finishCreation_spec])
    (fastforce simp: settles_def status_writes_guarded_def phase_writes_def)

lemma recover_one_reason: "spec (recover_one k L e ns r) (\<lambda>_ u. settled_with_reason L r u)"
  unfolding recover_one_def Confirm_def Fail_def
  by (intro io_spec spec_conseq [OF finishCreation_phase_writes])
    (fastforce simp: settled_with_reason_def phase_writes_def simp del: as_time_def)+

text \<open>
  C22. Recovery never guesses an outcome: it marks a record Failed only after the grace period and
  after the API server said that the AgenticRun does not exist, and Created only after it read an
  AgenticRun whose target cluster, run key and owner label match the record.
\<close>

theorem recover_one_justified:
  "\<exists>u. snd (run_state (recover_one k L e ns r) t) = t @ u \<and> settled_with_reason L r u"
  using recover_one_reason unfolding spec_def by blast

end
