(* ===== verification/Nested_Fields.thy ===== *)
theory Nested_Fields
  imports Api_Types
begin

text \<open>
  The interface of the untyped objects: what the operator relies on from the nested-field helpers
  of \<open>k8s.io/apimachinery\<close> (\<open>unstructured.NestedString\<close>, \<open>NestedSlice\<close>, \<open>SetNestedField\<close>,
  \<open>SetNestedSlice\<close>). The helpers themselves are the parameter \<^typ>\<open>ulib\<close> of the model; the
  locale states their documented laws, and \<open>tree_ulib\<close> is an instance that walks the tree of
  values the way the documentation says.
\<close>

section \<open>The laws\<close>

text \<open>Paths that name different fields: neither runs through the other.\<close>

definition disjoint_paths :: "string list \<Rightarrow> string list \<Rightarrow> bool" where
  "disjoint_paths p q \<longleftrightarrow> take (length q) p \<noteq> q \<and> take (length p) q \<noteq> p"

locale nested_fields =
  fixes L :: ulib
  assumes get_set_string: "set_nested L f (UStr s) p = Inr f' \<Longrightarrow> nested_string L f' p = (s, True, False)"
    and get_set_slice: "set_nested L f (USlice xs) p = Inr f' \<Longrightarrow> nested_slice L f' p = (xs, True, False)"
    and get_string_other: "set_nested L f v p = Inr f' \<Longrightarrow> disjoint_paths p q
      \<Longrightarrow> nested_string L f' q = nested_string L f q"
    and get_slice_other: "set_nested L f v p = Inr f' \<Longrightarrow> disjoint_paths p q
      \<Longrightarrow> nested_slice L f' q = nested_slice L f q"

section \<open>The instance that walks the tree\<close>

fun walk :: "uval \<Rightarrow> string list \<Rightarrow> uval option \<times> bool" where
  "walk v [] = (Some v, False)"
| "walk UNull (k # ks) = (None, False)"
| "walk (UMap m) (k # ks) = (case m k of None \<Rightarrow> (None, False) | Some w \<Rightarrow> walk w ks)"
| "walk v (k # ks) = (None, True)"

definition tree_string :: "ufields \<Rightarrow> string list \<Rightarrow> string \<times> bool \<times> bool" where
  "tree_string f p = (case walk (UMap f) p of
      (Some (UStr s), _) \<Rightarrow> (s, True, False)
    | (Some _, _) \<Rightarrow> ('''', False, True)
    | (None, err) \<Rightarrow> ('''', False, err))"

definition tree_slice :: "ufields \<Rightarrow> string list \<Rightarrow> uval list \<times> bool \<times> bool" where
  "tree_slice f p = (case walk (UMap f) p of
      (Some (USlice xs), _) \<Rightarrow> (xs, True, False)
    | (Some _, _) \<Rightarrow> ([], False, True)
    | (None, err) \<Rightarrow> ([], False, err))"

definition tree_string_map :: "ufields \<Rightarrow> string list \<Rightarrow> smap" where
  "tree_string_map f p = (case walk (UMap f) p of
      (Some (UMap m), _) \<Rightarrow> (\<lambda>k. as_string (m k))
    | _ \<Rightarrow> Map.empty)"

fun tree_set :: "ufields \<Rightarrow> uval \<Rightarrow> string list \<Rightarrow> string + ufields" where
  "tree_set m v [] = Inl ''no path''"
| "tree_set m v [k] = Inr (m(k \<mapsto> v))"
| "tree_set m v (k # k' # ks) =
     (case m k of
        None \<Rightarrow> (case tree_set Map.empty v (k' # ks) of Inl er \<Rightarrow> Inl er | Inr n \<Rightarrow> Inr (m(k \<mapsto> UMap n)))
      | Some (UMap n) \<Rightarrow> (case tree_set n v (k' # ks) of Inl er \<Rightarrow> Inl er | Inr n' \<Rightarrow> Inr (m(k \<mapsto> UMap n')))
      | Some _ \<Rightarrow> Inl ''value cannot be set because a level is not a map'')"

definition tree_ulib :: ulib where
  "tree_ulib = \<lparr>nested_string = tree_string, nested_slice = tree_slice,
     nested_string_map = tree_string_map, set_nested = tree_set\<rparr>"

lemma walk_set_same: "tree_set m v p = Inr m' \<Longrightarrow> walk (UMap m') p = (Some v, False)"
  by (induction m v p arbitrary: m' rule: tree_set.induct)
    (auto split: option.splits sum.splits uval.splits)

lemma walk_set_empty_other:
  "tree_set Map.empty v p = Inr m' \<Longrightarrow> disjoint_paths p q \<Longrightarrow> walk (UMap m') q = (None, False)"
proof (induction "Map.empty :: ufields" v p arbitrary: m' q rule: tree_set.induct)
  case (1 v)
  then show ?case by simp
next
  case (2 v k)
  then show ?case by (cases q) (auto simp: disjoint_paths_def split: if_splits)
next
  case (3 v k k' ks)
  then show ?case by (cases q) (auto simp: disjoint_paths_def split: sum.splits)
qed

lemma walk_set_other:
  "tree_set m v p = Inr m' \<Longrightarrow> disjoint_paths p q \<Longrightarrow> walk (UMap m') q = walk (UMap m) q"
proof (induction m v p arbitrary: m' q rule: tree_set.induct)
  case (1 m v)
  then show ?case by simp
next
  case (2 m v k)
  then show ?case by (cases q) (auto simp: disjoint_paths_def split: if_splits)
next
  case (3 m v k k' ks)
  show ?case
  proof (cases q)
    case Nil
    with 3 show ?thesis by (simp add: disjoint_paths_def)
  next
    case (Cons l ls)
    show ?thesis
    proof (cases "l = k")
      case True
      with 3 Cons show ?thesis
        by (auto simp: disjoint_paths_def walk_set_empty_other split: option.splits sum.splits uval.splits)
    next
      case False
      with 3 Cons show ?thesis by (auto split: option.splits sum.splits uval.splits)
    qed
  qed
qed

interpretation tree: nested_fields tree_ulib
  by unfold_locales
    (auto simp: tree_ulib_def tree_string_def tree_slice_def walk_set_same walk_set_other)

end
