(* ===== verification/Hub_Run_Status.thy ===== *)
theory Hub_Run_Status
  imports Run_Record Nested_Fields
begin

text \<open>
  \<open>internal/controller/hubrunstatus.go\<close>: the status of a hub AgenticRun and of its latest
  AnalysisResult is copied into the audit record (\<open>syncHubRunStatus\<close>), and a change of the
  required action appends to the queue of notifications that the record carries
  (\<open>queueActionAlert\<close>). The parser of RFC 3339 timestamps is the parameter \<open>T\<close>.
\<close>

section \<open>Reading a run and its result\<close>

definition zero_time :: instant where
  "zero_time = - 62135596800 * second"  \<comment> \<open>\<open>time.Time{}\<close>: 1 January of year 1, from the Unix epoch\<close>

text \<open>One condition of the loop, on the newest time seen and the pair to return.\<close>

definition condition_step ::
  "(string \<Rightarrow> instant option) \<Rightarrow> uval \<Rightarrow> instant \<times> string \<times> string \<Rightarrow> instant \<times> string \<times> string" where
  "condition_step T item acc =
     (case as_map (Some item) of
        None \<Rightarrow> acc
      | Some condition \<Rightarrow>
          (let stamp = (case as_string (condition ''lastTransitionTime'') of Some s \<Rightarrow> s | None \<Rightarrow> '''') in
           case T stamp of
             None \<Rightarrow> acc
           | Some w \<Rightarrow>
               if \<not> w < fst acc then
                 (w, (case as_string (condition ''type'') of Some s \<Rightarrow> s | None \<Rightarrow> ''''),
                     (case as_string (condition ''reason'') of Some s \<Rightarrow> s | None \<Rightarrow> ''''))
               else acc))"

definition latestCondition :: "ulib \<Rightarrow> (string \<Rightarrow> instant option) \<Rightarrow> unstr \<Rightarrow> string \<times> string" where
  "latestCondition L T object =
     snd (fold (condition_step T) (fst (nested_slice L (u_fields object) [''status'', ''conditions'']))
            (zero_time, '''', ''''))"

definition resultActionRequired :: "ulib \<Rightarrow> unstr \<Rightarrow> string" where
  "resultActionRequired L result =
     (let v = fst (nested_string L (u_fields result) [''status'', ''actionRequired''])
      in if v = ''True'' \<or> v = ''False'' then v else '''')"

definition option_summary :: "ulib \<Rightarrow> ufields \<Rightarrow> string" where
  "option_summary L option =
     (let s = fst (nested_string L option [''diagnosis'', ''summary''])
      in if s = '''' then fst (nested_string L option [''summary'']) else s)"

text \<open>The loop over the options stops at the first one with a summary.\<close>

fun options_summary :: "ulib \<Rightarrow> uval list \<Rightarrow> string" where
  "options_summary L [] = ''''"
| "options_summary L (item # items) =
     (case as_map (Some item) of
        None \<Rightarrow> options_summary L items
      | Some option \<Rightarrow>
          (let s = option_summary L option in if s \<noteq> '''' then s else options_summary L items))"

definition extractResultSummary :: "ulib \<Rightarrow> unstr \<Rightarrow> string" where
  "extractResultSummary L result =
     (let s0 = fst (nested_string L (u_fields result) [''status'', ''diagnosis'', ''summary'']);
          s1 = (if s0 = '''' then options_summary L
                  (fst (nested_slice L (u_fields result) [''status'', ''options'']))
                else s0)
      in if s1 = '''' then fst (nested_string L (u_fields result) [''status'', ''failureReason'']) else s1)"

section \<open>The queue of notifications\<close>

definition status_summary :: "telcoHealthCheckRunStatus \<Rightarrow> string" where
  "status_summary st = (case rr_agenticRunStatus st of None \<Rightarrow> '''' | Some s \<Rightarrow> rs_summary s)"

definition notify_firing :: "instant \<Rightarrow> telcoHealthCheckRunStatus \<Rightarrow> telcoHealthCheckRunStatus" where
  "notify_firing t st = st\<lparr>rr_alertStartsAt := Some t, rr_lastAlertSentTime := None,
     rr_notifications := rr_notifications st @
       [\<lparr>an_firing = True, an_startsAt = t, an_endsAt = None, an_summary = status_summary st\<rparr>]\<rparr>"

definition notify_resolved :: "instant \<Rightarrow> telcoHealthCheckRunStatus \<Rightarrow> telcoHealthCheckRunStatus" where
  "notify_resolved t st =
     (let startsAt = (case rr_alertStartsAt st of None \<Rightarrow> t | Some s \<Rightarrow> s);
          endsAt = (if startsAt < t then t else startsAt + second)
      in st\<lparr>rr_alertStartsAt := None, rr_lastAlertSentTime := None,
           rr_notifications := rr_notifications st @
             [\<lparr>an_firing = False, an_startsAt = startsAt, an_endsAt = Some endsAt,
               an_summary = status_summary st\<rparr>]\<rparr>)"

definition queue_at :: "instant \<Rightarrow> string \<Rightarrow> telcoHealthCheckRunStatus \<Rightarrow> telcoHealthCheckRunStatus" where
  "queue_at t oldAction st =
     (if rr_actionRequired st = ''True'' then notify_firing t st
      else if oldAction = ''True'' then notify_resolved t st
      else st)"

definition queueActionAlert ::
  "env \<Rightarrow> telcoHealthCheckRunStatus \<Rightarrow> telcoHealthCheckRunStatus \<Rightarrow> telcoHealthCheckRunStatus io" where
  "queueActionAlert e st previous =
     (if rr_actionRequired previous = rr_actionRequired st then ret st
      else do {
        t \<leftarrow> now e;
        ret (queue_at (truncate_second t) (rr_actionRequired previous) st) })"

section \<open>Synchronising a record\<close>

text \<open>Only a hub-originated record with a complete identity is synchronised.\<close>

definition syncable :: "telcoHealthCheckRun \<Rightarrow> bool" where
  "syncable r \<longleftrightarrow> sget (om_annotations r) HubOriginAnnotation = ''true''
     \<and> rr_agenticRunName (rec_status r) \<noteq> '''' \<and> rr_clusterName (rec_status r) \<noteq> ''''"

definition owned_by :: "unstr \<Rightarrow> unstr \<Rightarrow> bool" where
  "owned_by run result \<longleftrightarrow> list_ex (\<lambda>ref. or_kind ref = ''AgenticRun'' \<and> or_uid ref = om_uid run) (om_owners result)"

text \<open>Summary and action of the last result the run refers to, or nothing when it has none.\<close>

definition latest_result :: "ulib \<Rightarrow> env \<Rightarrow> unstr \<Rightarrow> (gerr + string \<times> string) io" where
  "latest_result L e run =
     (case nested_slice L (u_fields run) [''status'', ''steps'', ''analysis'', ''results''] of (refs, _, err) \<Rightarrow>
        if err then ret (Inl (Wrap ''reading analysis result references'' (Msg ''not a slice'')))
        else if refs = [] then ret (Inr ('''', ''''))
        else (case as_map (Some (last refs)) of
           None \<Rightarrow> ret (Inl (Msg (''invalid latest analysis result reference on '' @ om_name run)))
         | Some ref \<Rightarrow>
             (let resultName = (case as_string (ref ''name'') of Some s \<Rightarrow> s | None \<Rightarrow> '''') in
              if resultName = '''' then ret (Inl (Msg (''missing latest analysis result name on '' @ om_name run)))
              else do {
                g \<leftarrow> api_get as_unstr e Live AnalysisResultKind AgenticNamespace resultName;
                ret (case g of
                   Inl er \<Rightarrow> Inl (Wrap (''reading latest AnalysisResult '' @ resultName) er)
                 | Inr result \<Rightarrow>
                     (case nested_string L (u_fields result) [''spec'', ''agenticRunName''] of (parent, _, err) \<Rightarrow>
                        if err \<or> parent \<noteq> om_name run then
                          Inl (Msg (''AnalysisResult '' @ resultName @ '' has mismatched parent''))
                        else if om_uid run \<noteq> '''' \<and> \<not> owned_by run result then
                          Inl (Msg (''AnalysisResult '' @ resultName @ '' is not owned by hub run '' @ om_name run))
                        else Inr (extractResultSummary L result, resultActionRequired L result))) })))"

definition same_run :: "string \<Rightarrow> string \<Rightarrow> telcoHealthCheckRun \<Rightarrow> bool" where
  "same_run cluster runName r \<longleftrightarrow> sget (om_annotations r) HubOriginAnnotation = ''true''
     \<and> rr_clusterName (rec_status r) = cluster \<and> rr_agenticRunName (rec_status r) = runName
     \<and> sget (om_labels r) RunKeyLabel = Key cluster runName"

text \<open>The status with what was read entered into a status.\<close>

definition observe :: "string \<Rightarrow> string \<Rightarrow> string \<Rightarrow> string \<Rightarrow> telcoHealthCheckRunStatus \<Rightarrow> telcoHealthCheckRunStatus" where
  "observe conditionType phase summary action st0 =
     (let s0 = (case rr_agenticRunStatus st0 of None \<Rightarrow> zero_agenticRunStatus | Some s \<Rightarrow> s);
          s1 = (if conditionType \<noteq> '''' then s0\<lparr>rs_type := conditionType, rs_phase := phase\<rparr> else s0);
          act = (if conditionType = '''' then rr_actionRequired st0
                 else if conditionType \<noteq> ''Analyzed'' then ''False'' else action);
          s2 = (if summary \<noteq> '''' then s1\<lparr>rs_summary := summary\<rparr> else s1)
      in st0\<lparr>rr_agenticRunStatus := Some s2, rr_actionRequired := act\<rparr>)"

definition sync_attempt ::
  "env \<Rightarrow> string \<Rightarrow> string \<Rightarrow> string \<Rightarrow> string \<Rightarrow> string \<Rightarrow> string \<Rightarrow> string \<Rightarrow> string \<Rightarrow> gerr option io" where
  "sync_attempt e ns name cluster runName conditionType phase summary action = do {
     g \<leftarrow> api_get as_record e Live RecordKind ns name;
     (case g of
        Inl er \<Rightarrow> ret (ignoreNotFound er)
      | Inr before \<Rightarrow>
          if \<not> same_run cluster runName before then ret None
          else (let st = observe conditionType phase summary action (rec_status before) in
            if st = rec_status before then ret None
            else do {
              st' \<leftarrow> queueActionAlert e st (rec_status before);
              api_do e (StatusPatch (KRecord before) (KRecord (before\<lparr>rec_status := st'\<rparr>))) })) }"

definition syncHubRunStatus ::
  "nat \<Rightarrow> ulib \<Rightarrow> (string \<Rightarrow> instant option) \<Rightarrow> env \<Rightarrow> telcoHealthCheckRun \<Rightarrow> gerr option io" where
  "syncHubRunStatus k L T e record =
     (if \<not> syncable record then ret None
      else do {
        g \<leftarrow> api_get as_unstr e Live AgenticRunKind AgenticNamespace (rr_agenticRunName (rec_status record));
        (case g of
           Inl er \<Rightarrow> ret (ignoreNotFound er)
         | Inr run \<Rightarrow>
             if \<not> run_matches L run record then
               ret (Some (Msg (''hub AgenticRun '' @ AgenticNamespace @ ''/'' @ rr_agenticRunName (rec_status record)
                 @ '' does not match run record '' @ om_namespace record @ ''/'' @ om_name record)))
             else (case latestCondition L T run of (conditionType, phase) \<Rightarrow> do {
               res \<leftarrow> latest_result L e run;
               (case res of
                  Inl er \<Rightarrow> ret (Some er)
                | Inr sa \<Rightarrow> retry_on_conflict k
                    (sync_attempt e (om_namespace record) (om_name record)
                       (fst (nested_string L (u_fields run) [''spec'', ''targetCluster''])) (om_name run)
                       conditionType phase (fst sa) (snd sa))) })) })"

lemmas [io_run] = queueActionAlert_def latest_result_def sync_attempt_def syncHubRunStatus_def

section \<open>The latest condition\<close>

text \<open>The conditions with a readable time stamp, in order, with their type and reason.\<close>

definition text_field :: "ufields \<Rightarrow> string \<Rightarrow> string" where
  "text_field m k = (case as_string (m k) of Some s \<Rightarrow> s | None \<Rightarrow> '''')"

definition timed_condition :: "(string \<Rightarrow> instant option) \<Rightarrow> uval \<Rightarrow> (instant \<times> string \<times> string) option" where
  "timed_condition T item = (case as_map (Some item) of
       None \<Rightarrow> None
     | Some m \<Rightarrow> map_option (\<lambda>w. (w, text_field m ''type'', text_field m ''reason'')) (T (text_field m ''lastTransitionTime'')))"

definition timed_conditions :: "ulib \<Rightarrow> (string \<Rightarrow> instant option) \<Rightarrow> unstr \<Rightarrow> (instant \<times> string \<times> string) list" where
  "timed_conditions L T object =
     List.map_filter (timed_condition T) (fst (nested_slice L (u_fields object) [''status'', ''conditions'']))"

text \<open>\<open>x\<close> is the last of the newest elements: none is newer, and those after it are older.\<close>

definition newest_in :: "(instant \<times> 'a) list \<Rightarrow> instant \<times> 'a \<Rightarrow> bool" where
  "newest_in xs x \<longleftrightarrow> (\<exists>ys zs. xs = ys @ x # zs \<and> (\<forall>y \<in> set ys. fst y \<le> fst x) \<and> (\<forall>z \<in> set zs. fst z < fst x))"

definition none_from :: "instant \<Rightarrow> (instant \<times> 'a) list \<Rightarrow> bool" where
  "none_from t xs \<longleftrightarrow> (\<forall>x \<in> set xs. fst x < t)"

lemma condition_step_timed:
  "condition_step T item acc = (case timed_condition T item of None \<Rightarrow> acc
     | Some x \<Rightarrow> if fst x < fst acc then acc else x)"
  by (simp add: condition_step_def timed_condition_def text_field_def Let_def split: option.split)

lemma fold_condition_step:
  "fold (condition_step T) items acc
   = fold (\<lambda>x acc. if fst x < fst acc then acc else x) (List.map_filter (timed_condition T) items) acc"
  by (induction items arbitrary: acc) (auto simp: condition_step_timed List.map_filter_def split: option.split)

lemma newest_in_fold:
  "newest_in (acc # xs) (fold (\<lambda>x acc. if fst x < fst acc then acc else x) xs acc)"
proof (induction xs rule: rev_induct)
  case Nil
  show ?case unfolding newest_in_def by (intro exI [of _ "[]"]) simp
next
  case (snoc x xs)
  let ?m = "fold (\<lambda>x acc. if fst x < fst acc then acc else x) xs acc"
  obtain ys zs where *: "acc # xs = ys @ ?m # zs" "\<forall>y \<in> set ys. fst y \<le> fst ?m" "\<forall>z \<in> set zs. fst z < fst ?m"
    using snoc by (auto simp: newest_in_def)
  show ?case
  proof (cases "fst x < fst ?m")
    case True
    have "acc # xs @ [x] = ys @ ?m # (zs @ [x])" using *(1) by simp
    with True * show ?thesis unfolding newest_in_def by (intro exI [of _ ys] exI [of _ "zs @ [x]"]) auto
  next
    case False
    have "fst y \<le> fst ?m" if "y \<in> set (acc # xs)" for y
      using that *(2,3) unfolding *(1) by auto
    with False have "\<forall>y \<in> set (acc # xs). fst y \<le> fst x" by (meson dual_order.trans not_less)
    then show ?thesis
      using False unfolding newest_in_def by (intro exI [of _ "acc # xs"] exI [of _ "[]"]) auto
  qed
qed

text \<open>
  The condition copied into a record is the most recent one: among the conditions with a
  readable transition time it is the last of the newest, and without any (from year 1 on) type and
  phase are empty.
\<close>

theorem latestCondition_newest:
  "if none_from zero_time (timed_conditions L T object) then latestCondition L T object = ('''', '''')
   else (\<exists>w. newest_in (timed_conditions L T object) (w, latestCondition L T object))"
proof -
  let ?xs = "timed_conditions L T object"
  define m where "m = fold (\<lambda>x acc. if fst x < fst acc then acc else x) ?xs (zero_time, '''', '''')"
  have lc: "latestCondition L T object = snd m"
    by (simp add: latestCondition_def fold_condition_step timed_conditions_def m_def)
  obtain ys zs where *: "(zero_time, '''', '''') # ?xs = ys @ m # zs"
      "\<forall>y \<in> set ys. fst y \<le> fst m" "\<forall>z \<in> set zs. fst z < fst m"
    using newest_in_fold [of "(zero_time, '''', '''')" ?xs] by (auto simp: newest_in_def m_def)
  show ?thesis
  proof (cases ys)
    case Nil
    then have "m = (zero_time, '''', '''')" "?xs = zs" using * by auto
    with * lc show ?thesis by (auto simp: none_from_def)
  next
    case (Cons y ys')
    then have x: "?xs = ys' @ m # zs" "zero_time \<le> fst m" using * by auto
    then have "\<not> none_from zero_time ?xs" by (auto simp: none_from_def)
    moreover have "newest_in ?xs (fst m, snd m)" unfolding newest_in_def
      using x * Cons by (intro exI [of _ ys'] exI [of _ zs]) auto
    ultimately show ?thesis using lc by (simp del: prod.collapse) (intro exI [of _ "fst m"], simp)
  qed
qed

section \<open>Whose status is copied\<close>

definition run_identity :: "telcoHealthCheckRunStatus \<Rightarrow> string \<times> string \<times> string \<times> string" where
  "run_identity st = (rr_agenticRunName st, rr_clusterName st, rr_triggeredBy st, rr_trigger st)"

lemma run_identity_observe [simp]: "run_identity (observe ct ph su ac st) = run_identity st"
  by (simp add: run_identity_def observe_def Let_def)

lemma run_identity_queue_at [simp]: "run_identity (queue_at t old st) = run_identity st"
  by (simp add: run_identity_def queue_at_def notify_firing_def notify_resolved_def Let_def)

definition own_patch :: "string \<Rightarrow> string \<Rightarrow> kobj \<Rightarrow> kobj \<Rightarrow> bool" where
  "own_patch cluster runName x y \<longleftrightarrow> (\<exists>b st. x = KRecord b \<and> y = KRecord (b\<lparr>rec_status := st\<rparr>)
     \<and> same_run cluster runName b \<and> run_identity st = run_identity (rec_status b))"

definition sync_call :: "string \<Rightarrow> string \<Rightarrow> call \<Rightarrow> bool" where
  "sync_call cluster runName c \<longleftrightarrow> (case c of
       StatusPatch x y \<Rightarrow> own_patch cluster runName x y
     | Get s _ _ _ \<Rightarrow> s = Live
     | Now \<Rightarrow> True
     | _ \<Rightarrow> False)"

lemma own_patchI: "same_run cluster runName b \<Longrightarrow> run_identity st = run_identity (rec_status b)
  \<Longrightarrow> own_patch cluster runName (KRecord b) (KRecord (b\<lparr>rec_status := st\<rparr>))"
  unfolding own_patch_def by blast

lemma sync_attempt_calls:
  "emits (sync_call cluster runName) (sync_attempt e ns name cluster runName ct ph su ac)"
  unfolding emits_def sync_attempt_def queueActionAlert_def Let_def
  by (intro io_spec) (auto simp: sync_call_def simp del: as_time_def intro!: own_patchI)

lemma latest_result_calls: "emits (sync_call cluster runName) (latest_result L e run)"
  unfolding latest_result_def Let_def by (intro io_emits) (simp_all add: sync_call_def)

text \<open>What is patched belongs to a run that was read before and matches the record.\<close>

definition sync_guard :: "ulib \<Rightarrow> telcoHealthCheckRun \<Rightarrow> trace \<Rightarrow> call \<Rightarrow> bool" where
  "sync_guard L record v c \<longleftrightarrow> (case c of
       StatusPatch x y \<Rightarrow> syncable record \<and>
         (\<exists>run. (Get Live AgenticRunKind AgenticNamespace (rr_agenticRunName (rec_status record)), RObj (KUnstr run)) \<in> set v
            \<and> run_matches L run record \<and> own_patch (rr_clusterName (rec_status record)) (om_name run) x y)
     | Get s _ _ _ \<Rightarrow> s = Live
     | Now \<Rightarrow> True
     | _ \<Rightarrow> False)"

lemma run_matches_cluster:
  "run_matches L run r \<Longrightarrow> fst (nested_string L (u_fields run) [''spec'', ''targetCluster'']) = rr_clusterName (rec_status r)"
  by (auto simp: run_matches_def split: prod.splits)

lemma sync_guardI:
  assumes "syncable record" "run_matches L run record"
    and "\<forall>ev \<in> set u. sync_call (rr_clusterName (rec_status record)) (om_name run) (fst ev)"
  shows "guarded (\<lambda>v. sync_guard L record ((Get Live AgenticRunKind AgenticNamespace
           (rr_agenticRunName (rec_status record)), RObj (KUnstr run)) # v)) u"
  using assms by (intro guarded_all) (fastforce simp: sync_guard_def sync_call_def split: call.splits)

lemma syncHubRunStatus_guarded:
  "spec (syncHubRunStatus k L T e record) (\<lambda>_ u. guarded (sync_guard L record) u)"
proof -
  have "emits (sync_call cluster runName) (do {
      res \<leftarrow> latest_result L e run;
      (case res of Inl er \<Rightarrow> ret (Some er)
       | Inr sa \<Rightarrow> retry_on_conflict k (sync_attempt e ns name cluster runName ct ph (fst sa) (snd sa))) })"
    for run ns name cluster runName ct ph
    by (intro io_emits latest_result_calls sync_attempt_calls)
  note tail = this
  show ?thesis
    unfolding syncHubRunStatus_def
    by (rule spec_if, rule spec_ret, simp, rule spec_bind, rule spec_api_get, rule spec_sum, rule spec_ret,
        simp add: sync_guard_def, rule spec_if, rule spec_ret, simp add: sync_guard_def, rule spec_prod,
        rule spec_of_emits [OF tail])
      (simp add: as_unstr_Inr run_matches_cluster sync_guardI sync_guard_def [of _ _ "[]"])
qed

text \<open>
  C25. A synchronisation only touches its own run: every status patch has as its base a record that
  names the cluster and the run of an AgenticRun read before, whose target cluster, run key and
  owner label match the synchronised record, and it leaves the identity of the run as it was.
\<close>

theorem sync_own_run:
  "\<exists>u. snd (run_state (syncHubRunStatus k L T e record) t) = t @ u \<and> guarded (sync_guard L record) u"
  using syncHubRunStatus_guarded unfolding spec_def by blast

end
