(* ===== verification/Record_Hub.thy ===== *)
theory Record_Hub
  imports Run_Record
begin

text \<open>
  The API server as the keeper of one audit record. The other theories let the hub answer anything;
  what the operator achieves needs a hub that does its work. The locale \<open>quiet_record\<close> states the
  documented behaviour of the API server for a record that nobody else writes for the time being:
  reads are current, a write of what was just read is accepted, the status and the metadata are
  written separately, times keep whole seconds only, and nothing else changes the record.
  \<open>record_server\<close> is an executable instance with optimistic concurrency control.
\<close>

section \<open>Stored records\<close>

text \<open>The JSON form of \<open>metav1.Time\<close> (RFC 3339) has no fraction of a second.\<close>

definition stored_notification :: "alertNotification \<Rightarrow> alertNotification" where
  "stored_notification n =
     n\<lparr>an_startsAt := truncate_second (an_startsAt n), an_endsAt := map_option truncate_second (an_endsAt n)\<rparr>"

definition stored_status :: "telcoHealthCheckRunStatus \<Rightarrow> telcoHealthCheckRunStatus" where
  "stored_status st = st\<lparr>rr_notifications := map stored_notification (rr_notifications st),
     rr_alertStartsAt := map_option truncate_second (rr_alertStartsAt st),
     rr_lastAlertSentTime := map_option truncate_second (rr_lastAlertSentTime st)\<rparr>"

text \<open>The enumerations of the schema of \<open>telcohealthcheckrun_types.go\<close>.\<close>

definition trigger_type_ok :: "string \<Rightarrow> bool" where
  "trigger_type_ok x \<longleftrightarrow> x \<in> {TriggerTypeAlert, TriggerTypePeriodicHealthCheck}"

definition action_ok :: "string \<Rightarrow> bool" where
  "action_ok a \<longleftrightarrow> a \<in> {'''', ''True'', ''False''}"

definition schema_ok :: "telcoHealthCheckRunStatus \<Rightarrow> bool" where
  "schema_ok st \<longleftrightarrow> action_ok (rr_actionRequired st) \<and> trigger_type_ok (rr_triggeredBy st)"

text \<open>A record up to its resource version.\<close>

definition content :: "telcoHealthCheckRun \<Rightarrow> telcoHealthCheckRun" where
  "content r = r\<lparr>om_resourceVersion := ''''\<rparr>"

definition is_at :: "string \<Rightarrow> string \<Rightarrow> telcoHealthCheckRun \<Rightarrow> bool" where
  "is_at ns name r \<longleftrightarrow> om_namespace r = ns \<and> om_name r = name"

text \<open>The calls that may change the record; a delayed creation runs on its own and is one of them.\<close>

fun writes_to :: "string \<Rightarrow> string \<Rightarrow> call \<Rightarrow> bool" where
  "writes_to ns name (Create (KRecord q)) = is_at ns name q"
| "writes_to ns name (Update (KRecord q)) = is_at ns name q"
| "writes_to ns name (StatusUpdate (KRecord q)) = is_at ns name q"
| "writes_to ns name (StatusPatch b (KRecord q)) = is_at ns name q"
| "writes_to ns name (Delete (KRecord q)) = is_at ns name q"
| "writes_to ns name (Spawn d a b c) = True"
| "writes_to ns name c = False"

lemma stored_status_idem [simp]: "stored_status (stored_status st) = stored_status st"
  by (simp add: stored_status_def stored_notification_def option.map_comp comp_def)

lemma content_simps [simp]:
  "om_name (content r) = om_name r" "om_namespace (content r) = om_namespace r"
  "om_annotations (content r) = om_annotations r" "om_labels (content r) = om_labels r"
  "om_creation (content r) = om_creation r" "rec_status (content r) = rec_status r"
  "content (r\<lparr>om_resourceVersion := v\<rparr>) = content r" "content (content r) = content r"
  by (simp_all add: content_def)

lemma content_pending [simp]: "is_pending (content r) = is_pending r" "outcome_known (content r) = outcome_known r"
  by (simp_all add: is_pending_def outcome_known_def)

lemma content_set_phase: "content (set_phase ph r) = set_phase ph (content r)"
  by (simp add: content_def set_phase_def)

lemma content_clear_pending: "content (clear_pending r) = clear_pending (content r)"
  by (simp add: content_def clear_pending_def)

lemma stored_status_iff:
  "stored_status st = st \<longleftrightarrow> map stored_notification (rr_notifications st) = rr_notifications st
     \<and> map_option truncate_second (rr_alertStartsAt st) = rr_alertStartsAt st
     \<and> map_option truncate_second (rr_lastAlertSentTime st) = rr_lastAlertSentTime st"
  by (cases st) (simp add: stored_status_def)

lemma stored_set_phase:
  "stored_status (rec_status r) = rec_status r
   \<Longrightarrow> stored_status (rec_status (set_phase ph r)) = rec_status (set_phase ph r)"
  by (simp add: stored_status_iff) (simp add: set_phase_def)

lemma schema_ok_set_phase [simp]: "schema_ok (rec_status (set_phase ph r)) = schema_ok (rec_status r)"
  by (simp add: schema_ok_def set_phase_def)

section \<open>The laws\<close>

locale quiet_record =
  fixes e :: env and c :: source and ns name :: string and view :: "trace \<Rightarrow> telcoHealthCheckRun"
  assumes read: "e t (Get c RecordKind ns name) = RObj (KRecord (view t))"
    and named: "e t (Get c RecordKind ns' n) = RObj (KRecord q) \<Longrightarrow> is_at ns' n q"
    and view_stored: "stored_status (rec_status (view t)) = rec_status (view t)"
    and view_schema: "schema_ok (rec_status (view t))"
    and status_update: "q = (view t)\<lparr>rec_status := st\<rparr> \<Longrightarrow> schema_ok st
      \<Longrightarrow> ack (e t (StatusUpdate (KRecord q))) = None
        \<and> content (view (t @ [(StatusUpdate (KRecord q), e t (StatusUpdate (KRecord q)))]))
          = content (q\<lparr>rec_status := stored_status st\<rparr>)"
    and status_patch: "q = (view t)\<lparr>rec_status := st\<rparr> \<Longrightarrow> schema_ok st
      \<Longrightarrow> ack (e t (StatusPatch (KRecord (view t)) (KRecord q))) = None
        \<and> content (view (t @ [(StatusPatch (KRecord (view t)) (KRecord q),
              e t (StatusPatch (KRecord (view t)) (KRecord q)))]))
          = content (q\<lparr>rec_status := stored_status st\<rparr>)"
    and update: "q = (view t)\<lparr>om_annotations := an\<rparr>
      \<Longrightarrow> ack (e t (Update (KRecord q))) = None
        \<and> content (view (t @ [(Update (KRecord q), e t (Update (KRecord q)))])) = content q"
    and other: "\<not> writes_to ns name cl \<Longrightarrow> view (t @ [(cl, a)]) = view t"
begin

lemma view_at: "is_at ns name (view t)"
  using named [OF read] .

lemma read_run: "run_state (api_get as_record e c RecordKind ns name) t
    = (Inr (view t), t @ [(Get c RecordKind ns name, RObj (KRecord (view t)))])"
  by (simp add: api_get_def read)

lemma view_read: "view (t @ [(Get s k ns' n, a)]) = view t"
  by (rule other) simp

text \<open>Operations that leave the record alone.\<close>

definition leaves :: "'a io \<Rightarrow> bool" where
  "leaves m \<longleftrightarrow> (\<forall>t. view (snd (run_state m t)) = view t)"

lemma leaves_run: "leaves m \<Longrightarrow> view (snd (run_state m t)) = view t"
  by (simp add: leaves_def)

lemma leaves_ret: "leaves (ret x)"
  by (simp add: leaves_def)

lemma leaves_invoke: "(\<And>t. \<not> writes_to ns name cl) \<Longrightarrow> leaves (invoke e cl)"
  by (simp add: leaves_def other)

lemma leaves_bind: "leaves m \<Longrightarrow> (\<And>x. leaves (f x)) \<Longrightarrow> leaves (State_Monad.bind m f)"
  by (simp add: leaves_def split_beta)

lemma leaves_bind_run:
  assumes "leaves m" "\<And>t. leaves (f (fst (run_state m t)))"
  shows "leaves (State_Monad.bind m f)"
  using assms by (simp add: leaves_def split_beta)

lemma leaves_if: "(b \<Longrightarrow> leaves m) \<Longrightarrow> (\<not> b \<Longrightarrow> leaves m') \<Longrightarrow> leaves (if b then m else m')"
  by simp

lemma leaves_option:
  "(x = None \<Longrightarrow> leaves m) \<Longrightarrow> (\<And>y. x = Some y \<Longrightarrow> leaves (f y)) \<Longrightarrow> leaves (case x of None \<Rightarrow> m | Some y \<Rightarrow> f y)"
  by (cases x) simp_all

lemma leaves_sum:
  "(\<And>y. x = Inl y \<Longrightarrow> leaves (f y)) \<Longrightarrow> (\<And>y. x = Inr y \<Longrightarrow> leaves (g y)) \<Longrightarrow> leaves (case x of Inl y \<Rightarrow> f y | Inr y \<Rightarrow> g y)"
  by (cases x) simp_all

lemma leaves_calls: "leaves (api_get dec e s k ns' n)" "leaves (now e)" "leaves (api_list f e s k ns' ls)"
  unfolding api_get_def now_def api_list_def
  by (auto intro!: leaves_bind leaves_invoke leaves_ret)

lemma leaves_do: "\<not> writes_to ns name cl \<Longrightarrow> leaves (api_do e cl)"
  unfolding api_do_def by (auto intro!: leaves_bind leaves_invoke leaves_ret)

lemma leaves_retry: "leaves m \<Longrightarrow> leaves (retry_on_conflict k m)"
  by (induction k) (auto intro!: leaves_bind leaves_option leaves_if leaves_ret)

lemmas leaves = leaves_ret leaves_bind leaves_if leaves_option leaves_sum leaves_calls leaves_do leaves_retry

end

text \<open>A retried operation that succeeds at once.\<close>

lemma run_retry_None: "run_state m t = (None, t') \<Longrightarrow> run_state (retry_on_conflict k m) t = (None, t')"
  by (cases k) simp_all

section \<open>Settling a record\<close>

text \<open>What confirming or failing a pending record makes of it.\<close>

definition settle :: "string \<Rightarrow> telcoHealthCheckRun \<Rightarrow> telcoHealthCheckRun" where
  "settle ph r = clear_pending (if outcome_known r then r else set_phase ph r)"

lemma content_settle: "content (settle ph r) = settle ph (content r)"
  by (simp add: settle_def content_set_phase content_clear_pending)

lemma is_pending_set_phase [simp]: "is_pending (set_phase ph r) = is_pending r"
  by (simp add: is_pending_def set_phase_def)

context quiet_record
begin

lemma finish_status_run:
  assumes "is_pending (view t)"
  shows "\<exists>t'. run_state (finish_status_attempt e c ns name ph) t = (None, t')
    \<and> content (view t') = content (if outcome_known (view t) then view t else set_phase ph (view t))"
proof (cases "outcome_known (view t)")
  case True
  then show ?thesis by (simp add: finish_status_attempt_def read_run view_read)
next
  case False
  let ?t = "t @ [(Get c RecordKind ns name, RObj (KRecord (view t)))]"
  let ?q = "set_phase ph (view t)"
  have "?q = (view ?t)\<lparr>rec_status := rec_status ?q\<rparr>" by (simp add: view_read set_phase_def)
  moreover have "schema_ok (rec_status ?q)" using view_schema by simp
  ultimately have "ack (e ?t (StatusUpdate (KRecord ?q))) = None"
    "content (view (?t @ [(StatusUpdate (KRecord ?q), e ?t (StatusUpdate (KRecord ?q)))]))
      = content (?q\<lparr>rec_status := stored_status (rec_status ?q)\<rparr>)"
    using status_update by blast+
  then show ?thesis
    using False assms
    by (simp add: finish_status_attempt_def read_run api_do_def stored_set_phase view_stored del: ack_def)
qed

lemma finish_annotation_run:
  assumes "is_pending (view t)"
  shows "\<exists>t'. run_state (finish_annotation_attempt e c ns name) t = (None, t')
    \<and> content (view t') = content (clear_pending (view t))"
proof -
  let ?t = "t @ [(Get c RecordKind ns name, RObj (KRecord (view t)))]"
  let ?q = "clear_pending (view t)"
  have "?q = (view ?t)\<lparr>om_annotations := om_annotations ?q\<rparr>" by (simp add: view_read clear_pending_def)
  then have "ack (e ?t (Update (KRecord ?q))) = None"
    "content (view (?t @ [(Update (KRecord ?q), e ?t (Update (KRecord ?q)))])) = content ?q"
    using update by blast+
  then show ?thesis
    using assms by (simp add: finish_annotation_attempt_def read_run api_do_def del: ack_def)
qed

lemma content_pendingD: "content r = content r' \<Longrightarrow> is_pending r = is_pending r'"
  by (metis content_pending(1))

lemma finishCreation_run:
  assumes "is_pending (view t)"
  shows "\<exists>t'. run_state (finishCreation k e c ns name ph) t = (None, t')
    \<and> content (view t') = content (settle ph (view t))"
proof -
  obtain t1 where t1: "run_state (finish_status_attempt e c ns name ph) t = (None, t1)"
    "content (view t1) = content (if outcome_known (view t) then view t else set_phase ph (view t))"
    using finish_status_run [OF assms] by blast
  then have "is_pending (view t1)" using assms content_pendingD [OF t1(2)] by simp
  then obtain t2 where t2: "run_state (finish_annotation_attempt e c ns name) t1 = (None, t2)"
    "content (view t2) = content (clear_pending (view t1))"
    using finish_annotation_run by blast
  have "run_state (finishCreation k e c ns name ph) t = (None, t2)"
    by (simp add: finishCreation_def run_retry_None [OF t1(1)] run_retry_None [OF t2(1)])
  moreover have "content (view t2) = content (settle ph (view t))"
    unfolding t2(2) content_clear_pending t1(2) settle_def by simp
  ultimately show ?thesis by blast
qed

text \<open>Settling another record leaves this one alone.\<close>

lemma leaves_read_other:
  assumes "n \<noteq> name" "\<And>er. leaves (f (Inl er))" "\<And>q. \<not> is_at ns name q \<Longrightarrow> leaves (f (Inr q))"
  shows "leaves (State_Monad.bind (api_get as_record e c RecordKind ns n) f)"
proof (rule leaves_bind_run)
  show "leaves (api_get as_record e c RecordKind ns n)" by (rule leaves_calls)
  fix t
  show "leaves (f (fst (run_state (api_get as_record e c RecordKind ns n) t)))"
  proof (cases "as_record (e t (Get c RecordKind ns n))")
    case (Inl er)
    then show ?thesis using assms(2) by (simp add: api_get_def)
  next
    case (Inr q)
    then have "\<not> is_at ns name q"
      using named [of t ns n q] assms(1) by (simp add: as_record_Inr is_at_def)
    then show ?thesis using Inr assms(3) by (simp add: api_get_def)
  qed
qed

lemma leaves_finishCreation:
  assumes "n \<noteq> name" shows "leaves (finishCreation k e c ns n ph)"
proof -
  have "leaves (finish_status_attempt e c ns n ph)" "leaves (finish_annotation_attempt e c ns n)"
    unfolding finish_status_attempt_def finish_annotation_attempt_def
    by (rule leaves_read_other [OF assms];
        auto simp: set_phase_def clear_pending_def is_at_def intro!: leaves_ret leaves_do)+
  then show ?thesis unfolding finishCreation_def by (intro leaves)
qed

end

section \<open>An API server with optimistic concurrency control\<close>

text \<open>
  The instance keeps the record in the trace: \<open>server_step\<close> is the effect of one answered call. A
  write is refused with a conflict unless it names the current resource version, and invalid unless
  the schema admits its status.
\<close>

definition next_version :: "telcoHealthCheckRun \<Rightarrow> telcoHealthCheckRun" where
  "next_version r = r\<lparr>om_resourceVersion := om_resourceVersion r @ ''+''\<rparr>"

definition put_status :: "telcoHealthCheckRun \<Rightarrow> telcoHealthCheckRun \<Rightarrow> telcoHealthCheckRun" where
  "put_status q r = (if schema_ok (rec_status q)
     then next_version (r\<lparr>rec_status := stored_status (rec_status q)\<rparr>) else r)"

definition put_metadata :: "telcoHealthCheckRun \<Rightarrow> telcoHealthCheckRun \<Rightarrow> telcoHealthCheckRun" where
  "put_metadata q r = next_version (q\<lparr>rec_status := rec_status r, om_resourceVersion := om_resourceVersion r\<rparr>)"

fun server_step :: "call \<times> resp \<Rightarrow> telcoHealthCheckRun \<Rightarrow> telcoHealthCheckRun" where
  "server_step (StatusUpdate (KRecord q), ROk) r = (if is_at (om_namespace r) (om_name r) q then put_status q r else r)"
| "server_step (StatusPatch b (KRecord q), ROk) r = (if is_at (om_namespace r) (om_name r) q then put_status q r else r)"
| "server_step (Update (KRecord q), ROk) r = (if is_at (om_namespace r) (om_name r) q then put_metadata q r else r)"
| "server_step ev r = r"

definition server_view :: "telcoHealthCheckRun \<Rightarrow> trace \<Rightarrow> telcoHealthCheckRun" where
  "server_view r t = fold server_step t r"

definition answer_write :: "telcoHealthCheckRun \<Rightarrow> telcoHealthCheckRun \<Rightarrow> bool \<Rightarrow> resp" where
  "answer_write r q valid =
     (if \<not> is_at (om_namespace r) (om_name r) q then RErr (ApiErr NotFound)
      else if \<not> valid then RErr (ApiErr Invalid)
      else if om_resourceVersion q \<noteq> om_resourceVersion r then RErr (ApiErr Conflict)
      else ROk)"

definition record_server :: "telcoHealthCheckRun \<Rightarrow> env \<Rightarrow> env" where
  "record_server r0 rest t cl = (let r = server_view r0 t in
     case cl of
       Get s k ns name \<Rightarrow> if k = RecordKind
         then (if is_at ns name r then RObj (KRecord r) else RErr (ApiErr NotFound)) else rest t cl
     | StatusUpdate (KRecord q) \<Rightarrow> answer_write r q (schema_ok (rec_status q))
     | StatusPatch b (KRecord q) \<Rightarrow> answer_write r q (schema_ok (rec_status q))
     | Update (KRecord q) \<Rightarrow> answer_write r q True
     | _ \<Rightarrow> rest t cl)"

lemma put_at [simp]: "is_at ns name (put_status q r) = is_at ns name r" "is_at ns name (put_metadata q r) = is_at ns name q"
  by (simp_all add: put_status_def put_metadata_def next_version_def is_at_def)

lemma server_step_inv:
  "is_at ns name r \<and> stored_status (rec_status r) = rec_status r \<and> schema_ok (rec_status r)
   \<Longrightarrow> is_at ns name (server_step ev r) \<and> stored_status (rec_status (server_step ev r)) = rec_status (server_step ev r)
     \<and> schema_ok (rec_status (server_step ev r))"
  by (induction ev r rule: server_step.induct)
    (auto simp: put_status_def put_metadata_def next_version_def is_at_def schema_ok_def stored_status_def
      stored_notification_def option.map_comp comp_def)

lemma server_view_inv:
  assumes "is_at ns name r" "stored_status (rec_status r) = rec_status r" "schema_ok (rec_status r)"
  shows "is_at ns name (server_view r t) \<and> stored_status (rec_status (server_view r t)) = rec_status (server_view r t)
    \<and> schema_ok (rec_status (server_view r t))"
  unfolding server_view_def using assms
  by (induction t arbitrary: r) (simp_all add: server_step_inv del: server_step.simps)

lemma server_view_snoc: "server_view r (t @ [ev]) = server_step ev (server_view r t)"
  by (simp add: server_view_def)

lemma server_step_other:
  assumes "is_at ns name r" "\<not> writes_to ns name cl" shows "server_step (cl, a) r = r"
  using assms by (induction "(cl, a)" r rule: server_step.induct) (auto simp: is_at_def)

lemma record_server_quiet:
  assumes r: "is_at ns name r0" "stored_status (rec_status r0) = rec_status r0" "schema_ok (rec_status r0)"
  shows "quiet_record (record_server r0 rest) c ns name (server_view r0)"
proof
  note inv = server_view_inv [OF r]
  have pos: "om_namespace (server_view r0 t) = ns" "om_name (server_view r0 t) = name" for t
    using inv [of t] by (simp_all add: is_at_def)
  show "record_server r0 rest t (Get c RecordKind ns name) = RObj (KRecord (server_view r0 t))" for t
    using inv by (simp add: record_server_def)
  show "is_at ns' n q" if "record_server r0 rest t (Get c RecordKind ns' n) = RObj (KRecord q)" for t ns' n q
    using that by (simp add: record_server_def Let_def split: if_splits)
  show "stored_status (rec_status (server_view r0 t)) = rec_status (server_view r0 t)"
    "schema_ok (rec_status (server_view r0 t))" for t using inv by simp_all
  show "server_view r0 (t @ [(cl, a)]) = server_view r0 t" if "\<not> writes_to ns name cl" for t cl a
    using server_step_other [OF _ that] inv by (simp add: server_view_snoc)
  fix t q st assume q: "q = (server_view r0 t)\<lparr>rec_status := st\<rparr>" and st: "schema_ok st"
  have "record_server r0 rest t (StatusUpdate (KRecord q)) = ROk"
    "record_server r0 rest t (StatusPatch (KRecord (server_view r0 t)) (KRecord q)) = ROk"
    using q st by (simp_all add: record_server_def answer_write_def Let_def is_at_def)
  then show "ack (record_server r0 rest t (StatusUpdate (KRecord q))) = None
      \<and> content (server_view r0 (t @ [(StatusUpdate (KRecord q), record_server r0 rest t (StatusUpdate (KRecord q)))]))
        = content (q\<lparr>rec_status := stored_status st\<rparr>)"
    "ack (record_server r0 rest t (StatusPatch (KRecord (server_view r0 t)) (KRecord q))) = None
      \<and> content (server_view r0 (t @ [(StatusPatch (KRecord (server_view r0 t)) (KRecord q),
          record_server r0 rest t (StatusPatch (KRecord (server_view r0 t)) (KRecord q)))]))
        = content (q\<lparr>rec_status := stored_status st\<rparr>)"
    using q st by (simp_all add: server_view_snoc put_status_def next_version_def content_def is_at_def)
next
  fix t q an assume q: "q = (server_view r0 t)\<lparr>om_annotations := an\<rparr>"
  then have "record_server r0 rest t (Update (KRecord q)) = ROk"
    by (simp add: record_server_def answer_write_def Let_def is_at_def)
  then show "ack (record_server r0 rest t (Update (KRecord q))) = None
      \<and> content (server_view r0 (t @ [(Update (KRecord q), record_server r0 rest t (Update (KRecord q)))])) = content q"
    using q by (simp add: server_view_snoc put_metadata_def next_version_def content_def is_at_def)
qed

end
