(* ===== verification/Base64.thy ===== *)
theory Base64
  imports Prelude
begin

text \<open>
  \<open>encoding/base64\<close> with the standard alphabet and padding, which \<open>http.Request.SetBasicAuth\<close>
  uses, and the reading of a Basic authorization header on the other side
  (\<open>http.Request.BasicAuth\<close>): decode, then cut at the first colon.
\<close>

definition b64_alphabet :: string where
  "b64_alphabet = ''ABCDEFGHIJKLMNOPQRSTUVWXYZabcdefghijklmnopqrstuvwxyz0123456789+/''"

definition b64_char :: "nat \<Rightarrow> char" where "b64_char n = b64_alphabet ! n"

fun position :: "'a \<Rightarrow> 'a list \<Rightarrow> nat option" where
  "position x [] = None"
| "position x (y # ys) = (if x = y then Some 0 else map_option Suc (position x ys))"

definition b64_value :: "char \<Rightarrow> nat option" where "b64_value c = position c b64_alphabet"

abbreviation (input) pad :: char where "pad \<equiv> CHR ''=''"

fun b64_encode :: "nat list \<Rightarrow> string" where
  "b64_encode [] = []"
| "b64_encode [a] = [b64_char (a div 4), b64_char (a mod 4 * 16), pad, pad]"
| "b64_encode [a, b] = [b64_char (a div 4), b64_char (a mod 4 * 16 + b div 16), b64_char (b mod 16 * 4), pad]"
| "b64_encode (a # b # c # rest) =
     b64_char (a div 4) # b64_char (a mod 4 * 16 + b div 16) # b64_char (b mod 16 * 4 + c div 64)
     # b64_char (c mod 64) # b64_encode rest"

fun b64_decode :: "string \<Rightarrow> nat list option" where
  "b64_decode [] = Some []"
| "b64_decode (p # q # r # s # rest) =
     (case (b64_value p, b64_value q) of
        (Some i, Some j) \<Rightarrow>
          if r = pad \<and> s = pad \<and> rest = [] then Some [i * 4 + j div 16]
          else (case b64_value r of
             None \<Rightarrow> None
           | Some k \<Rightarrow>
               if s = pad \<and> rest = [] then Some [i * 4 + j div 16, j mod 16 * 16 + k div 4]
               else (case (b64_value s, b64_decode rest) of
                  (Some l, Some ds) \<Rightarrow> Some ((i * 4 + j div 16) # (j mod 16 * 16 + k div 4) # (k mod 4 * 64 + l) # ds)
                | _ \<Rightarrow> None))
      | _ \<Rightarrow> None)"
| "b64_decode _ = None"

definition base64_encode :: "string \<Rightarrow> string" where
  "base64_encode s = b64_encode (map of_char s)"

definition base64_decode :: "string \<Rightarrow> string option" where
  "base64_decode s = map_option (map char_of) (b64_decode s)"

lemma b64_value_char: "n < 64 \<Longrightarrow> b64_value (b64_char n) = Some n"
proof -
  have "\<forall>n \<in> {0..<64}. b64_value (b64_char n) = Some n" by code_simp
  moreover assume "n < 64"
  ultimately show ?thesis by simp
qed

lemma b64_char_not_pad: "n < 64 \<Longrightarrow> b64_char n \<noteq> pad"
proof -
  have "b64_value pad = None" by code_simp
  moreover assume "n < 64"
  ultimately show ?thesis using b64_value_char by force
qed

lemma sextets:
  assumes "a < 256" "b < 256" "c < (256::nat)"
  shows "a div 4 < 64" "a mod 4 * 16 + b div 16 < 64" "b mod 16 * 4 + c div 64 < 64"
    "a mod 4 * 16 < 64" "b mod 16 * 4 < 64" "c mod 64 < 64"
proof -
  have "a mod 4 < 4" "b mod 16 < 16" "b div 16 < 16" "c div 64 < 4"
    using assms by (simp_all add: less_mult_imp_div_less)
  then show "a div 4 < 64" "a mod 4 * 16 + b div 16 < 64" "b mod 16 * 4 + c div 64 < 64"
    "a mod 4 * 16 < 64" "b mod 16 * 4 < 64" "c mod 64 < 64"
    using assms by (simp_all add: less_mult_imp_div_less)
qed

lemma join_digits: "q < k \<Longrightarrow> (x * k + q) div k = x" "q < k \<Longrightarrow> (x * k + q) mod k = (q :: nat)"
  by simp_all

lemma octets:
  assumes "b < 256" "c < (256::nat)"
  shows "a div 4 * 4 + (a mod 4 * 16 + b div 16) div 16 = a"
    "(a mod 4 * 16 + b div 16) mod 16 * 16 + (b mod 16 * 4 + c div 64) div 4 = b"
    "(b mod 16 * 4 + c div 64) mod 4 * 64 + c mod 64 = c"
proof -
  have "b div 16 < 16" "c div 64 < 4" using assms by (simp_all add: less_mult_imp_div_less)
  then have "(a mod 4 * 16 + b div 16) div 16 = a mod 4" "(a mod 4 * 16 + b div 16) mod 16 = b div 16"
    "(b mod 16 * 4 + c div 64) div 4 = b mod 16" "(b mod 16 * 4 + c div 64) mod 4 = c div 64"
    by (simp_all only: join_digits)
  then show "a div 4 * 4 + (a mod 4 * 16 + b div 16) div 16 = a"
    "(a mod 4 * 16 + b div 16) mod 16 * 16 + (b mod 16 * 4 + c div 64) div 4 = b"
    "(b mod 16 * 4 + c div 64) mod 4 * 64 + c mod 64 = c"
    by presburger+
qed

lemma b64_decode_encode: "list_all (\<lambda>n. n < 256) bs \<Longrightarrow> b64_decode (b64_encode bs) = Some bs"
proof (induction bs rule: b64_encode.induct)
  case 1
  show ?case by simp
next
  case (2 a)
  then show ?case
    using sextets [of a 0 0] octets(1) [of 0 0 a] by (simp add: b64_value_char)
next
  case (3 a b)
  then have "a < 256" "b < 256" by simp_all
  then show ?case
    using sextets [of a b 0] octets(1,2) [of b 0 a] by (simp add: b64_value_char b64_char_not_pad)
next
  case (4 a b c rest)
  then have lt: "a < 256" "b < 256" "c < 256" and IH: "b64_decode (b64_encode rest) = Some rest"
    by simp_all
  show ?case
    unfolding b64_encode.simps b64_decode.simps
    by (simp only: b64_value_char b64_char_not_pad sextets [OF lt] octets [OF lt(2,3)] IH
        option.case prod.case simp_thms if_False)
qed

lemma base64_roundtrip: "base64_decode (base64_encode s) = Some s"
proof -
  have "b64_decode (b64_encode (map of_char s)) = Some (map of_char s)"
    by (rule b64_decode_encode) (simp add: list_all_iff)
  then show ?thesis by (simp add: base64_decode_def base64_encode_def comp_def)
qed

section \<open>Basic authorization\<close>

definition basic_auth :: "string \<Rightarrow> string \<Rightarrow> string" where
  "basic_auth username password = ''Basic '' @ base64_encode (username @ CHR '':'' # password)"

definition cut_colon :: "string \<Rightarrow> (string \<times> string) option" where
  "cut_colon s = (if CHR '':'' \<in> set s
     then Some (takeWhile (\<lambda>c. c \<noteq> CHR '':'') s, tl (dropWhile (\<lambda>c. c \<noteq> CHR '':'') s)) else None)"

definition parse_basic_auth :: "string \<Rightarrow> (string \<times> string) option" where
  "parse_basic_auth h = (case strip_prefix ''Basic '' h of
       None \<Rightarrow> None
     | Some b \<Rightarrow> (case base64_decode b of None \<Rightarrow> None | Some s \<Rightarrow> cut_colon s))"

lemma cut_colon_append: "CHR '':'' \<notin> set u \<Longrightarrow> cut_colon (u @ CHR '':'' # p) = Some (u, p)"
  by (induction u) (auto simp: cut_colon_def split: if_splits)

lemma basic_auth_read_back:
  "CHR '':'' \<notin> set username \<Longrightarrow> parse_basic_auth (basic_auth username password) = Some (username, password)"
  by (simp add: parse_basic_auth_def basic_auth_def strip_prefix_def base64_roundtrip cut_colon_append)

end
