(* ===== verification/Run_Alerts.thy ===== *)
theory Run_Alerts
  imports Hub_Run_Status Record_Hub Base64
begin

text \<open>
  \<open>internal/controller/runalerts.go\<close>: the delivery of the notifications that records carry to the
  configured external Alertmanager. The parser of URLs and the check for DNS names
  (\<open>validation.IsDNS1123Subdomain\<close>) are the fields of the parameter \<open>W\<close>, and an HTTP request
  carries its alerts before their JSON encoding.
\<close>

section \<open>Addresses\<close>

text \<open>The parts of a \<open>url.URL\<close> the code looks at; of the user part, whether there is one.\<close>

record go_url =
  url_scheme :: string
  url_host :: string
  url_user :: bool
  url_rawQuery :: string
  url_fragment :: string
  url_opaque :: string

record weblib =
  url_parse :: "string \<Rightarrow> go_url option"
  is_dns1123_subdomain :: "string \<Rightarrow> bool"

definition alertRefreshInterval :: duration where "alertRefreshInterval = minute"
definition alertLifetime :: duration where "alertLifetime = 5 * minute"
definition hubConsoleNamespace :: string where "hubConsoleNamespace = ''openshift-console''"
definition hubConsoleRouteName :: string where "hubConsoleRouteName = ''console''"

text \<open>\<open>url.URL.String\<close> escapes the path (mode \<open>encodePath\<close>) and the host (\<open>encodeHost\<close>).\<close>

definition url_unreserved :: "char \<Rightarrow> bool" where
  "url_unreserved c \<longleftrightarrow> (let n = (of_char c :: nat) in
     48 \<le> n \<and> n \<le> 57 \<or> 65 \<le> n \<and> n \<le> 90 \<or> 97 \<le> n \<and> n \<le> 122) \<or> c \<in> set ''-_.~''"

definition upper_hex :: "nat \<Rightarrow> char" where
  "upper_hex n = (if n < 10 then char_of (48 + n) else char_of (55 + n))"

definition percent :: "char \<Rightarrow> string" where
  "percent c = (let n = (of_char c :: nat) in [CHR ''%'', upper_hex (n div 16), upper_hex (n mod 16)])"

definition escape_path :: "string \<Rightarrow> string" where
  "escape_path s = concat (map (\<lambda>c. if url_unreserved c \<or> c \<in> set ''$&+,/:;=@'' then [c] else percent c) s)"

definition escape_host :: "string \<Rightarrow> string" where
  "escape_host s = concat (map (\<lambda>c. if url_unreserved c \<or> c \<in> set ''!$&()*+,;=:[]<>'' \<or> c = CHR 0x27 \<or> c = CHR 0x22
     then [c] else percent c) s)"

definition agenticRunURL :: "ulib \<Rightarrow> weblib \<Rightarrow> env \<Rightarrow> string \<Rightarrow> string io" where
  "agenticRunURL L W e runName = do {
     g \<leftarrow> api_get as_unstr e Live RouteKind hubConsoleNamespace hubConsoleRouteName;
     ret (case g of
        Inl er \<Rightarrow> ''''
      | Inr route \<Rightarrow>
          (case nested_string L (u_fields route) [''spec'', ''host''] of (host, found, err) \<Rightarrow>
             if err \<or> \<not> found \<or> \<not> is_dns1123_subdomain W host then ''''
             else ''https://'' @ escape_host host
               @ escape_path (''/lightspeed/runs/'' @ AgenticNamespace @ ''/'' @ runName))) }"

section \<open>Authorization\<close>

text \<open>The value of the \<open>Authorization\<close> header, if the request gets one.\<close>

definition secret_authorization :: "string \<Rightarrow> string \<Rightarrow> string \<Rightarrow> secret \<Rightarrow> gerr + string option" where
  "secret_authorization authType ns name s =
     (if authType = AlertManagerAuthBearer then
        (let token = data_get (sec_data s) ''token'' in
         if token = '''' then
           Inl (Msg (''Alertmanager credentials Secret '' @ ns @ ''/'' @ name @ '' has no token''))
         else Inr (Some (''Bearer '' @ token)))
      else
        (let username = data_get (sec_data s) ''username''; password = data_get (sec_data s) ''password'' in
         if username = '''' \<or> password = '''' \<or> CHR '':'' \<in> set username then
           Inl (Msg (''Alertmanager credentials Secret '' @ ns @ ''/'' @ name
             @ '' requires non-empty username without ':' and non-empty password''))
         else Inr (Some (basic_auth username password))))"

definition authorize :: "env \<Rightarrow> string \<Rightarrow> go_url \<Rightarrow> alertManagerSpec \<Rightarrow> (gerr + string option) io" where
  "authorize e namespace reqURL config =
     (let authType = (if am_authType config = '''' then AlertManagerAuthNone else am_authType config) in
      if authType = AlertManagerAuthNone then
        ret (if am_credentialsSecret config \<noteq> None
             then Inl (Msg ''Alertmanager credentialsSecret requires bearer or basic auth'') else Inr None)
      else if authType \<noteq> AlertManagerAuthBearer \<and> authType \<noteq> AlertManagerAuthBasic then
        ret (Inl (Msg (''unsupported Alertmanager authType '' @ authType)))
      else if url_scheme reqURL \<noteq> ''https'' then
        ret (Inl (Msg ''Alertmanager authentication requires HTTPS''))
      else (case am_credentialsSecret config of
         None \<Rightarrow> ret (Inl (Msg (''Alertmanager '' @ authType @ '' auth requires credentialsSecret.name'')))
       | Some cs \<Rightarrow>
           if cs_name cs = '''' then
             ret (Inl (Msg (''Alertmanager '' @ authType @ '' auth requires credentialsSecret.name'')))
           else do {
             g \<leftarrow> api_get as_secret e Live SecretKind namespace (cs_name cs);
             ret (case g of
                Inl er \<Rightarrow> Inl (Wrap (''reading Alertmanager credentials Secret '' @ namespace @ ''/'' @ cs_name cs) er)
              | Inr s \<Rightarrow> secret_authorization authType namespace (cs_name cs) s) }))"

section \<open>Sending\<close>

definition valid_base_url :: "weblib \<Rightarrow> string \<Rightarrow> bool" where
  "valid_base_url W u = (case url_parse W u of
       None \<Rightarrow> False
     | Some p \<Rightarrow> (url_scheme p = ''http'' \<or> url_scheme p = ''https'') \<and> url_host p \<noteq> '''' \<and> \<not> url_user p
         \<and> url_rawQuery p = '''' \<and> url_fragment p = '''' \<and> url_opaque p = '''')"

definition alert_endpoint :: "alertManagerSpec \<Rightarrow> string" where
  "alert_endpoint config = trim_right ''/'' (am_url config) @ ''/api/v2/alerts''"

text \<open>
  \<open>json.Marshal\<close> fails only on an instant whose year does not have four digits; the bounds are
  1 January of the years 0 and 10000, in seconds from the Unix epoch.
\<close>

definition marshalable :: "instant \<Rightarrow> bool" where
  "marshalable t \<longleftrightarrow> - 62167219200 * second \<le> t \<and> t < 253402300800 * second"

definition outgoing_alert :: "telcoHealthCheckRun \<Rightarrow> alertNotification \<Rightarrow> string \<Rightarrow> instant \<Rightarrow> http_alert" where
  "outgoing_alert record event link endsAt =
     (let cluster = rr_clusterName (rec_status record); run = rr_agenticRunName (rec_status record);
          annotations = [''cluster'' \<mapsto> cluster, ''summary'' \<mapsto> an_summary event, ''agentic_run'' \<mapsto> run]
      in \<lparr>ha_labels = [''alertname'' \<mapsto> ''TelcoActionRequired'', ''severity'' \<mapsto> ''warning'',
                       ''cluster'' \<mapsto> cluster, ''agentic_run'' \<mapsto> run],
          ha_annotations = (if link \<noteq> '''' then annotations(''url'' \<mapsto> link) else annotations),
          ha_startsAt = an_startsAt event, ha_endsAt = endsAt\<rparr>)"

definition alert_request :: "alertManagerSpec \<Rightarrow> string option \<Rightarrow> http_alert \<Rightarrow> http_request" where
  "alert_request config header a =
     \<lparr>hr_endpoint = alert_endpoint config, hr_contentType = ''application/json'',
      hr_authorization = header, hr_followRedirects = False, hr_payload = [a]\<rparr>"

definition do_post :: "env \<Rightarrow> http_request \<Rightarrow> gerr option io" where
  "do_post e req = do {
     r \<leftarrow> invoke e (HttpDo req);
     ret (case r of
        RHttp code \<Rightarrow> if code < 200 \<or> code \<ge> 300
          then Some (Msg (''posting run alert: Alertmanager returned '' @ dec_int code)) else None
      | _ \<Rightarrow> Some (Wrap ''posting run alert'' (err_of r))) }"

text \<open>The second half of \<open>send\<close>: the request is built, authorized and posted without following redirects.\<close>

definition post_alert :: "weblib \<Rightarrow> env \<Rightarrow> string \<Rightarrow> alertManagerSpec \<Rightarrow> http_alert \<Rightarrow> gerr option io" where
  "post_alert W e namespace config a =
     (if \<not> marshalable (ha_startsAt a) \<or> \<not> marshalable (ha_endsAt a) then
        ret (Some (Msg ''json: error calling MarshalJSON for type time.Time''))
      else (case url_parse W (alert_endpoint config) of
         None \<Rightarrow> ret (Some (Msg ''parse URL''))
       | Some reqURL \<Rightarrow> do {
           auth \<leftarrow> authorize e namespace reqURL config;
           (case auth of
              Inl er \<Rightarrow> ret (Some er)
            | Inr header \<Rightarrow> do_post e (alert_request config header a)) }))"

definition send ::
  "ulib \<Rightarrow> weblib \<Rightarrow> env \<Rightarrow> string \<Rightarrow> alertManagerSpec \<Rightarrow> telcoHealthCheckRun \<Rightarrow> alertNotification \<Rightarrow> gerr option io" where
  "send L W e namespace config record event =
     (if \<not> valid_base_url W (am_url config) then ret (Some (Msg ''invalid Alertmanager base URL''))
      else do {
        link \<leftarrow> agenticRunURL L W e (rr_agenticRunName (rec_status record));
        t \<leftarrow> now e;
        if an_firing event then
          post_alert W e namespace config (outgoing_alert record event link (t + alertLifetime))
        else (case an_endsAt event of
           None \<Rightarrow> ret (Some (Msg (''resolution for '' @ om_namespace record @ ''/'' @ om_name record
                     @ '' is missing endsAt'')))
         | Some endsAt \<Rightarrow> post_alert W e namespace config (outgoing_alert record event link endsAt)) })"

section \<open>The reconciler of the records\<close>

definition patch_status :: "env \<Rightarrow> telcoHealthCheckRun \<Rightarrow> telcoHealthCheckRunStatus \<Rightarrow> gerr option io" where
  "patch_status e before st = api_do e (StatusPatch (KRecord before) (KRecord (before\<lparr>rec_status := st\<rparr>)))"

definition with_result :: "ctrl_result \<Rightarrow> gerr option \<Rightarrow> ctrl_result \<times> gerr option" where
  "with_result res er = (case er of None \<Rightarrow> (res, None) | Some x \<Rightarrow> (no_result, Some x))"

text \<open>No configuration: whatever was queued is dropped.\<close>

definition stopped :: "telcoHealthCheckRunStatus \<Rightarrow> telcoHealthCheckRunStatus" where
  "stopped st = st\<lparr>rr_notifications := [], rr_alertStartsAt := None, rr_lastAlertSentTime := None\<rparr>"

definition stop_delivery :: "env \<Rightarrow> telcoHealthCheckRun \<Rightarrow> (ctrl_result \<times> gerr option) io" where
  "stop_delivery e record =
     (let st = rec_status record in
      if rr_notifications st = [] \<and> rr_alertStartsAt st = None \<and> rr_lastAlertSentTime st = None
      then ret (no_result, None)
      else do { er \<leftarrow> patch_status e record (stopped st); ret (no_result, er) })"

text \<open>An action that is required without an alert for it gets its first notification.\<close>

definition started :: "instant \<Rightarrow> telcoHealthCheckRunStatus \<Rightarrow> telcoHealthCheckRunStatus" where
  "started t st = st\<lparr>rr_alertStartsAt := Some t, rr_notifications := rr_notifications st @
     [\<lparr>an_firing = True, an_startsAt = t, an_endsAt = None, an_summary = status_summary st\<rparr>]\<rparr>"

definition start_firing :: "env \<Rightarrow> telcoHealthCheckRun \<Rightarrow> (ctrl_result \<times> gerr option) io" where
  "start_firing e record = do {
     t \<leftarrow> now e;
     er \<leftarrow> patch_status e record (started t (rec_status record));
     ret (with_result requeue_now er) }"

text \<open>The head of the queue is sent, and removed only after the Alertmanager accepted it.\<close>

definition current_firing :: "telcoHealthCheckRunStatus \<Rightarrow> alertNotification \<Rightarrow> bool" where
  "current_firing st event \<longleftrightarrow> an_firing event \<and> rr_actionRequired st = ''True''
     \<and> rr_alertStartsAt st = Some (an_startsAt event)"

definition popped :: "telcoHealthCheckRunStatus \<Rightarrow> telcoHealthCheckRunStatus" where
  "popped st = st\<lparr>rr_notifications := tl (rr_notifications st)\<rparr>"

definition renewed :: "instant \<Rightarrow> telcoHealthCheckRunStatus \<Rightarrow> telcoHealthCheckRunStatus" where
  "renewed t st = st\<lparr>rr_lastAlertSentTime := Some t\<rparr>"

definition deliver_next ::
  "ulib \<Rightarrow> weblib \<Rightarrow> env \<Rightarrow> string \<Rightarrow> alertManagerSpec \<Rightarrow> telcoHealthCheckRun \<Rightarrow> alertNotification
   \<Rightarrow> (ctrl_result \<times> gerr option) io" where
  "deliver_next L W e namespace config record event = do {
     s \<leftarrow> send L W e namespace config record event;
     (case s of
        Some er \<Rightarrow> ret (no_result, Some er)
      | None \<Rightarrow> do {
          st \<leftarrow> (if current_firing (rec_status record) event
                 then do { t \<leftarrow> now e; ret (renewed t (popped (rec_status record))) }
                 else ret (popped (rec_status record)));
          er \<leftarrow> patch_status e record st;
          ret (with_result requeue_now er) }) }"

text \<open>The renewal of a firing alert whose queue is empty.\<close>

definition refresh_event :: "instant \<Rightarrow> telcoHealthCheckRunStatus \<Rightarrow> alertNotification" where
  "refresh_event startsAt st =
     \<lparr>an_firing = True, an_startsAt = startsAt, an_endsAt = None, an_summary = status_summary st\<rparr>"

definition resend ::
  "ulib \<Rightarrow> weblib \<Rightarrow> env \<Rightarrow> string \<Rightarrow> alertManagerSpec \<Rightarrow> telcoHealthCheckRun \<Rightarrow> instant
   \<Rightarrow> (ctrl_result \<times> gerr option) io" where
  "resend L W e namespace config record startsAt = do {
     s \<leftarrow> send L W e namespace config record (refresh_event startsAt (rec_status record));
     (case s of
        Some er \<Rightarrow> ret (no_result, Some er)
      | None \<Rightarrow> do {
          t \<leftarrow> now e;
          er \<leftarrow> patch_status e record (renewed t (rec_status record));
          ret (with_result (requeue_after alertRefreshInterval) er) }) }"

definition refresh ::
  "ulib \<Rightarrow> weblib \<Rightarrow> env \<Rightarrow> string \<Rightarrow> alertManagerSpec \<Rightarrow> telcoHealthCheckRun \<Rightarrow> (ctrl_result \<times> gerr option) io" where
  "refresh L W e namespace config record =
     (case rr_alertStartsAt (rec_status record) of
        None \<Rightarrow> ret (no_result, None)
      | Some startsAt \<Rightarrow>
          if rr_actionRequired (rec_status record) \<noteq> ''True'' then ret (no_result, None)
          else (case rr_lastAlertSentTime (rec_status record) of
             None \<Rightarrow> resend L W e namespace config record startsAt
           | Some lastSent \<Rightarrow> do {
               t \<leftarrow> now e;
               let until = wrap64 (alertRefreshInterval - time_sub t lastSent);
               if until > 0 then ret (requeue_after until, None)
               else resend L W e namespace config record startsAt }))"

definition deliver ::
  "ulib \<Rightarrow> weblib \<Rightarrow> env \<Rightarrow> string \<Rightarrow> alertManagerSpec \<Rightarrow> telcoHealthCheckRun \<Rightarrow> (ctrl_result \<times> gerr option) io" where
  "deliver L W e namespace config record =
     (if rr_actionRequired (rec_status record) = ''True'' \<and> rr_alertStartsAt (rec_status record) = None
      then start_firing e record
      else (case rr_notifications (rec_status record) of
         event # _ \<Rightarrow> deliver_next L W e namespace config record event
       | [] \<Rightarrow> refresh L W e namespace config record))"

text \<open>The part after the record was read for the second time.\<close>

definition deliver_pass ::
  "ulib \<Rightarrow> weblib \<Rightarrow> env \<Rightarrow> string \<Rightarrow> telcoHealthCheckRun \<Rightarrow> (ctrl_result \<times> gerr option) io" where
  "deliver_pass L W e namespace record = do {
     o1 \<leftarrow> api_get as_thc e Live ThcKind '''' TelcoHealthcheckCanonicalName;
     (case o1 of
        Inl er \<Rightarrow> ret (not_found_result er)
      | Inr owner \<Rightarrow>
          (case sp_alertManager (thc_spec owner) of
             None \<Rightarrow> stop_delivery e record
           | Some config \<Rightarrow> deliver L W e namespace config record)) }"

definition runAlert_Reconcile ::
  "nat \<Rightarrow> ulib \<Rightarrow> (string \<Rightarrow> instant option) \<Rightarrow> weblib \<Rightarrow> env \<Rightarrow> string \<Rightarrow> string \<Rightarrow> string
   \<Rightarrow> (ctrl_result \<times> gerr option) io" where
  "runAlert_Reconcile k L T W e namespace reqNs reqName =
     (if reqNs \<noteq> namespace then ret (no_result, None)
      else do {
        g \<leftarrow> api_get as_record e Live RecordKind reqNs reqName;
        (case g of
           Inl er \<Rightarrow> ret (not_found_result er)
         | Inr record0 \<Rightarrow> do {
             syncErr \<leftarrow> syncHubRunStatus k L T e record0;
             g2 \<leftarrow> api_get as_record e Live RecordKind reqNs reqName;
             (case g2 of
                Inl er \<Rightarrow> ret (not_found_result er)
              | Inr record \<Rightarrow>
                  if syncErr \<noteq> None \<and> rr_notifications (rec_status record) = [] then ret (no_result, syncErr)
                  else deliver_pass L W e namespace record) }) })"

section \<open>Which records an event concerns\<close>

text \<open>
  The watches of the reconciler map an event to requests, pairs of namespace and name. A lookup
  that fails is logged and yields no request.
\<close>

type_synonym request = "string \<times> string"

definition record_requests :: "telcoHealthCheckRun list \<Rightarrow> request list" where
  "record_requests rs = map (\<lambda>r. (om_namespace r, om_name r)) rs"

definition mapHubRunToRecords :: "ulib \<Rightarrow> env \<Rightarrow> string \<Rightarrow> kobj \<Rightarrow> request list io" where
  "mapHubRunToRecords L e namespace obj =
     (case obj of
        KUnstr run \<Rightarrow>
          if om_namespace run \<noteq> AgenticNamespace \<or> sget (om_labels run) ManagedByLabel \<noteq> ManagedByValue
          then ret []
          else (case nested_string L (u_fields run) [''spec'', ''targetCluster''] of (cluster, _, err) \<Rightarrow>
            if err \<or> cluster = '''' then ret []
            else do {
              g \<leftarrow> api_list kRecord e Live RecordKind namespace [(RunKeyLabel, Key cluster (om_name run))];
              ret (case g of
                 Inl er \<Rightarrow> []
               | Inr rs \<Rightarrow> record_requests (filter (\<lambda>r.
                   sget (om_annotations r) HubOriginAnnotation = ''true''
                   \<and> rr_clusterName (rec_status r) = cluster \<and> rr_agenticRunName (rec_status r) = om_name run) rs)) })
      | _ \<Rightarrow> ret [])"

definition mapHubResultToRecords :: "ulib \<Rightarrow> env \<Rightarrow> string \<Rightarrow> kobj \<Rightarrow> request list io" where
  "mapHubResultToRecords L e namespace obj =
     (case obj of
        KUnstr result \<Rightarrow>
          if om_namespace result \<noteq> AgenticNamespace then ret []
          else (case nested_string L (u_fields result) [''spec'', ''agenticRunName''] of (name, _, err) \<Rightarrow>
            if err \<or> name = '''' then ret []
            else do {
              g \<leftarrow> api_get as_unstr e Live AgenticRunKind AgenticNamespace name;
              (case g of
                 Inl er \<Rightarrow> ret []
               | Inr run \<Rightarrow> mapHubRunToRecords L e namespace (KUnstr run)) })
      | _ \<Rightarrow> ret [])"

definition mapHealthcheckToRuns :: "env \<Rightarrow> string \<Rightarrow> request list io" where
  "mapHealthcheckToRuns e namespace = do {
     g \<leftarrow> api_list kRecord e Live RecordKind namespace [];
     ret (case g of Inl er \<Rightarrow> [] | Inr rs \<Rightarrow> record_requests rs) }"

definition mapAlertSecretToRuns :: "env \<Rightarrow> string \<Rightarrow> string \<Rightarrow> string \<Rightarrow> request list io" where
  "mapAlertSecretToRuns e namespace objNs objName = do {
     g \<leftarrow> api_get as_thc e Live ThcKind '''' TelcoHealthcheckCanonicalName;
     (case g of
        Inl er \<Rightarrow> ret []
      | Inr owner \<Rightarrow>
          (case sp_alertManager (thc_spec owner) of
             None \<Rightarrow> ret []
           | Some config \<Rightarrow>
               (case am_credentialsSecret config of
                  None \<Rightarrow> ret []
                | Some cs \<Rightarrow>
                    if objNs \<noteq> namespace \<or> cs_name cs \<noteq> objName then ret []
                    else mapHealthcheckToRuns e namespace))) }"

lemmas [io_run] = agenticRunURL_def authorize_def do_post_def post_alert_def send_def patch_status_def
  stop_delivery_def start_firing_def deliver_next_def resend_def refresh_def deliver_def
  deliver_pass_def runAlert_Reconcile_def mapHubRunToRecords_def mapHubResultToRecords_def mapHealthcheckToRuns_def
  mapAlertSecretToRuns_def

section \<open>The life of an alert as a state machine\<close>

text \<open>
  What may happen to the status of a record: the hub reports something new, delivery is switched
  off, an alert starts, the head of the queue is delivered, a firing alert is renewed, the
  creation is settled, or the API server stores the status, which cuts its times to seconds.
  \<open>runAlert_step\<close> is the part this reconciler does.
\<close>

inductive runAlert_step :: "telcoHealthCheckRunStatus \<Rightarrow> telcoHealthCheckRunStatus \<Rightarrow> bool" where
  observed_same: "rr_actionRequired (observe ct ph su ac st) = rr_actionRequired st
    \<Longrightarrow> runAlert_step st (observe ct ph su ac st)"
| observed_change: "rr_actionRequired (observe ct ph su ac st) \<noteq> rr_actionRequired st
    \<Longrightarrow> runAlert_step st (queue_at (truncate_second t) (rr_actionRequired st) (observe ct ph su ac st))"
| stopped: "runAlert_step st (stopped st)"
| started: "rr_actionRequired st = ''True'' \<Longrightarrow> rr_alertStartsAt st = None \<Longrightarrow> runAlert_step st (started t st)"
| delivered: "rr_notifications st = event # rest \<Longrightarrow> \<not> current_firing st event \<Longrightarrow> runAlert_step st (popped st)"
| delivered_firing: "rr_notifications st = event # rest \<Longrightarrow> current_firing st event
    \<Longrightarrow> runAlert_step st (renewed t (popped st))"
| renewed: "rr_notifications st = [] \<Longrightarrow> rr_actionRequired st = ''True'' \<Longrightarrow> rr_alertStartsAt st = Some s
    \<Longrightarrow> runAlert_step st (renewed t st)"

inductive record_step :: "telcoHealthCheckRunStatus \<Rightarrow> telcoHealthCheckRunStatus \<Rightarrow> bool" where
  alert: "runAlert_step st st' \<Longrightarrow> record_step st st'"
| settle: "record_step (rec_status r) (rec_status (set_phase ph r))"
| stored: "record_step st (stored_status st)"

inductive reachable :: "telcoHealthCheckRunStatus \<Rightarrow> bool" where
  begun: "reachable (pending_status runName clusterName triggeredBy trigger)"
| step: "reachable st \<Longrightarrow> record_step st st' \<Longrightarrow> reachable st'"

inductive_cases runAlert_stepE: "runAlert_step st st'"
inductive_cases record_stepE: "record_step st st'"

text \<open>
  What the queue of a record must look like: notifications of the two kinds alternate, a
  resolution ends in a later second than it starts and belongs to the firing notification before it, the
  newest notification agrees with the action required, and alert times exist only while the action
  is required.
\<close>

definition notification_ok :: "alertNotification \<Rightarrow> bool" where
  "notification_ok n \<longleftrightarrow> (if an_firing n then an_endsAt n = None
     else (case an_endsAt n of None \<Rightarrow> False | Some t \<Rightarrow> truncate_second (an_startsAt n) < truncate_second t))"

definition follows :: "alertNotification \<Rightarrow> alertNotification \<Rightarrow> bool" where
  "follows a b \<longleftrightarrow> an_firing a \<noteq> an_firing b \<and> (an_firing a \<longrightarrow> an_startsAt a = an_startsAt b)"

definition queue_tail_ok :: "telcoHealthCheckRunStatus \<Rightarrow> bool" where
  "queue_tail_ok st \<longleftrightarrow> (rr_notifications st = [] \<or>
     (let n = last (rr_notifications st) in
      if rr_actionRequired st = ''True''
      then an_firing n \<and> rr_alertStartsAt st = Some (an_startsAt n) else \<not> an_firing n))"

definition alert_inv :: "telcoHealthCheckRunStatus \<Rightarrow> bool" where
  "alert_inv st \<longleftrightarrow> list_all notification_ok (rr_notifications st)
     \<and> successively follows (rr_notifications st) \<and> queue_tail_ok st
     \<and> (rr_alertStartsAt st \<noteq> None \<longrightarrow> rr_actionRequired st = ''True'')
     \<and> (rr_lastAlertSentTime st \<noteq> None \<longrightarrow> rr_alertStartsAt st \<noteq> None)"

text \<open>
  The contract of an invariant of records: it holds of the status that \<open>Begin\<close> writes and every
  step keeps it. Whatever has it holds of every reachable status.
\<close>

locale record_invariant =
  fixes I :: "telcoHealthCheckRunStatus \<Rightarrow> bool"
  assumes initial: "I (pending_status runName clusterName triggeredBy trigger)"
    and kept: "I st \<Longrightarrow> runAlert_step st st' \<Longrightarrow> I st'"
    and settled: "I (rec_status r) \<Longrightarrow> I (rec_status (set_phase ph r))"
    and persisted: "I st \<Longrightarrow> I (stored_status st)"
begin

lemma step_keeps: "I st \<Longrightarrow> record_step st st' \<Longrightarrow> I st'"
  by (erule record_stepE) (auto intro: kept settled persisted)

lemma reachable_inv: "reachable st \<Longrightarrow> I st"
  by (induction rule: reachable.induct) (auto intro: initial step_keeps)

end

section \<open>The queue invariant\<close>

lemma observe_fields [simp]:
  "rr_notifications (observe ct ph su ac st) = rr_notifications st"
  "rr_alertStartsAt (observe ct ph su ac st) = rr_alertStartsAt st"
  "rr_lastAlertSentTime (observe ct ph su ac st) = rr_lastAlertSentTime st"
  "rr_agenticRunName (observe ct ph su ac st) = rr_agenticRunName st"
  "rr_clusterName (observe ct ph su ac st) = rr_clusterName st"
  "rr_triggeredBy (observe ct ph su ac st) = rr_triggeredBy st"
  "rr_trigger (observe ct ph su ac st) = rr_trigger st"
  by (simp_all add: observe_def Let_def)

lemma alert_inv_cong:
  "alert_inv st \<Longrightarrow> rr_notifications st' = rr_notifications st \<Longrightarrow> rr_alertStartsAt st' = rr_alertStartsAt st
   \<Longrightarrow> rr_lastAlertSentTime st' = rr_lastAlertSentTime st \<Longrightarrow> rr_actionRequired st' = rr_actionRequired st
   \<Longrightarrow> alert_inv st'"
  by (auto simp: alert_inv_def queue_tail_ok_def Let_def)

lemma successively_snoc:
  "successively P (xs @ [x]) \<longleftrightarrow> successively P xs \<and> (xs = [] \<or> P (last xs) x)"
  by (auto simp: successively_append_iff)

lemma truncate_second_less:
  "s < truncate_second t \<Longrightarrow> truncate_second s < truncate_second t"
  "truncate_second s < truncate_second (s + second)"
  unfolding truncate_second_def by (smt (verit) pos_mod_sign) simp

lemma alert_inv_notify_firing:
  assumes "alert_inv st" "rr_actionRequired st \<noteq> ''True''"
    "rr_notifications st' = rr_notifications st" "rr_actionRequired st' = ''True''"
  shows "alert_inv (notify_firing t st')"
  using assms by (auto simp: alert_inv_def notify_firing_def queue_tail_ok_def notification_ok_def
      follows_def successively_snoc Let_def)

lemma alert_inv_notify_resolved:
  assumes "alert_inv st" "rr_actionRequired st = ''True''" "rr_alertStartsAt st' = rr_alertStartsAt st"
    "rr_notifications st' = rr_notifications st" "rr_actionRequired st' \<noteq> ''True''"
  shows "alert_inv (notify_resolved (truncate_second t) st')"
  using assms by (auto simp: alert_inv_def notify_resolved_def queue_tail_ok_def notification_ok_def
      follows_def successively_snoc Let_def truncate_second_less split: option.splits)

lemma alert_inv_queue_at:
  assumes inv: "alert_inv st" and change: "rr_actionRequired (observe ct ph su ac st) \<noteq> rr_actionRequired st"
  shows "alert_inv (queue_at (truncate_second t) (rr_actionRequired st) (observe ct ph su ac st))"
proof (cases "rr_actionRequired (observe ct ph su ac st) = ''True''")
  case True
  then show ?thesis
    using inv change alert_inv_notify_firing [OF inv, of "observe ct ph su ac st"] by (simp add: queue_at_def)
next
  case False
  show ?thesis
  proof (cases "rr_actionRequired st = ''True''")
    case True
    then show ?thesis
      using False alert_inv_notify_resolved [OF inv True, of "observe ct ph su ac st"] by (simp add: queue_at_def)
  next
    case no: False
    then show ?thesis using False inv by (auto simp: queue_at_def alert_inv_def queue_tail_ok_def Let_def)
  qed
qed

lemma successively_tl: "successively P xs \<Longrightarrow> successively P (tl xs)"
  by (cases xs rule: remdups_adj.cases) auto

lemma alert_inv_popped: "alert_inv st \<Longrightarrow> rr_notifications st \<noteq> [] \<Longrightarrow> alert_inv (popped st)"
  by (cases "rr_notifications st")
    (auto simp: alert_inv_def popped_def queue_tail_ok_def Let_def successively_Cons split: if_splits)

lemma alert_inv_renewed: "alert_inv st \<Longrightarrow> rr_alertStartsAt st = Some s \<Longrightarrow> alert_inv (renewed t st)"
  by (auto simp: alert_inv_def renewed_def queue_tail_ok_def Let_def)

lemma alert_inv_step: "alert_inv st \<Longrightarrow> runAlert_step st st' \<Longrightarrow> alert_inv st'"
proof (erule runAlert_stepE)
  fix ct ph su ac
  assume "alert_inv st" "st' = observe ct ph su ac st" "rr_actionRequired (observe ct ph su ac st) = rr_actionRequired st"
  then show ?thesis by (simp add: alert_inv_cong)
next
  fix ct ph su ac t
  assume "alert_inv st" "rr_actionRequired (observe ct ph su ac st) \<noteq> rr_actionRequired st"
    "st' = queue_at (truncate_second t) (rr_actionRequired st) (observe ct ph su ac st)"
  then show ?thesis by (simp add: alert_inv_queue_at)
next
  assume "st' = stopped st"
  then show ?thesis by (simp add: alert_inv_def stopped_def queue_tail_ok_def)
next
  fix t assume "alert_inv st" "st' = started t st" "rr_actionRequired st = ''True''" "rr_alertStartsAt st = None"
  then show ?thesis
    by (auto simp: alert_inv_def started_def queue_tail_ok_def notification_ok_def Let_def)
next
  fix event rest assume "alert_inv st" "st' = popped st" "rr_notifications st = event # rest"
  then show ?thesis by (simp add: alert_inv_popped)
next
  fix event rest t
  assume "alert_inv st" "st' = renewed t (popped st)" "rr_notifications st = event # rest" "current_firing st event"
  moreover from this have "alert_inv (popped st)" by (simp add: alert_inv_popped)
  moreover from calculation have "rr_alertStartsAt (popped st) = Some (an_startsAt event)"
    by (simp add: current_firing_def popped_def)
  ultimately show ?thesis by (simp add: alert_inv_renewed)
next
  fix t s assume "alert_inv st" "st' = renewed t st" "rr_alertStartsAt st = Some s"
  then show ?thesis by (simp add: alert_inv_renewed)
qed

lemma alert_inv_stored:
  assumes "alert_inv st" shows "alert_inv (stored_status st)"
proof -
  have "notification_ok n \<Longrightarrow> notification_ok (stored_notification n)" for n
    by (auto simp: notification_ok_def stored_notification_def split: option.splits if_splits)
  then have "list_all notification_ok (map stored_notification (rr_notifications st))"
    using assms by (simp add: alert_inv_def list_all_iff)
  moreover have "successively follows (map stored_notification (rr_notifications st))"
    unfolding successively_map using assms
    by (auto simp: alert_inv_def follows_def stored_notification_def elim!: successively_mono)
  moreover have "queue_tail_ok (stored_status st)"
    using assms by (auto simp: alert_inv_def queue_tail_ok_def stored_status_def stored_notification_def
        last_map Let_def split: if_splits)
  ultimately show ?thesis using assms by (auto simp: alert_inv_def stored_status_def)
qed

interpretation queue_inv: record_invariant alert_inv
proof unfold_locales
  show "alert_inv (pending_status runName clusterName triggeredBy trigger)"
    for runName clusterName triggeredBy trigger
    by (simp add: alert_inv_def pending_status_def zero_runStatus_def queue_tail_ok_def)
  show "alert_inv st'" if "alert_inv st" "runAlert_step st st'" for st st'
    using that by (rule alert_inv_step)
  show "alert_inv (rec_status (set_phase ph r))" if "alert_inv (rec_status r)" for ph r
    using that by (rule alert_inv_cong) (simp_all add: set_phase_def)
  show "alert_inv (stored_status st)" if "alert_inv st" for st
    using that by (rule alert_inv_stored)
qed

section \<open>What a pass of the reconciler does\<close>

text \<open>The Alertmanager accepted (2xx) an alert that carries the notification \<open>n\<close> of the record \<open>b\<close>.\<close>

definition endsAt_ok :: "trace \<Rightarrow> alertNotification \<Rightarrow> instant \<Rightarrow> bool" where
  "endsAt_ok v n endsAt \<longleftrightarrow> (if an_firing n then \<exists>t. (Now, t) \<in> set v \<and> endsAt = as_time t + alertLifetime
     else an_endsAt n = Some endsAt)"

definition carries :: "trace \<Rightarrow> http_request \<Rightarrow> telcoHealthCheckRun \<Rightarrow> alertNotification \<Rightarrow> bool" where
  "carries v req b n \<longleftrightarrow> (\<exists>link endsAt. hr_payload req = [outgoing_alert b n link endsAt] \<and> endsAt_ok v n endsAt)"

definition accepted :: "trace \<Rightarrow> telcoHealthCheckRun \<Rightarrow> alertNotification \<Rightarrow> bool" where
  "accepted v b n \<longleftrightarrow> (\<exists>req code. (HttpDo req, RHttp code) \<in> set v \<and> 200 \<le> code \<and> code < 300 \<and> carries v req b n)"

definition configured :: "trace \<Rightarrow> alertManagerSpec option \<Rightarrow> bool" where
  "configured v config \<longleftrightarrow> (\<exists>owner. (Get Live ThcKind '''' TelcoHealthcheckCanonicalName, RObj (KTHC owner)) \<in> set v
     \<and> sp_alertManager (thc_spec owner) = config)"

definition read_live :: "trace \<Rightarrow> telcoHealthCheckRun \<Rightarrow> bool" where
  "read_live v b \<longleftrightarrow> (\<exists>ns name. (Get Live RecordKind ns name, RObj (KRecord b)) \<in> set v)"

text \<open>A header that only states the credentials of the Secret.\<close>

definition header_of_secret :: "string \<Rightarrow> secret \<Rightarrow> bool" where
  "header_of_secret h s \<longleftrightarrow>
     (data_get (sec_data s) ''token'' \<noteq> '''' \<and> h = ''Bearer '' @ data_get (sec_data s) ''token'')
   \<or> (data_get (sec_data s) ''username'' \<noteq> '''' \<and> data_get (sec_data s) ''password'' \<noteq> ''''
      \<and> parse_basic_auth h = Some (data_get (sec_data s) ''username'', data_get (sec_data s) ''password''))"

text \<open>
  A request goes to the configured base URL and follows no redirect; if it carries credentials,
  its URL is an https one and they were read from the configured Secret of the operator's namespace.
\<close>

definition request_ok :: "weblib \<Rightarrow> string \<Rightarrow> alertManagerSpec \<Rightarrow> trace \<Rightarrow> http_request \<Rightarrow> bool" where
  "request_ok W ns config v req \<longleftrightarrow> \<not> hr_followRedirects req \<and> valid_base_url W (am_url config)
     \<and> hr_endpoint req = alert_endpoint config
     \<and> (case hr_authorization req of
          None \<Rightarrow> True
        | Some h \<Rightarrow> (\<exists>p cs s. url_parse W (hr_endpoint req) = Some p \<and> url_scheme p = ''https''
            \<and> am_credentialsSecret config = Some cs
            \<and> (Get Live SecretKind ns (cs_name cs), RObj (KSecret s)) \<in> set v \<and> header_of_secret h s))"

text \<open>No notification is dropped unless delivery is switched off or the Alertmanager took it.\<close>

definition delivery_ok :: "trace \<Rightarrow> telcoHealthCheckRun \<Rightarrow> telcoHealthCheckRunStatus \<Rightarrow> bool" where
  "delivery_ok v b st \<longleftrightarrow>
     ((\<exists>new. rr_notifications st = rr_notifications (rec_status b) @ new)
      \<or> rr_notifications st = [] \<and> configured v None
      \<or> (\<exists>n. rr_notifications (rec_status b) = n # rr_notifications st \<and> accepted v b n))
   \<and> (rr_lastAlertSentTime st \<in> {None, rr_lastAlertSentTime (rec_status b)}
      \<or> (\<exists>n. an_firing n \<and> rr_alertStartsAt (rec_status b) = Some (an_startsAt n) \<and> accepted v b n))"

definition patch_ok :: "trace \<Rightarrow> kobj \<Rightarrow> kobj \<Rightarrow> bool" where
  "patch_ok v x y \<longleftrightarrow> (\<exists>b st. x = KRecord b \<and> y = KRecord (b\<lparr>rec_status := st\<rparr>) \<and> read_live v b
     \<and> runAlert_step (rec_status b) st \<and> delivery_ok v b st)"

definition alert_guard :: "weblib \<Rightarrow> string \<Rightarrow> trace \<Rightarrow> call \<Rightarrow> bool" where
  "alert_guard W ns v c \<longleftrightarrow> (case c of
       Get s _ _ _ \<Rightarrow> s = Live
     | Now \<Rightarrow> True
     | HttpDo req \<Rightarrow> (\<exists>config. configured v (Some config) \<and> request_ok W ns config v req)
     | StatusPatch x y \<Rightarrow> patch_ok v x y
     | _ \<Rightarrow> False)"

definition send_guard :: "weblib \<Rightarrow> string \<Rightarrow> alertManagerSpec \<Rightarrow> trace \<Rightarrow> call \<Rightarrow> bool" where
  "send_guard W ns config v c \<longleftrightarrow> (case c of
       Get s _ _ _ \<Rightarrow> s = Live
     | Now \<Rightarrow> True
     | HttpDo req \<Rightarrow> request_ok W ns config v req
     | _ \<Rightarrow> False)"

text \<open>All of it can only become true as the trace grows.\<close>

named_theorems trace_mono

lemma endsAt_ok_mono: "endsAt_ok v n t \<Longrightarrow> set v \<subseteq> set w \<Longrightarrow> endsAt_ok w n t"
  unfolding endsAt_ok_def by (auto split: if_splits)

lemma carries_mono: "carries v req b n \<Longrightarrow> set v \<subseteq> set w \<Longrightarrow> carries w req b n"
  unfolding carries_def using endsAt_ok_mono by blast

lemma accepted_mono [trace_mono]: "accepted v b n \<Longrightarrow> set v \<subseteq> set w \<Longrightarrow> accepted w b n"
  unfolding accepted_def using carries_mono by blast

lemma configured_mono [trace_mono]: "configured v c \<Longrightarrow> set v \<subseteq> set w \<Longrightarrow> configured w c"
  unfolding configured_def by blast

lemma read_live_mono [trace_mono]: "read_live v b \<Longrightarrow> set v \<subseteq> set w \<Longrightarrow> read_live w b"
  unfolding read_live_def by blast

lemma request_ok_mono [trace_mono]:
  "request_ok W ns config v req \<Longrightarrow> set v \<subseteq> set w \<Longrightarrow> request_ok W ns config w req"
  unfolding request_ok_def by (auto split: option.splits) blast

lemma delivery_ok_mono: "delivery_ok v b st \<Longrightarrow> set v \<subseteq> set w \<Longrightarrow> delivery_ok w b st"
  unfolding delivery_ok_def by (meson accepted_mono configured_mono)

lemma alert_guard_mono [trace_mono]: "alert_guard W ns v c \<Longrightarrow> set v \<subseteq> set w \<Longrightarrow> alert_guard W ns w c"
  unfolding alert_guard_def patch_ok_def
  by (cases c) (auto intro: trace_mono delivery_ok_mono; meson trace_mono delivery_ok_mono)+

lemma alert_guard_stable: "stable (alert_guard W ns)"
  unfolding stable_def by (auto intro: alert_guard_mono)

text \<open>Sending.\<close>

lemma secret_authorization_header:
  "secret_authorization authType ns name s = Inr (Some h) \<Longrightarrow> header_of_secret h s"
  by (auto simp: secret_authorization_def header_of_secret_def Let_def basic_auth_read_back split: if_splits)

lemma secret_authorization_some: "secret_authorization authType ns name s \<noteq> Inr None"
  by (simp add: secret_authorization_def Let_def)

definition header_ok :: "string \<Rightarrow> alertManagerSpec \<Rightarrow> go_url \<Rightarrow> trace \<Rightarrow> string \<Rightarrow> bool" where
  "header_ok ns config p v h \<longleftrightarrow> url_scheme p = ''https'' \<and> (\<exists>cs s. am_credentialsSecret config = Some cs
     \<and> (Get Live SecretKind ns (cs_name cs), RObj (KSecret s)) \<in> set v \<and> header_of_secret h s)"

lemma authorize_spec:
  "spec (authorize e ns p config) (\<lambda>x u. guarded (send_guard W ns config) u
     \<and> (\<forall>h. x = Inr (Some h) \<longrightarrow> header_ok ns config p u h))"
  unfolding authorize_def
  by (intro io_spec) (auto simp: send_guard_def header_ok_def as_secret_Inr
      dest: secret_authorization_header split: sum.splits)

lemma send_guard_mono: "send_guard W ns config v c \<Longrightarrow> set v \<subseteq> set w \<Longrightarrow> send_guard W ns config w c"
  unfolding send_guard_def by (cases c) (auto intro: request_ok_mono)

lemma send_guard_stable: "stable (send_guard W ns config)"
  unfolding stable_def by (auto intro: send_guard_mono)

definition posted :: "trace \<Rightarrow> http_alert \<Rightarrow> bool" where
  "posted u a \<longleftrightarrow> (\<exists>req code. (HttpDo req, RHttp code) \<in> set u \<and> 200 \<le> code \<and> code < 300 \<and> hr_payload req = [a])"

lemma do_post_spec:
  "spec (do_post e req) (\<lambda>x u. \<exists>r. u = [(HttpDo req, r)]
     \<and> (x = None \<longrightarrow> (\<exists>code. r = RHttp code \<and> 200 \<le> code \<and> code < 300)))"
  unfolding do_post_def by (intro io_spec) (auto split: resp.splits)

lemma posted_snoc:
  "200 \<le> code \<Longrightarrow> code < 300 \<Longrightarrow> hr_payload req = [a] \<Longrightarrow> posted (u @ [(HttpDo req, RHttp code)]) a"
  unfolding posted_def by auto

lemma post_alert_spec:
  assumes "valid_base_url W (am_url config)"
  shows "spec (post_alert W e ns config a)
     (\<lambda>x u. guarded (send_guard W ns config) u \<and> (x = None \<longrightarrow> posted u a))"
  unfolding post_alert_def
proof (intro spec_if spec_ret spec_option spec_bind; (simp; fail)?)
  fix p assume p: "url_parse W (alert_endpoint config) = Some p"
  have "spec (do_post e (alert_request config header a))
      (\<lambda>x v. guarded (send_guard W ns config) (u @ v) \<and> (x = None \<longrightarrow> posted (u @ v) a))"
    if u: "guarded (send_guard W ns config) u" "\<forall>h. header = Some h \<longrightarrow> header_ok ns config p u h" for header u
  proof (rule spec_conseq [OF do_post_spec])
    have "request_ok W ns config u (alert_request config header a)"
      using u assms p by (auto simp: request_ok_def header_ok_def alert_request_def split: option.splits)
    then show "guarded (send_guard W ns config) (u @ v) \<and> (x = None \<longrightarrow> posted (u @ v) a)"
      if "\<exists>r. v = [(HttpDo (alert_request config header a), r)]
        \<and> (x = None \<longrightarrow> (\<exists>code. r = RHttp code \<and> 200 \<le> code \<and> code < 300))" for x :: "gerr option" and v
      using u(1) that by (auto simp: guarded_append_iff send_guard_def alert_request_def intro!: posted_snoc)
  qed
  then show "spec (authorize e ns p config) (\<lambda>auth u. spec (case auth of Inl er \<Rightarrow> ret (Some er)
      | Inr header \<Rightarrow> do_post e (alert_request config header a))
      (\<lambda>x v. guarded (send_guard W ns config) (u @ v) \<and> (x = None \<longrightarrow> posted (u @ v) a)))"
    by (intro spec_conseq [OF authorize_spec [where W = W]] spec_sum spec_ret) auto
qed

lemma posted_accepted:
  assumes "posted u (outgoing_alert b n link endsAt)" "set u \<subseteq> set v" "endsAt_ok v n endsAt"
  shows "accepted v b n"
  using assms unfolding posted_def accepted_def carries_def by blast

lemma send_spec:
  "spec (send L W e ns config record event)
     (\<lambda>x u. guarded (send_guard W ns config) u \<and> (x = None \<longrightarrow> accepted u record event))"
proof (cases "valid_base_url W (am_url config)")
  case False
  then show ?thesis by (simp add: send_def spec_ret)
next
  case True
  have post: "spec (post_alert W e ns config (outgoing_alert record event link endsAt))
      (\<lambda>x u. guarded (send_guard W ns config) (h @ u) \<and> (x = None \<longrightarrow> accepted (h @ u) record event))"
    if h: "guarded (send_guard W ns config) h" "endsAt_ok h event endsAt" for h link endsAt
  proof (rule spec_conseq [OF post_alert_spec [OF True]])
    fix x :: "gerr option" and u :: trace
    assume u: "guarded (send_guard W ns config) u
      \<and> (x = None \<longrightarrow> posted u (outgoing_alert record event link endsAt))"
    have "endsAt_ok (h @ u) event endsAt" using h(2) by (rule endsAt_ok_mono) simp
    with u h(1) show "guarded (send_guard W ns config) (h @ u) \<and> (x = None \<longrightarrow> accepted (h @ u) record event)"
      by (auto intro: guarded_append [OF send_guard_stable] posted_accepted)
  qed
  have "spec (do {
        t \<leftarrow> now e;
        if an_firing event then post_alert W e ns config (outgoing_alert record event link (t + alertLifetime))
        else (case an_endsAt event of
           None \<Rightarrow> ret (Some er)
         | Some endsAt \<Rightarrow> post_alert W e ns config (outgoing_alert record event link endsAt)) })
      (\<lambda>x v. guarded (send_guard W ns config) ([(Get Live k n m, r)] @ v)
        \<and> (x = None \<longrightarrow> accepted ([(Get Live k n m, r)] @ v) record event))" for link er k n m r
  proof (intro spec_bind spec_now spec_if spec_option spec_ret)
    fix tr
    let ?h = "[(Get Live k n m, r), (Now, tr)]"
    have h: "guarded (send_guard W ns config) ?h" by (simp add: send_guard_def)
    show "spec (post_alert W e ns config (outgoing_alert record event link (as_time tr + alertLifetime)))
      (\<lambda>x v. guarded (send_guard W ns config) ([(Get Live k n m, r)] @ [(Now, tr)] @ v)
        \<and> (x = None \<longrightarrow> accepted ([(Get Live k n m, r)] @ [(Now, tr)] @ v) record event))" if "an_firing event"
      using post [OF h] that by (auto simp: endsAt_ok_def simp del: as_time_def)
    show "spec (post_alert W e ns config (outgoing_alert record event link endsAt))
      (\<lambda>x v. guarded (send_guard W ns config) ([(Get Live k n m, r)] @ [(Now, tr)] @ v)
        \<and> (x = None \<longrightarrow> accepted ([(Get Live k n m, r)] @ [(Now, tr)] @ v) record event))"
      if "\<not> an_firing event" "an_endsAt event = Some endsAt" for endsAt
      using post [OF h] that by (auto simp: endsAt_ok_def)
    show "guarded (send_guard W ns config) ([(Get Live k n m, r)] @ [(Now, tr)] @ [])
        \<and> (Some er = None \<longrightarrow> accepted ([(Get Live k n m, r)] @ [(Now, tr)] @ []) record event)"
      using h by simp
  qed
  note tail = this
  have url: "spec (agenticRunURL L W e n)
      (\<lambda>link u. \<exists>r. u = [(Get Live RouteKind hubConsoleNamespace hubConsoleRouteName, r)])" for n
    unfolding agenticRunURL_def by (intro io_spec) auto
  show ?thesis
    unfolding send_def
    by (rule spec_if, use True in simp, rule spec_bind, rule spec_conseq [OF url], elim exE, hypsubst)
      (rule tail)
qed

text \<open>Synchronising.\<close>

lemma patch_okI:
  "read_live v b \<Longrightarrow> runAlert_step (rec_status b) st \<Longrightarrow> delivery_ok v b st
   \<Longrightarrow> patch_ok v (KRecord b) (KRecord (b\<lparr>rec_status := st\<rparr>))"
  unfolding patch_ok_def by blast

lemma queue_at_appends:
  "\<exists>new. rr_notifications (queue_at t old st) = rr_notifications st @ new"
  "rr_lastAlertSentTime (queue_at t old st) \<in> {None, rr_lastAlertSentTime st}"
  by (simp_all add: queue_at_def notify_firing_def notify_resolved_def Let_def)

lemma delivery_ok_observe: "delivery_ok v b (observe ct ph su ac (rec_status b))"
  by (simp add: delivery_ok_def)

lemma delivery_ok_queue_at: "delivery_ok v b (queue_at t old (observe ct ph su ac (rec_status b)))"
  using queue_at_appends [of t old "observe ct ph su ac (rec_status b)"] by (simp add: delivery_ok_def)

lemma sync_attempt_spec:
  "spec (sync_attempt e ns name cluster runName ct ph su ac) (\<lambda>_ u. guarded (alert_guard W ns0) u)"
proof -
  have ok: "patch_ok (v @ (Get Live RecordKind ns name, RObj (KRecord b)) # w) (KRecord b) (KRecord (b\<lparr>rec_status := st\<rparr>))"
    if "runAlert_step (rec_status b) st" "\<And>v. delivery_ok v b st" for v w b st
    using that by (intro patch_okI) (auto simp: read_live_def)
  note ok1 = ok [where v = "[]", simplified]
  show ?thesis
    unfolding sync_attempt_def queueActionAlert_def Let_def
    by (intro io_spec)
      (auto simp: alert_guard_def as_record_Inr simp del: as_time_def
        intro!: ok1 runAlert_step.observed_same runAlert_step.observed_change delivery_ok_observe delivery_ok_queue_at)
qed

lemma sync_loop_spec:
  "spec (retry_on_conflict k (sync_attempt e ns name cluster runName ct ph su ac))
     (\<lambda>_ u. guarded (alert_guard W ns0) u)"
  by (rule spec_retry [OF sync_attempt_spec]) (auto intro: guarded_append [OF alert_guard_stable])

lemma latest_result_spec: "spec (latest_result L e run) (\<lambda>_ u. guarded (alert_guard W ns0) u)"
  unfolding latest_result_def Let_def by (intro io_spec) (simp_all add: alert_guard_def)

lemma live_get_spec: "spec (api_get dec e Live kd n m) (\<lambda>_ u. guarded (alert_guard W ns0) u)"
  by (intro io_spec) (simp add: alert_guard_def)

lemma syncHubRunStatus_spec: "spec (syncHubRunStatus k L T e record) (\<lambda>_ u. guarded (alert_guard W ns0) u)"
  unfolding syncHubRunStatus_def
  by (intro spec_if spec_bind_guarded alert_guard_stable live_get_spec spec_sum spec_prod spec_ret
      latest_result_spec sync_loop_spec guarded_Nil)

text \<open>Delivering, after the configuration was read.\<close>

lemma send_guard_alert_guard:
  "configured h (Some config) \<Longrightarrow> set h \<subseteq> set w \<Longrightarrow> send_guard W ns config v c \<Longrightarrow> set v \<subseteq> set w
   \<Longrightarrow> alert_guard W ns w c"
  unfolding send_guard_def alert_guard_def
  by (cases c) (auto intro: request_ok_mono configured_mono)

lemma send_guarded:
  assumes "configured h (Some config)" "guarded (send_guard W ns config) u"
  shows "guarded (\<lambda>v. alert_guard W ns (h @ v)) u"
  using assms(2) by (rule guarded_mono) (rule send_guard_alert_guard [OF assms(1)], auto)

lemma patch_status_spec:
  assumes "read_live h b" "runAlert_step (rec_status b) st" "delivery_ok h b st"
  shows "spec (do { er \<leftarrow> patch_status e b st; ret (f er) }) (\<lambda>_ u. guarded (\<lambda>v. alert_guard W ns (h @ v)) u)"
  unfolding patch_status_def using assms by (intro io_spec) (simp add: alert_guard_def patch_okI)

lemma stop_delivery_spec:
  assumes "read_live h record" "configured h None"
  shows "spec (stop_delivery e record) (\<lambda>_ u. guarded (\<lambda>v. alert_guard W ns (h @ v)) u)"
proof -
  have "delivery_ok h record (stopped (rec_status record))"
    using assms by (simp add: delivery_ok_def stopped_def)
  then show ?thesis
    unfolding stop_delivery_def Let_def
    by (intro spec_if spec_ret patch_status_spec [OF assms(1) runAlert_step.stopped]) simp_all
qed

text \<open>A reading of the clock before the rest.\<close>

lemma spec_now_guarded:
  assumes "\<And>r. spec (f (as_time r)) (\<lambda>_ u. guarded (\<lambda>v. alert_guard W ns ((h @ [(Now, r)]) @ v)) u)"
  shows "spec (State_Monad.bind (now e) f) (\<lambda>_ u. guarded (\<lambda>v. alert_guard W ns (h @ v)) u)"
  by (intro spec_bind spec_now spec_conseq [OF assms]) (simp add: alert_guard_def)

lemma start_firing_spec:
  assumes "read_live h record" "rr_actionRequired (rec_status record) = ''True''"
    "rr_alertStartsAt (rec_status record) = None"
  shows "spec (start_firing e record) (\<lambda>_ u. guarded (\<lambda>v. alert_guard W ns (h @ v)) u)"
  unfolding start_firing_def using assms
  by (intro spec_now_guarded patch_status_spec runAlert_step.started)
    (auto simp: delivery_ok_def started_def intro: read_live_mono)

lemma send_then:
  assumes "configured h (Some config)"
    and "\<And>u. accepted (h @ u) record event \<Longrightarrow> spec m (\<lambda>_ v. guarded (\<lambda>w. alert_guard W ns ((h @ u) @ w)) v)"
  shows "spec (do {
      s \<leftarrow> send L W e ns config record event;
      (case s of Some er \<Rightarrow> ret (no_result, Some er) | None \<Rightarrow> m) })
    (\<lambda>_ u. guarded (\<lambda>v. alert_guard W ns (h @ v)) u)"
proof (rule spec_bind, rule spec_conseq [OF send_spec])
  fix s :: "gerr option" and u :: trace
  assume u: "guarded (send_guard W ns config) u \<and> (s = None \<longrightarrow> accepted u record event)"
  then have g: "guarded (\<lambda>v. alert_guard W ns (h @ v)) u" using send_guarded [OF assms(1)] by blast
  show "spec (case s of Some er \<Rightarrow> ret (no_result, Some er) | None \<Rightarrow> m)
      (\<lambda>_ v. guarded (\<lambda>w. alert_guard W ns (h @ w)) (u @ v))"
  proof (rule spec_option)
    show "spec (ret (no_result, Some er)) (\<lambda>_ v. guarded (\<lambda>w. alert_guard W ns (h @ w)) (u @ v))" for er
      using g by (intro spec_ret) simp
  next
    assume "s = None"
    then have "accepted (h @ u) record event" using u by (auto intro: accepted_mono)
    from assms(2) [OF this] show "spec m (\<lambda>_ v. guarded (\<lambda>w. alert_guard W ns (h @ w)) (u @ v))"
      by (rule spec_conseq) (simp add: guarded_append_iff g)
  qed
qed

lemma read_live_snoc: "read_live v b \<Longrightarrow> read_live (v @ w) b"
  by (erule read_live_mono) simp

lemma delivery_ok_popped:
  assumes "accepted v b event" "set v \<subseteq> set w" "rr_notifications (rec_status b) = event # rest"
  shows "delivery_ok w b (popped (rec_status b))"
    "current_firing (rec_status b) event \<Longrightarrow> delivery_ok w b (renewed t (popped (rec_status b)))"
  using accepted_mono [OF assms(1,2)] assms(3)
  by (auto simp: delivery_ok_def popped_def renewed_def current_firing_def)

lemma delivery_ok_renewed:
  assumes "accepted v b (refresh_event s st)" "set v \<subseteq> set w" "rr_alertStartsAt (rec_status b) = Some s"
  shows "delivery_ok w b (renewed t (rec_status b))"
  using accepted_mono [OF assms(1,2)] assms(3)
  by (auto simp: delivery_ok_def renewed_def refresh_event_def)

lemma deliver_next_spec:
  assumes h: "configured h (Some config)" "read_live h record"
    and ev: "rr_notifications (rec_status record) = event # rest"
  shows "spec (deliver_next L W e ns config record event) (\<lambda>_ u. guarded (\<lambda>v. alert_guard W ns (h @ v)) u)"
  unfolding deliver_next_def
proof (rule send_then [OF h(1)])
  fix u assume acc: "accepted (h @ u) record event"
  show "spec (do {
      st \<leftarrow> (if current_firing (rec_status record) event
             then do { t \<leftarrow> now e; ret (renewed t (popped (rec_status record))) }
             else ret (popped (rec_status record)));
      er \<leftarrow> patch_status e record st;
      ret (with_result requeue_now er) })
    (\<lambda>_ v. guarded (\<lambda>w. alert_guard W ns ((h @ u) @ w)) v)"
  proof (cases "current_firing (rec_status record) event")
    case True
    then show ?thesis
      using h ev by (simp only: if_True bind_assoc bind_left_identity)
        (intro spec_now_guarded patch_status_spec runAlert_step.delivered_firing read_live_snoc
          delivery_ok_popped(2) [OF acc _ ev]; auto)
  next
    case False
    then show ?thesis
      using h ev by (simp only: if_False bind_assoc bind_left_identity)
        (intro patch_status_spec runAlert_step.delivered read_live_snoc delivery_ok_popped(1) [OF acc _ ev]; simp)
  qed
qed

lemma resend_spec:
  assumes h: "configured h (Some config)" "read_live h record" and st: "rr_notifications (rec_status record) = []"
    "rr_actionRequired (rec_status record) = ''True''" "rr_alertStartsAt (rec_status record) = Some s"
  shows "spec (resend L W e ns config record s) (\<lambda>_ u. guarded (\<lambda>v. alert_guard W ns (h @ v)) u)"
  unfolding resend_def
proof (rule send_then [OF h(1)])
  fix u assume acc: "accepted (h @ u) record (refresh_event s (rec_status record))"
  show "spec (do {
      t \<leftarrow> now e;
      er \<leftarrow> patch_status e record (renewed t (rec_status record));
      ret (with_result (requeue_after alertRefreshInterval) er) })
    (\<lambda>_ v. guarded (\<lambda>w. alert_guard W ns ((h @ u) @ w)) v)"
    using h st by (intro spec_now_guarded patch_status_spec runAlert_step.renewed read_live_snoc
        delivery_ok_renewed [OF acc]; auto)
qed

lemma refresh_spec:
  assumes h: "configured h (Some config)" "read_live h record" and st: "rr_notifications (rec_status record) = []"
  shows "spec (refresh L W e ns config record) (\<lambda>_ u. guarded (\<lambda>v. alert_guard W ns (h @ v)) u)"
  unfolding refresh_def Let_def using assms
  by (intro spec_option spec_if spec_ret spec_now_guarded resend_spec guarded_Nil)
    (auto intro: read_live_snoc configured_mono)

lemma deliver_spec:
  assumes h: "configured h (Some config)" "read_live h record"
  shows "spec (deliver L W e ns config record) (\<lambda>_ u. guarded (\<lambda>v. alert_guard W ns (h @ v)) u)"
  unfolding deliver_def using assms
  by (intro spec_if spec_list start_firing_spec deliver_next_spec refresh_spec) auto

text \<open>The whole pass: what follows the two reads of the record, then everything.\<close>

lemma deliver_pass_spec:
  "spec (deliver_pass L W e ns record)
     (\<lambda>_ u. guarded (\<lambda>v. alert_guard W ns ((Get Live RecordKind n m, RObj (KRecord record)) # v)) u)"
proof -
  let ?h = "\<lambda>owner. [(Get Live RecordKind n m, RObj (KRecord record)),
     (Get Live ThcKind '''' TelcoHealthcheckCanonicalName, RObj (KTHC owner))]"
  have rd: "read_live (?h owner) record" for owner by (auto simp: read_live_def)
  have cf: "configured (?h owner) (sp_alertManager (thc_spec owner))" for owner by (auto simp: configured_def)
  have "spec (case sp_alertManager (thc_spec owner) of None \<Rightarrow> stop_delivery e record
        | Some config \<Rightarrow> deliver L W e ns config record)
      (\<lambda>_ u. guarded (\<lambda>v. alert_guard W ns (?h owner @ v)) u)" for owner
    using rd [of owner] cf [of owner] by (intro spec_option stop_delivery_spec deliver_spec) simp_all
  then show ?thesis
    unfolding deliver_pass_def
    by (intro spec_bind spec_api_get spec_sum spec_ret) (auto simp: alert_guard_def as_thc_Inr elim!: spec_conseq)
qed

lemma runAlert_Reconcile_spec:
  "spec (runAlert_Reconcile k L T W e ns reqNs reqName) (\<lambda>_ u. guarded (alert_guard W ns) u)"
proof -
  have "spec (do {
      g2 \<leftarrow> api_get as_record e Live RecordKind reqNs reqName;
      (case g2 of
         Inl er \<Rightarrow> ret (not_found_result er)
       | Inr record \<Rightarrow>
           if syncErr \<noteq> None \<and> rr_notifications (rec_status record) = [] then ret (no_result, syncErr)
           else deliver_pass L W e ns record) })
    (\<lambda>_ u. guarded (alert_guard W ns) u)" for syncErr
    by (intro spec_bind spec_api_get spec_sum spec_if spec_ret)
      (auto simp: alert_guard_def [of _ _ "[]"] as_record_Inr intro!: spec_conseq [OF deliver_pass_spec])
  note rest = this
  show ?thesis
    unfolding runAlert_Reconcile_def
    by (rule spec_if, rule spec_ret, simp, rule spec_bind_guarded [OF alert_guard_stable live_get_spec],
        rule spec_sum, rule spec_ret, simp, rule spec_bind_guarded [OF alert_guard_stable syncHubRunStatus_spec],
        rule rest)
qed

section \<open>Properties of delivery\<close>

definition patch_is_step :: "trace \<Rightarrow> call \<Rightarrow> bool" where
  "patch_is_step v c \<longleftrightarrow> (case c of
       StatusPatch x y \<Rightarrow> (\<exists>b st. x = KRecord b \<and> y = KRecord (b\<lparr>rec_status := st\<rparr>)
         \<and> read_live v b \<and> runAlert_step (rec_status b) st)
     | Get s _ _ _ \<Rightarrow> s = Live
     | Now \<Rightarrow> True
     | HttpDo _ \<Rightarrow> True
     | _ \<Rightarrow> False)"

text \<open>
  C6. The reconciler of the records implements the alert state machine: its only writes are status
  patches with a record it read from the API server as their base, and each of them is one step of
  the machine, whatever the hub answers.
\<close>

theorem runAlert_refines:
  "\<exists>u. snd (run_state (runAlert_Reconcile k L T W e ns reqNs reqName) t) = t @ u \<and> guarded patch_is_step u"
proof -
  obtain u where "snd (run_state (runAlert_Reconcile k L T W e ns reqNs reqName) t) = t @ u"
    "guarded (alert_guard W ns) u" by (rule specD [OF runAlert_Reconcile_spec])
  moreover have "guarded patch_is_step u" using calculation(2)
    by (rule guarded_mono) (auto simp: alert_guard_def patch_is_step_def patch_ok_def split: call.splits)
  ultimately show ?thesis by blast
qed

definition notifications_kept :: "trace \<Rightarrow> call \<Rightarrow> bool" where
  "notifications_kept v c \<longleftrightarrow> (case c of
       StatusPatch (KRecord b) (KRecord a) \<Rightarrow> delivery_ok v b (rec_status a)
     | _ \<Rightarrow> True)"

text \<open>
  C7. No notification is lost or counted as sent without a delivery: a patch drops the head of the
  queue only after the Alertmanager answered 2xx to a POST of exactly that notification, drops
  the whole queue only after it read a configuration without Alertmanager, and moves the time of
  the last delivery only after such a POST; all other patches keep or extend the queue.
\<close>

theorem notifications_delivered:
  "\<exists>u. snd (run_state (runAlert_Reconcile k L T W e ns reqNs reqName) t) = t @ u \<and> guarded notifications_kept u"
proof -
  obtain u where "snd (run_state (runAlert_Reconcile k L T W e ns reqNs reqName) t) = t @ u"
    "guarded (alert_guard W ns) u" by (rule specD [OF runAlert_Reconcile_spec])
  moreover have "guarded notifications_kept u" using calculation(2)
    by (rule guarded_mono) (auto simp: alert_guard_def notifications_kept_def patch_ok_def
        split: call.splits kobj.splits)
  ultimately show ?thesis by blast
qed

definition requests_safe :: "weblib \<Rightarrow> string \<Rightarrow> trace \<Rightarrow> call \<Rightarrow> bool" where
  "requests_safe W ns v c \<longleftrightarrow> (case c of
       HttpDo req \<Rightarrow> (\<exists>config. configured v (Some config) \<and> request_ok W ns config v req)
     | _ \<Rightarrow> True)"

text \<open>
  C18. Credentials stay where they belong: every request goes to the Alertmanager of the
  configuration that was read before and follows no redirect; a request with an Authorization
  header has an https URL, and the header states the credentials of the configured Secret in the
  operator's own namespace.
\<close>

theorem credentials_protected:
  "\<exists>u. snd (run_state (runAlert_Reconcile k L T W e ns reqNs reqName) t) = t @ u \<and> guarded (requests_safe W ns) u"
proof -
  obtain u where "snd (run_state (runAlert_Reconcile k L T W e ns reqNs reqName) t) = t @ u"
    "guarded (alert_guard W ns) u" by (rule specD [OF runAlert_Reconcile_spec])
  moreover have "guarded (requests_safe W ns) u" using calculation(2)
    by (rule guarded_mono) (auto simp: alert_guard_def requests_safe_def split: call.splits)
  ultimately show ?thesis by blast
qed

text \<open>
  C14. Every status a record can reach, also through the API server that cuts its times to whole
  seconds, has a well-formed queue: firing and resolved notifications alternate, a resolution ends
  in a later second than it starts and carries the start of the firing notification before it, the
  newest one agrees with the required action, and an alert start or delivery time is kept only
  while the action is required.
\<close>

theorem reachable_queue_ok: "reachable st \<Longrightarrow> alert_inv st"
  by (rule queue_inv.reachable_inv)

definition sample_firing :: telcoHealthCheckRunStatus where
  "sample_firing = queue_at (truncate_second 1500000000) ''''
     (observe ''Analyzed'' ''AnalysisComplete'' ''link down'' ''True''
        (pending_status ''run'' ''spoke'' ''alert'' ''LinkDown''))"

lemma sample_firing_reachable: "reachable sample_firing"
  unfolding sample_firing_def
proof (rule reachable.step [OF reachable.begun], rule record_step.alert)
  let ?st = "pending_status ''run'' ''spoke'' ''alert'' ''LinkDown''"
  have "rr_actionRequired ?st = ''''" by (simp add: pending_status_def zero_runStatus_def)
  moreover have "rr_actionRequired (observe ''Analyzed'' ''AnalysisComplete'' ''link down'' ''True'' ?st) \<noteq> rr_actionRequired ?st"
    by (simp add: pending_status_def zero_runStatus_def observe_def Let_def)
  ultimately show "runAlert_step ?st (queue_at (truncate_second 1500000000) ''''
      (observe ''Analyzed'' ''AnalysisComplete'' ''link down'' ''True'' ?st))"
    using runAlert_step.observed_change [of "''Analyzed''" "''AnalysisComplete''" "''link down''" "''True''" ?st] by simp
qed

theorem reachable_queue_ok_witness:
  "alert_inv sample_firing \<and> map an_startsAt (rr_notifications sample_firing) = [1000000000]"
  using reachable_queue_ok [OF sample_firing_reachable]
  by (simp add: sample_firing_def queue_at_def notify_firing_def observe_def Let_def truncate_second_def
      pending_status_def zero_runStatus_def)

text \<open>
  The credentials of a Basic header are exactly those of the Secret: the receiver decodes the
  header to the stored user name and password, and the Secret is refused if it could not.
\<close>

theorem basic_credentials_roundtrip:
  "case secret_authorization AlertManagerAuthBasic ns name s of
     Inl er \<Rightarrow> data_get (sec_data s) ''username'' = '''' \<or> data_get (sec_data s) ''password'' = ''''
       \<or> CHR '':'' \<in> set (data_get (sec_data s) ''username'')
   | Inr None \<Rightarrow> False
   | Inr (Some h) \<Rightarrow> parse_basic_auth h
       = Some (data_get (sec_data s) ''username'', data_get (sec_data s) ''password'')"
  by (auto simp: secret_authorization_def AlertManagerAuthBasic_def AlertManagerAuthBearer_def Let_def
      basic_auth_read_back)

text \<open>
  A replayed event queues nothing: once the status that a synchronisation computes is stored,
  another one that observes the same condition, summary and action only reads the record.
\<close>

theorem sync_replay:
  "run_state (sync_attempt (\<lambda>_ _. RObj (KRecord (b\<lparr>rec_status :=
       queue_at s (rr_actionRequired (rec_status b)) (observe ct ph su ac (rec_status b))\<rparr>)))
     ns name cluster runName ct ph su ac) t
   = (None, t @ [(Get Live RecordKind ns name, RObj (KRecord (b\<lparr>rec_status :=
       queue_at s (rr_actionRequired (rec_status b)) (observe ct ph su ac (rec_status b))\<rparr>)))])"
proof -
  have "observe ct ph su ac (queue_at s old (observe ct ph su ac st)) = queue_at s old (observe ct ph su ac st)"
    for old st
    by (simp add: queue_at_def notify_firing_def notify_resolved_def observe_def Let_def)
  then show ?thesis by (simp add: sync_attempt_def api_get_def)
qed

section \<open>A firing alert is renewed\<close>

text \<open>
  The queue wakes the reconciler again, at the latest after the refresh interval unless the clock
  went back behind the last delivery.
\<close>

definition wakes_up :: "telcoHealthCheckRun \<Rightarrow> trace \<Rightarrow> ctrl_result \<Rightarrow> bool" where
  "wakes_up record u res \<longleftrightarrow> res_requeue res \<or> 0 < res_after res \<and>
     (res_after res \<le> alertRefreshInterval
      \<or> (\<exists>r s. (Now, r) \<in> set u \<and> rr_lastAlertSentTime (rec_status record) = Some s \<and> as_time r < s))"

lemma send_any: "spec (send L W e ns config record event) (\<lambda>_ _. True)"
  by (rule spec_conseq [OF send_spec]) simp

text \<open>All but one branch ask for the next pass at once or after the refresh interval.\<close>

definition soon :: "ctrl_result \<times> gerr option \<Rightarrow> bool" where
  "soon x \<longleftrightarrow> (snd x = None \<longrightarrow> fst x \<in> {requeue_now, requeue_after alertRefreshInterval})"

lemma soon_simps [simp]:
  "soon (res, Some x)" "soon (with_result requeue_now er)"
  "soon (with_result (requeue_after alertRefreshInterval) er)"
  by (simp_all add: soon_def with_result_def split: option.splits)

lemma soon_wakes: "soon x \<Longrightarrow> snd x = None \<Longrightarrow> wakes_up record u (fst x)"
  by (auto simp: soon_def wakes_up_def requeue_now_def requeue_after_def alertRefreshInterval_def)

lemma start_firing_soon: "spec (start_firing e record) (\<lambda>x _. soon x)"
  unfolding start_firing_def patch_status_def by (intro io_spec) simp

lemma deliver_next_soon: "spec (deliver_next L W e ns config record event) (\<lambda>x _. soon x)"
  unfolding deliver_next_def patch_status_def by (intro io_spec spec_conseq [OF send_any]) simp_all

lemma resend_soon: "spec (resend L W e ns config record s) (\<lambda>x _. soon x)"
  unfolding resend_def patch_status_def by (intro io_spec spec_conseq [OF send_any]) simp_all

lemma until_wakes:
  assumes "0 < wrap64 (alertRefreshInterval - time_sub t lastSent)" "(Now, r) \<in> set u" "as_time r = t"
    "rr_lastAlertSentTime (rec_status record) = Some lastSent"
  shows "wakes_up record u (requeue_after (wrap64 (alertRefreshInterval - time_sub t lastSent)))"
proof (cases "lastSent \<le> t")
  case True
  then have "0 \<le> time_sub t lastSent" "time_sub t lastSent < 2 ^ 63" by (simp_all add: time_sub_def)
  then have "wrap64 (alertRefreshInterval - time_sub t lastSent) = alertRefreshInterval - time_sub t lastSent"
    by (intro wrap64_id) (simp add: in_int64_def alertRefreshInterval_def)
  with True assms(1) show ?thesis
    using \<open>0 \<le> time_sub t lastSent\<close> by (simp add: wakes_up_def requeue_after_def)
next
  case False
  with assms show ?thesis unfolding wakes_up_def requeue_after_def by auto
qed

definition renews :: "telcoHealthCheckRun \<Rightarrow> ctrl_result \<times> gerr option \<Rightarrow> trace \<Rightarrow> bool" where
  "renews record x u \<longleftrightarrow> (snd x = None \<longrightarrow> wakes_up record u (fst x))"

lemma soon_renews: "spec m (\<lambda>x _. soon x) \<Longrightarrow> spec m (\<lambda>x u. renews record x (v @ u))"
  by (erule spec_conseq) (simp add: renews_def soon_wakes)

lemma deliver_renews:
  assumes act: "rr_actionRequired (rec_status record) = ''True''"
  shows "spec (deliver L W e ns config record) (renews record)"
proof -
  have "spec (refresh L W e ns config record) (renews record)" if "rr_alertStartsAt (rec_status record) \<noteq> None"
    unfolding refresh_def Let_def using that act
    by (intro spec_option spec_if spec_bind spec_now spec_ret soon_renews resend_soon
        soon_renews [where v = "[]", simplified]) (auto simp: renews_def intro: until_wakes)
  then show ?thesis
    unfolding deliver_def using act
    by (intro spec_if spec_list soon_renews [where v = "[]", simplified, OF start_firing_soon]
        soon_renews [where v = "[]", simplified, OF deliver_next_soon]) auto
qed


end
