(* ===== verification/Agentic_Run.thy ===== *)
theory Agentic_Run
  imports Run_Record Nested_Fields
begin

text \<open>
  \<open>internal/agenticrun\<close>: the configuration of a run (\<open>config.go\<close>), the variables a configuration
  may mention (\<open>vars.go\<close>), their expansion (\<open>expand.go\<close>, with \<open>os.Expand\<close> of the standard
  library) and the AgenticRun object that is created on the hub (\<open>build.go\<close>).
\<close>

section \<open>Configuration\<close>

record skillSpec =
  sk_image :: string
  sk_paths :: "string list"

record mcpServerSpec =
  ms_name :: string
  ms_url :: string
  ms_timeoutSeconds :: "int option"

record runConfig =
  rc_request :: string
  rc_skills :: "skillSpec list"
  rc_mcpServers :: "mcpServerSpec list"

text \<open>The JSON decoder, for the types the operator decodes.\<close>

record json =
  json_skills :: "string \<Rightarrow> gerr + skillSpec list"
  json_mcpServers :: "string \<Rightarrow> gerr + mcpServerSpec list"
  json_strings :: "string \<Rightarrow> gerr + string list"
  json_nullable_strings :: "string \<Rightarrow> gerr + string option list option"

definition LoadRunConfig :: "json \<Rightarrow> env \<Rightarrow> source \<Rightarrow> string \<Rightarrow> string \<Rightarrow> (gerr + runConfig) io" where
  "LoadRunConfig J e c configMapName namespace = do {
     g \<leftarrow> api_get as_configMap e c ConfigMapKind namespace configMapName;
     ret (case g of
        Inl er \<Rightarrow> Inl (Wrap ''getting AgenticRun config ConfigMap'' er)
      | Inr cm \<Rightarrow>
          (let request = data_get (cm_data cm) ''request'';
               rawSkills = data_get (cm_data cm) ''skills'';
               rawServers = data_get (cm_data cm) ''mcpServers''
           in case (if rawSkills \<noteq> '''' then json_skills J rawSkills else Inr []) of
                Inl er \<Rightarrow> Inl (Wrap ''parsing skills from ConfigMap'' er)
              | Inr skills \<Rightarrow>
                  (case (if rawServers \<noteq> '''' then json_mcpServers J rawServers else Inr []) of
                     Inl er \<Rightarrow> Inl (Wrap ''parsing mcpServers from ConfigMap'' er)
                   | Inr servers \<Rightarrow> Inr \<lparr>rc_request = request, rc_skills = skills, rc_mcpServers = servers\<rparr>))) }"

section \<open>Variables\<close>

definition kubeCompareMCPRouteName :: string where
  "kubeCompareMCPRouteName = ''telco-anomaly-kube-compare-mcp''"

definition base_vars :: "string \<Rightarrow> string \<Rightarrow> smap" where
  "base_vars operatorNamespace clusterName =
     [''OPERATOR_NAMESPACE'' \<mapsto> operatorNamespace, ''CLUSTER_NAME'' \<mapsto> clusterName]"

text \<open>The ingress host of the Route, if the Route has one yet.\<close>

definition ingress_host :: "ulib \<Rightarrow> unstr \<Rightarrow> string option" where
  "ingress_host L route =
     (case fst (nested_slice L (u_fields route) [''status'', ''ingress'']) of
        [] \<Rightarrow> None
      | entry # _ \<Rightarrow>
          (case as_map (Some entry) of
             None \<Rightarrow> None
           | Some m \<Rightarrow>
               (let host = fst (nested_string L m [''host''])
                in if host = '''' then None else Some host)))"

definition BuildVarMap :: "ulib \<Rightarrow> env \<Rightarrow> source \<Rightarrow> string \<Rightarrow> string \<Rightarrow> (gerr + smap) io" where
  "BuildVarMap L e c operatorNamespace clusterName = do {
     let vars = base_vars operatorNamespace clusterName;
     g \<leftarrow> api_get as_unstr e c RouteKind operatorNamespace kubeCompareMCPRouteName;
     ret (case g of
        Inl er \<Rightarrow> if isNotFound er then Inr vars else Inl (Wrap ''getting Route'' er)
      | Inr route \<Rightarrow>
          (case ingress_host L route of
             None \<Rightarrow> Inr vars
           | Some host \<Rightarrow> Inr (vars(''KUBE_COMPARE_MCP_URL'' \<mapsto> ''http://'' @ host)))) }"

section \<open>Expansion\<close>

definition isShellSpecialVar :: "char \<Rightarrow> bool" where
  "isShellSpecialVar c \<longleftrightarrow> c \<in> set ''*#$@!?-0123456789''"

definition isAlphaNum :: "char \<Rightarrow> bool" where
  "isAlphaNum c \<longleftrightarrow> (let n = (of_char c :: nat) in
     c = CHR ''_'' \<or> 48 \<le> n \<and> n \<le> 57 \<or> 97 \<le> n \<and> n \<le> 122 \<or> 65 \<le> n \<and> n \<le> 90)"

text \<open>
  \<open>os.getShellName\<close>: the variable name after a dollar sign and the number of bytes it takes. An
  empty name with a positive width is bad syntax.
\<close>

fun getShellName :: "string \<Rightarrow> string \<times> nat" where
  "getShellName [] = ([], 0)"
| "getShellName (c # rest) =
     (if c = CHR ''{'' then
        (if length rest > 1 \<and> isShellSpecialVar (rest ! 0) \<and> rest ! 1 = CHR ''}'' then ([rest ! 0], 3)
         else (let name = takeWhile (\<lambda>x. x \<noteq> CHR ''}'') rest in
               if length name = length rest then ([], 1)
               else if name = [] then ([], 2)
               else (name, length name + 2)))
      else if isShellSpecialVar c then ([c], 1)
      else (let name = takeWhile isAlphaNum (c # rest) in (name, length name)))"

fun os_Expand :: "(string \<Rightarrow> string) \<Rightarrow> string \<Rightarrow> string" where
  "os_Expand mapping [] = []"
| "os_Expand mapping (c # rest) =
     (if c = CHR ''$'' \<and> rest \<noteq> [] then
        (let nw = getShellName rest in
         (if fst nw = [] \<and> snd nw > 0 then []
          else if fst nw = [] then [c]
          else mapping (fst nw)) @ os_Expand mapping (drop (snd nw) rest))
      else c # os_Expand mapping rest)"

definition expandStr :: "string \<Rightarrow> smap \<Rightarrow> string" where
  "expandStr s vars = os_Expand (\<lambda>key. case vars key of
       Some v \<Rightarrow> v
     | None \<Rightarrow> ''${'' @ key @ ''}'') s"

definition ExpandVariables :: "runConfig \<Rightarrow> smap \<Rightarrow> runConfig" where
  "ExpandVariables cfg vars =
     \<lparr>rc_request = expandStr (rc_request cfg) vars,
      rc_skills = map (\<lambda>s. \<lparr>sk_image = expandStr (sk_image s) vars, sk_paths = sk_paths s\<rparr>) (rc_skills cfg),
      rc_mcpServers = map (\<lambda>m. \<lparr>ms_name = expandStr (ms_name m) vars, ms_url = expandStr (ms_url m) vars,
                                ms_timeoutSeconds = ms_timeoutSeconds m\<rparr>) (rc_mcpServers cfg)\<rparr>"

section \<open>The AgenticRun object\<close>

definition skill_values :: "skillSpec list \<Rightarrow> uval list" where
  "skill_values skills =
     map (\<lambda>s. UMap [''image'' \<mapsto> UStr (sk_image s), ''paths'' \<mapsto> USlice (map UStr (sk_paths s))])
       (filter (\<lambda>s. sk_paths s \<noteq> []) skills)"

definition server_value :: "mcpServerSpec \<Rightarrow> uval" where
  "server_value m = UMap (case ms_timeoutSeconds m of
       None \<Rightarrow> [''name'' \<mapsto> UStr (ms_name m), ''url'' \<mapsto> UStr (ms_url m)]
     | Some t \<Rightarrow> [''name'' \<mapsto> UStr (ms_name m), ''url'' \<mapsto> UStr (ms_url m), ''timeoutSeconds'' \<mapsto> UInt t])"

text \<open>The fields set in order; the first error ends the construction.\<close>

fun set_all :: "ulib \<Rightarrow> ufields \<Rightarrow> (uval \<times> string list) list \<Rightarrow> gerr + ufields" where
  "set_all L f [] = Inr f"
| "set_all L f ((v, p) # vps) =
     (case set_nested L f v p of
        Inl er \<Rightarrow> Inl (Wrap ''setting spec field'' (Msg er))
      | Inr f' \<Rightarrow> set_all L f' vps)"

definition BuildObject :: "ulib \<Rightarrow> string \<Rightarrow> string \<Rightarrow> smap \<Rightarrow> runConfig \<Rightarrow> gerr + unstr" where
  "BuildObject L name clusterName labels cfg =
     (case set_all L Map.empty [(UStr (rc_request cfg), [''spec'', ''request''])] of
        Inl er \<Rightarrow> Inl er
      | Inr f \<Rightarrow>
          if clusterName = '''' then Inl (Msg ''target cluster must not be empty'')
          else (case set_all L f
              ([(UStr clusterName, [''spec'', ''targetCluster'']),
                (UStr ''default'', [''spec'', ''analysis'', ''agent'']),
                (UStr ''default'', [''spec'', ''execution'', ''agent''])]
               @ (let skills = skill_values (rc_skills cfg) in
                  if skills \<noteq> [] then [(USlice skills, [''spec'', ''tools'', ''skills''])] else [])
               @ (if rc_mcpServers cfg \<noteq> []
                  then [(USlice (map server_value (rc_mcpServers cfg)), [''spec'', ''tools'', ''mcpServers''])]
                  else [])) of
            Inl er \<Rightarrow> Inl er
          | Inr f' \<Rightarrow> Inr \<lparr>om_name = name, om_namespace = AgenticNamespace, om_uid = '''',
              om_resourceVersion = '''', om_labels = labels, om_annotations = Map.empty,
              om_finalizers = [], om_owners = [], om_creation = None, om_deletion = None,
              u_kind = ''AgenticRun'', u_fields = f'\<rparr>))"

lemmas [io_run] = LoadRunConfig_def BuildVarMap_def

section \<open>Expansion of templates\<close>

text \<open>
  What the comment of \<open>ExpandVariables\<close> promises, as a specification: a template is a sequence of
  literal text and braced variables; known variables are replaced, unknown ones stay.
\<close>

datatype segment = Lit string | Var string

fun seg_text :: "segment \<Rightarrow> string" where
  "seg_text (Lit s) = s"
| "seg_text (Var n) = ''${'' @ n @ ''}''"

fun seg_ok :: "segment \<Rightarrow> bool" where
  "seg_ok (Lit s) \<longleftrightarrow> CHR ''$'' \<notin> set s"
| "seg_ok (Var n) \<longleftrightarrow> n \<noteq> [] \<and> CHR ''}'' \<notin> set n"

fun fill :: "smap \<Rightarrow> segment \<Rightarrow> segment" where
  "fill vars (Lit s) = Lit s"
| "fill vars (Var n) = (case vars n of Some v \<Rightarrow> Lit v | None \<Rightarrow> Var n)"

definition template_text :: "segment list \<Rightarrow> string" where
  "template_text segs = concat (map seg_text segs)"

declare os_Expand.simps(2) [simp del] getShellName.simps(2) [simp del]

lemma os_Expand_literal:
  "CHR ''$'' \<notin> set s \<Longrightarrow> os_Expand f (s @ rest) = s @ os_Expand f rest"
  by (induction s) (auto simp: os_Expand.simps(2))

lemma takeWhile_brace:
  "CHR ''}'' \<notin> set n \<Longrightarrow> takeWhile (\<lambda>x. x \<noteq> CHR ''}'') (n @ CHR ''}'' # rest) = n"
  by (induction n) auto

lemma getShellName_braced:
  assumes "n \<noteq> []" "CHR ''}'' \<notin> set n"
  shows "getShellName (CHR ''{'' # n @ CHR ''}'' # rest) = (n, length n + 2)"
proof (cases n)
  case Nil
  with assms show ?thesis by simp
next
  case (Cons x xs)
  show ?thesis
  proof (cases xs)
    case Nil
    with Cons assms show ?thesis by (auto simp: getShellName.simps(2))
  next
    case (Cons y ys)
    with \<open>n = x # xs\<close> assms show ?thesis
      using takeWhile_brace [OF assms(2), of rest] by (auto simp: getShellName.simps(2) Let_def)
  qed
qed

lemma os_Expand_braced:
  assumes "n \<noteq> []" "CHR ''}'' \<notin> set n"
  shows "os_Expand f (CHR ''$'' # CHR ''{'' # n @ CHR ''}'' # rest) = f n @ os_Expand f rest"
  using getShellName_braced [OF assms, of rest] assms
  by (simp add: Let_def os_Expand.simps(2))

lemma expandStr_template_append:
  "list_all seg_ok segs \<Longrightarrow>
   expandStr (template_text segs @ rest) vars = template_text (map (fill vars) segs) @ expandStr rest vars"
proof (induction segs)
  case Nil
  show ?case by (simp add: template_text_def)
next
  case (Cons s segs)
  show ?case
  proof (cases s)
    case (Lit t)
    with Cons show ?thesis by (simp add: template_text_def expandStr_def os_Expand_literal)
  next
    case (Var n)
    have "os_Expand f (CHR ''$'' # CHR ''{'' # n @ CHR ''}'' # r) = f n @ os_Expand f r" for f r
      using Cons.prems Var by (intro os_Expand_braced) auto
    with Cons Var show ?thesis
      by (auto simp: template_text_def expandStr_def split: option.splits)
  qed
qed

text \<open>
  Template expansion: in a text made of dollar-free literals and braced placeholders, every
  placeholder with a value is replaced by it and every other placeholder is left unchanged.
\<close>

theorem expandStr_template:
  "list_all seg_ok segs \<Longrightarrow> expandStr (template_text segs) vars = template_text (map (fill vars) segs)"
  using expandStr_template_append [of segs "[]" vars] by (simp add: expandStr_def)

theorem expandStr_template_witness:
  "expandStr ''check ${CLUSTER_NAME} of ${ORG}'' (base_vars ''ns'' ''spoke-1'')
   = ''check spoke-1 of ${ORG}''"
  using expandStr_template
    [of "[Lit ''check '', Var ''CLUSTER_NAME'', Lit '' of '', Var ''ORG'']" "base_vars ''ns'' ''spoke-1''"]
  by (simp add: template_text_def base_vars_def)

lemma fill_ok:
  assumes "list_all seg_ok segs" "\<forall>n v. vars n = Some v \<longrightarrow> CHR ''$'' \<notin> set v"
  shows "list_all seg_ok (map (fill vars) segs)"
proof -
  have "seg_ok (fill vars s)" if "seg_ok s" for s
    using that assms(2) by (cases s) (auto split: option.splits)
  with assms(1) show ?thesis by (auto simp: list_all_iff)
qed

lemma fill_fill: "fill vars (fill vars s) = fill vars s"
  by (cases s) (auto split: option.splits)

text \<open>
  Expansion is idempotent on templates as long as no value mentions a dollar sign, so a
  configuration that was expanded once is not changed by a second pass.
\<close>

theorem expandStr_idem:
  assumes "list_all seg_ok segs" "\<forall>n v. vars n = Some v \<longrightarrow> CHR ''$'' \<notin> set v"
  shows "expandStr (expandStr (template_text segs) vars) vars = expandStr (template_text segs) vars"
proof -
  have once: "expandStr (template_text segs) vars = template_text (map (fill vars) segs)"
    using expandStr_template_append [OF assms(1), of "[]" vars] by (simp add: expandStr_def)
  have "expandStr (template_text (map (fill vars) segs)) vars = template_text (map (fill vars) (map (fill vars) segs))"
    using expandStr_template_append [OF fill_ok [OF assms], of "[]" vars] by (simp add: expandStr_def)
  with once show ?thesis by (simp add: fill_fill comp_def)
qed

theorem expandStr_idem_witness:
  "expandStr (expandStr ''on ${CLUSTER_NAME}${X}'' (base_vars ''ns'' ''spoke-1'')) (base_vars ''ns'' ''spoke-1'')
   = expandStr ''on ${CLUSTER_NAME}${X}'' (base_vars ''ns'' ''spoke-1'')"
  using expandStr_idem [of "[Lit ''on '', Var ''CLUSTER_NAME'', Var ''X'']" "base_vars ''ns'' ''spoke-1''"]
  by (simp add: template_text_def base_vars_def)

lemma takeWhile_alnum:
  "list_all isAlphaNum n \<Longrightarrow> rest = [] \<or> \<not> isAlphaNum (hd rest) \<Longrightarrow> takeWhile isAlphaNum (n @ rest) = n"
  by (induction n) (auto simp: takeWhile_eq_Nil_iff)

lemma special_not_brace: "\<not> isAlphaNum (CHR ''{'')"
  by (simp add: isAlphaNum_def)

text \<open>
  A dollar sign followed by a name is a placeholder too, braces or not: it is replaced when it
  has a value, and otherwise it comes out with braces added, so the text of an unknown
  \<open>$NAME\<close> is changed.
\<close>

theorem expandStr_unbraced:
  assumes "n \<noteq> []" "list_all isAlphaNum n" "\<not> isShellSpecialVar (hd n)"
    and "rest = [] \<or> \<not> isAlphaNum (hd rest)"
  shows "expandStr (CHR ''$'' # n @ rest) vars =
    (case vars n of Some v \<Rightarrow> v | None \<Rightarrow> ''${'' @ n @ ''}'') @ expandStr rest vars"
proof -
  obtain c cs where n: "n = c # cs" using assms(1) by (cases n) auto
  have "getShellName (c # cs @ rest) = (n, length n)"
    using takeWhile_alnum [OF assms(2,4)] n assms(2,3) special_not_brace by (auto simp: Let_def getShellName.simps(2))
  with n show ?thesis by (simp add: expandStr_def Let_def os_Expand.simps(2) split: option.splits)
qed

theorem expandStr_unbraced_witness:
  "expandStr ''$pod is down'' Map.empty = ''${pod}'' @ expandStr '' is down'' Map.empty"
  using expandStr_unbraced [of "''pod''" "'' is down''" Map.empty]
  by (simp add: isAlphaNum_def isShellSpecialVar_def)

section \<open>What a built object contains\<close>

text \<open>All field writes of a built object in one list.\<close>

definition object_writes :: "string \<Rightarrow> runConfig \<Rightarrow> (uval \<times> string list) list" where
  "object_writes clusterName cfg =
     [(UStr (rc_request cfg), [''spec'', ''request'']),
      (UStr clusterName, [''spec'', ''targetCluster'']),
      (UStr ''default'', [''spec'', ''analysis'', ''agent'']),
      (UStr ''default'', [''spec'', ''execution'', ''agent''])]
     @ (if skill_values (rc_skills cfg) \<noteq> []
        then [(USlice (skill_values (rc_skills cfg)), [''spec'', ''tools'', ''skills''])] else [])
     @ (if rc_mcpServers cfg \<noteq> []
        then [(USlice (map server_value (rc_mcpServers cfg)), [''spec'', ''tools'', ''mcpServers''])]
        else [])"

text \<open>Writes none of which touches a field written before.\<close>

definition separate :: "(uval \<times> string list) list \<Rightarrow> bool" where
  "separate vps \<longleftrightarrow> sorted_wrt (\<lambda>x y. disjoint_paths (snd y) (snd x)) vps"

lemma separate_object_writes: "separate (object_writes clusterName cfg)"
  by (simp add: separate_def object_writes_def disjoint_paths_def)

context nested_fields
begin

lemma set_all_string_other:
  "set_all L f vps = Inr f' \<Longrightarrow> \<forall>(v, p) \<in> set vps. disjoint_paths p q
   \<Longrightarrow> nested_string L f' q = nested_string L f q"
proof (induction vps arbitrary: f)
  case Nil
  then show ?case by simp
next
  case (Cons vp vps)
  then show ?case by (cases vp) (auto split: sum.splits simp: get_string_other)
qed

lemma set_all_slice_other:
  "set_all L f vps = Inr f' \<Longrightarrow> \<forall>(v, p) \<in> set vps. disjoint_paths p q
   \<Longrightarrow> nested_slice L f' q = nested_slice L f q"
proof (induction vps arbitrary: f)
  case Nil
  then show ?case by simp
next
  case (Cons vp vps)
  then show ?case by (cases vp) (auto split: sum.splits simp: get_slice_other)
qed

lemma set_all_append:
  "set_all L f (xs @ ys) = (case set_all L f xs of Inl er \<Rightarrow> Inl er | Inr f' \<Rightarrow> set_all L f' ys)"
proof (induction xs arbitrary: f)
  case Nil
  show ?case by simp
next
  case (Cons vp xs)
  then show ?case by (cases vp) (auto split: sum.splits)
qed

lemma set_all_get:
  assumes "set_all L f vps = Inr f'" "(v, p) \<in> set vps" "separate vps"
  obtains h g where "set_nested L h v p = Inr g"
    "\<And>q. q = p \<Longrightarrow> nested_string L f' q = nested_string L g q \<and> nested_slice L f' q = nested_slice L g q"
proof -
  obtain xs ys where vps: "vps = xs @ (v, p) # ys" using split_list [OF assms(2)] by blast
  with assms(1) obtain h g where hg: "set_nested L h v p = Inr g" "set_all L g ys = Inr f'"
    by (auto simp: set_all_append split: sum.splits)
  have "\<forall>(w, q) \<in> set ys. disjoint_paths q p"
    using assms(3) by (auto simp: vps separate_def sorted_wrt_append)
  then show thesis
    using hg that set_all_string_other [OF hg(2)] set_all_slice_other [OF hg(2)] by simp
qed

lemma set_all_get_string:
  "set_all L f vps = Inr f' \<Longrightarrow> (UStr s, p) \<in> set vps \<Longrightarrow> separate vps
   \<Longrightarrow> nested_string L f' p = (s, True, False)"
  by (metis set_all_get get_set_string)

lemma set_all_get_slice:
  "set_all L f vps = Inr f' \<Longrightarrow> (USlice s, p) \<in> set vps \<Longrightarrow> separate vps
   \<Longrightarrow> nested_slice L f' p = (s, True, False)"
  by (metis set_all_get get_set_slice)

lemma BuildObject_writes:
  "BuildObject L name clusterName labels cfg = Inr u \<Longrightarrow>
     clusterName \<noteq> [] \<and> om_name u = name \<and> om_namespace u = AgenticNamespace \<and> om_labels u = labels
     \<and> u_kind u = ''AgenticRun'' \<and> set_all L Map.empty (object_writes clusterName cfg) = Inr (u_fields u)"
  unfolding BuildObject_def object_writes_def
  by (auto simp: Let_def split: sum.splits if_split_asm)

lemma BuildObject_reads:
  assumes "BuildObject L name clusterName labels cfg = Inr u"
  shows "nested_string L (u_fields u) [''spec'', ''targetCluster''] = (clusterName, True, False)"
    and "nested_string L (u_fields u) [''spec'', ''request''] = (rc_request cfg, True, False)"
    and "nested_string L (u_fields u) [''spec'', ''analysis'', ''agent''] = (''default'', True, False)"
    and "skill_values (rc_skills cfg) \<noteq> [] \<Longrightarrow> nested_slice L (u_fields u) [''spec'', ''tools'', ''skills'']
          = (skill_values (rc_skills cfg), True, False)"
    and "rc_mcpServers cfg \<noteq> [] \<Longrightarrow> nested_slice L (u_fields u) [''spec'', ''tools'', ''mcpServers'']
          = (map server_value (rc_mcpServers cfg), True, False)"
proof -
  have w: "set_all L Map.empty (object_writes clusterName cfg) = Inr (u_fields u)"
    using BuildObject_writes [OF assms] by simp
  note str = set_all_get_string [OF w _ separate_object_writes]
  note slc = set_all_get_slice [OF w _ separate_object_writes]
  show "nested_string L (u_fields u) [''spec'', ''targetCluster''] = (clusterName, True, False)"
    by (rule str) (simp add: object_writes_def)
  show "nested_string L (u_fields u) [''spec'', ''request''] = (rc_request cfg, True, False)"
    by (rule str) (simp add: object_writes_def)
  show "nested_string L (u_fields u) [''spec'', ''analysis'', ''agent''] = (''default'', True, False)"
    by (rule str) (simp add: object_writes_def)
  show "nested_slice L (u_fields u) [''spec'', ''tools'', ''skills'']
      = (skill_values (rc_skills cfg), True, False)" if "skill_values (rc_skills cfg) \<noteq> []"
    by (rule slc) (simp add: object_writes_def that)
  show "nested_slice L (u_fields u) [''spec'', ''tools'', ''mcpServers'']
      = (map server_value (rc_mcpServers cfg), True, False)" if "rc_mcpServers cfg \<noteq> []"
    by (rule slc) (simp add: object_writes_def that)
qed

end

text \<open>
  C37. The AgenticRun object: when construction succeeds, the object has the given name and labels
  in the Lightspeed namespace, names a non-empty target cluster and the request, and carries
  exactly the skills that have paths and all MCP servers.
\<close>

theorem BuildObject_contract:
  assumes "nested_fields L" "BuildObject L name clusterName labels cfg = Inr u"
  shows "clusterName \<noteq> [] \<and> om_name u = name \<and> om_namespace u = AgenticNamespace \<and> om_labels u = labels
    \<and> nested_string L (u_fields u) [''spec'', ''targetCluster''] = (clusterName, True, False)
    \<and> nested_string L (u_fields u) [''spec'', ''request''] = (rc_request cfg, True, False)
    \<and> nested_string L (u_fields u) [''spec'', ''analysis'', ''agent''] = (''default'', True, False)
    \<and> (skill_values (rc_skills cfg) \<noteq> [] \<longrightarrow>
         fst (nested_slice L (u_fields u) [''spec'', ''tools'', ''skills'']) = skill_values (rc_skills cfg))
    \<and> (rc_mcpServers cfg \<noteq> [] \<longrightarrow>
         fst (nested_slice L (u_fields u) [''spec'', ''tools'', ''mcpServers''])
           = map server_value (rc_mcpServers cfg))"
  using nested_fields.BuildObject_writes [OF assms] nested_fields.BuildObject_reads [OF assms] by simp

definition sample_config :: runConfig where
  "sample_config = \<lparr>rc_request = ''check'', rc_skills =
     [\<lparr>sk_image = ''img:v1'', sk_paths = [''/skills/a'']\<rparr>, \<lparr>sk_image = ''img:v2'', sk_paths = []\<rparr>],
     rc_mcpServers = [\<lparr>ms_name = ''m'', ms_url = ''http://m'', ms_timeoutSeconds = Some 10\<rparr>]\<rparr>"

lemma sample_object:
  "\<exists>u. BuildObject tree_ulib ''run-1'' ''spoke-1'' [ManagedByLabel \<mapsto> ManagedByValue] sample_config = Inr u"
  by (simp add: BuildObject_def sample_config_def tree_ulib_def skill_values_def Let_def)

theorem BuildObject_contract_witness:
  "\<exists>u. BuildObject tree_ulib ''run-1'' ''spoke-1'' [ManagedByLabel \<mapsto> ManagedByValue] sample_config = Inr u
     \<and> nested_string tree_ulib (u_fields u) [''spec'', ''targetCluster''] = (''spoke-1'', True, False)
     \<and> length (fst (nested_slice tree_ulib (u_fields u) [''spec'', ''tools'', ''skills''])) = 1"
proof -
  obtain u where u: "BuildObject tree_ulib ''run-1'' ''spoke-1'' [ManagedByLabel \<mapsto> ManagedByValue]
      sample_config = Inr u" using sample_object by blast
  with BuildObject_contract [OF tree.nested_fields_axioms u] show ?thesis
    by (intro exI [of _ u]) (simp add: sample_config_def skill_values_def)
qed

text \<open>
  Identity agreement: an AgenticRun built for a run and a cluster, with the operator's label,
  is recognised by recovery as the run of the record that \<open>Begin\<close> wrote for the same identity.
\<close>

theorem built_run_matches_record:
  assumes "nested_fields L" "BuildObject L runName clusterName labels cfg = Inr u"
    and "labels ManagedByLabel = Some ManagedByValue"
  shows "run_matches L u ((pending_record ns name runName clusterName owner)
           \<lparr>rec_status := pending_status runName clusterName triggeredBy trigger\<rparr>)"
  using nested_fields.BuildObject_writes [OF assms(1,2)] nested_fields.BuildObject_reads(1) [OF assms(1,2)] assms(3)
  by (auto simp: run_matches_def pending_record_def pending_status_def zero_runStatus_def sget_def)

theorem built_run_matches_record_witness:
  "\<forall>owner. \<exists>u. run_matches tree_ulib u ((pending_record ''ns'' ''run-1'' ''run-1'' ''spoke-1'' owner)
           \<lparr>rec_status := pending_status ''run-1'' ''spoke-1'' ''alert'' ''A''\<rparr>)"
proof
  fix owner
  obtain u where u: "BuildObject tree_ulib ''run-1'' ''spoke-1'' [ManagedByLabel \<mapsto> ManagedByValue]
      sample_config = Inr u" using sample_object by blast
  show "\<exists>u. run_matches tree_ulib u ((pending_record ''ns'' ''run-1'' ''run-1'' ''spoke-1'' owner)
           \<lparr>rec_status := pending_status ''run-1'' ''spoke-1'' ''alert'' ''A''\<rparr>)"
    by (rule exI, rule built_run_matches_record [OF tree.nested_fields_axioms u]) simp
qed

end
