(* ===== verification/Audited_Creation.thy ===== *)
theory Audited_Creation
  imports Agentic_Run
begin

text \<open>
  The protocol that both creators of AgenticRuns follow, the periodic checks of the controller and
  the alert receiver: persist the identity in an audit record, create the run, then settle the
  record. The protocol is a property of traces, \<open>audited_flow\<close>; what follows from it for any
  operation that keeps it is proved once, in the locale \<open>audited_creation\<close>.
\<close>

definition no_runs :: "trace \<Rightarrow> bool" where
  "no_runs u \<longleftrightarrow> (\<forall>run a. (Create (KUnstr run), a) \<notin> set u)"

definition not_run :: "call \<Rightarrow> bool" where
  "not_run c \<longleftrightarrow> (\<forall>run. c \<noteq> Create (KUnstr run))"

lemma no_runs_simps [simp]:
  "no_runs []" "no_runs (u @ v) \<longleftrightarrow> no_runs u \<and> no_runs v"
  "no_runs ((c, a) # u) \<longleftrightarrow> not_run c \<and> no_runs u"
  by (auto simp: no_runs_def not_run_def)

lemma not_run_simps [simp]:
  "not_run (Get s k ns n)" "not_run (ListObjs s k ns ls)" "not_run Now" "not_run (Update x)"
  "not_run (StatusUpdate x)" "not_run (StatusPatch x y)" "not_run (Delete x)"
  "not_run (Create (KRecord r))" "\<not> not_run (Create (KUnstr run))" "not_run (Spawn d a b c)"
  "not_run Rand63" "not_run (Rand63n i)" "not_run (SetLevel l)"
  by (simp_all add: not_run_def)

lemma emits_not_run: "emits not_run m \<Longrightarrow> spec m (\<lambda>_ u. no_runs u)"
  by (erule spec_of_emits) (auto simp: no_runs_def not_run_def)

text \<open>Calls that prepare a creation: no run is created and no identity becomes durable.\<close>

definition idle :: "trace \<Rightarrow> bool" where
  "idle u \<longleftrightarrow> no_runs u
     \<and> (\<forall>r a. (StatusUpdate (KRecord r), a) \<in> set u \<longrightarrow> (\<exists>er. as_stored_record r a = Inl er))"

definition preparing :: "call \<Rightarrow> bool" where
  "preparing c \<longleftrightarrow> not_run c \<and> (\<forall>r. c \<noteq> StatusUpdate (KRecord r))"

lemma idle_simps [simp]:
  "idle []" "idle (u @ v) \<longleftrightarrow> idle u \<and> idle v" "preparing c \<Longrightarrow> idle ((c, a) # u) \<longleftrightarrow> idle u"
  by (auto simp: idle_def preparing_def)

lemma idle_no_runs: "idle u \<Longrightarrow> no_runs u"
  by (simp add: idle_def)

lemma preparing_simps [simp]:
  "preparing (Get s k ns n)" "preparing (ListObjs s k ns ls)" "preparing Now"
  by (simp_all add: preparing_def)

lemma emits_idle: "emits preparing m \<Longrightarrow> spec m (\<lambda>_ u. idle u)"
  by (erule spec_of_emits) (force simp: idle_def preparing_def no_runs_def not_run_def)

text \<open>The run that is created is the one the record describes.\<close>

definition run_for :: "ulib \<Rightarrow> string \<Rightarrow> string \<Rightarrow> unstr \<Rightarrow> bool" where
  "run_for L runName cluster run \<longleftrightarrow> (\<exists>labels cfg. BuildObject L runName cluster labels cfg = Inr run
     \<and> labels ManagedByLabel = Some ManagedByValue)"

text \<open>How the record is settled after the answer \<open>a\<close> to the creation.\<close>

definition settled_after :: "nat \<Rightarrow> string \<Rightarrow> string \<Rightarrow> resp \<Rightarrow> trace \<Rightarrow> bool" where
  "settled_after k ns runName a w \<longleftrightarrow>
     (case ack a of
        None \<Rightarrow> settles ns runName PhaseCreated w \<and> settled_or_refused k ns runName PhaseCreated w
      | Some er \<Rightarrow>
          if DefinitiveCreateError er
          then settles ns runName PhaseFailed w \<and> settled_or_refused k ns runName PhaseFailed w
          else w = [])"

definition audited_flow ::
  "nat \<Rightarrow> ulib \<Rightarrow> string \<Rightarrow> string \<Rightarrow> string \<Rightarrow> string \<Rightarrow> string \<Rightarrow> trace \<Rightarrow> bool" where
  "audited_flow k L ns runName cluster triggeredBy trigger u \<longleftrightarrow> idle u
     \<or> (\<exists>v i run a w owner. u = v @ i @ (Create (KUnstr run), a) # w
          \<and> identity_persisted ns runName runName cluster triggeredBy trigger owner i
          \<and> run_for L runName cluster run \<and> idle v \<and> no_runs w \<and> settled_after k ns runName a w)"

section \<open>The protocol as code writes it\<close>

lemma finishCreation_no_runs: "emits not_run (finishCreation k e c ns name ph)"
  unfolding finishCreation_def finish_status_attempt_def finish_annotation_attempt_def
  by (intro io_emits) simp_all

lemma BuildVarMap_idle: "emits preparing (BuildVarMap L e c ns cluster)"
  unfolding BuildVarMap_def by (intro io_emits) (auto intro: io_emits)

lemma LoadRunConfig_idle: "emits preparing (LoadRunConfig J e c name ns)"
  unfolding LoadRunConfig_def by (intro io_emits) (auto intro: io_emits)

lemma Begin_no_runs: "emits not_run (Begin e ns name runName cluster triggeredBy trigger owner)"
  unfolding Begin_def by (intro io_emits) (auto intro!: io_emits)

text \<open>Begin fails before the identity is durable, or ends with a durable identity.\<close>

lemma Begin_idle:
  "spec (Begin e ns name runName cluster triggeredBy trigger owner) (\<lambda>x u. case x of
     Inl er \<Rightarrow> idle u | Inr r \<Rightarrow> identity_persisted ns name runName cluster triggeredBy trigger owner u)"
  unfolding Begin_def
  by (intro io_spec) (auto simp: idle_def identity_persisted_def simp del: ack_def dest: as_stored_record_ack)

lemma settle_spec:
  "spec (finishCreation k e c ns name ph) (\<lambda>_ w. (settles ns name ph w \<and> settled_or_refused k ns name ph w) \<and> no_runs w)"
  by (rule spec_conj [OF spec_conj [OF finishCreation_spec finishCreation_end] emits_not_run [OF finishCreation_no_runs]])

text \<open>From a persisted identity on: create, then settle according to the answer.\<close>

definition create_and_settle ::
  "nat \<Rightarrow> env \<Rightarrow> source \<Rightarrow> string \<Rightarrow> string \<Rightarrow> unstr \<Rightarrow> (gerr option \<Rightarrow> 'r) \<Rightarrow> 'r io" where
  "create_and_settle k e c ns runName run result = do {
     r \<leftarrow> api_do e (Create (KUnstr run));
     (case r of
        Some er \<Rightarrow>
          if DefinitiveCreateError er then do { _ \<leftarrow> Fail k e c ns runName; ret (result r) }
          else ret (result r)
      | None \<Rightarrow> do { _ \<leftarrow> Confirm k e c ns runName; ret (result None) }) }"

lemma create_and_settle_spec:
  "spec (create_and_settle k e c ns runName run result)
     (\<lambda>_ u. \<exists>a w. u = (Create (KUnstr run), a) # w \<and> no_runs w \<and> settled_after k ns runName a w)"
  unfolding create_and_settle_def Fail_def Confirm_def
  by (intro io_spec spec_conseq [OF settle_spec]) (auto simp: settled_after_def simp del: ack_def)

lemma audited_flowI:
  assumes "idle v" "identity_persisted ns runName runName cluster triggeredBy trigger owner i"
    and "run_for L runName cluster run" "no_runs w" "settled_after k ns runName a w"
  shows "audited_flow k L ns runName cluster triggeredBy trigger (v @ i @ (Create (KUnstr run), a) # w)"
  unfolding audited_flow_def using assms by blast

lemma audited_flow_idle: "idle u \<Longrightarrow> audited_flow k L ns runName cluster triggeredBy trigger u"
  by (simp add: audited_flow_def)

lemma audited_flow_prefix:
  assumes "idle v" "audited_flow k L ns runName cluster triggeredBy trigger u"
  shows "audited_flow k L ns runName cluster triggeredBy trigger (v @ u)"
proof -
  from assms(2) consider "idle u" | p i run a w owner where "u = p @ i @ (Create (KUnstr run), a) # w"
      "identity_persisted ns runName runName cluster triggeredBy trigger owner i"
      "run_for L runName cluster run" "idle p" "no_runs w" "settled_after k ns runName a w"
    unfolding audited_flow_def by auto
  then show ?thesis
  proof cases
    case 1
    with assms(1) show ?thesis by (simp add: audited_flow_idle)
  next
    case 2
    with assms(1) audited_flowI [of "v @ p", OF _ 2(2,3,5,6)] show ?thesis by simp
  qed
qed

text \<open>What stands right before a creation.\<close>

definition identity_guard :: "ulib \<Rightarrow> string \<Rightarrow> string \<Rightarrow> string \<Rightarrow> string \<Rightarrow> string \<Rightarrow> trace \<Rightarrow> call \<Rightarrow> bool" where
  "identity_guard L ns runName cluster triggeredBy trigger v c \<longleftrightarrow>
     (\<forall>run. c = Create (KUnstr run) \<longrightarrow> run_for L runName cluster run
        \<and> (\<exists>v' i owner. v = v' @ i \<and> identity_persisted ns runName runName cluster triggeredBy trigger owner i))"

lemma guarded_no_runs: "no_runs u \<Longrightarrow> (\<And>v c. not_run c \<Longrightarrow> G v c) \<Longrightarrow> guarded G u"
  by (rule guarded_all) (metis no_runs_def not_run_def prod.collapse)

lemma identity_guard_not_run: "not_run c \<Longrightarrow> identity_guard L ns runName cluster triggeredBy trigger v c"
  by (simp add: identity_guard_def not_run_def)

lemma audited_flow_guard:
  assumes "audited_flow k L ns runName cluster triggeredBy trigger u"
  shows "guarded (identity_guard L ns runName cluster triggeredBy trigger) u"
  using assms unfolding audited_flow_def
proof (elim disjE exE conjE)
  assume "idle u"
  then have "no_runs u" by (rule idle_no_runs)
  then show ?thesis by (rule guarded_no_runs) (rule identity_guard_not_run)
next
  fix v i run a w owner
  assume u: "u = v @ i @ (Create (KUnstr run), a) # w"
    and i: "identity_persisted ns runName runName cluster triggeredBy trigger owner i"
    and q: "run_for L runName cluster run" "idle v" "no_runs w"
  have "no_runs i" using i by (auto simp: identity_persisted_def)
  moreover have "identity_guard L ns runName cluster triggeredBy trigger (v @ i) (Create (KUnstr run))"
    using i q(1) by (auto simp: identity_guard_def)
  ultimately show ?thesis
    using idle_no_runs [OF q(2)] q(3) unfolding u guarded_append_iff
    by (auto intro: guarded_no_runs identity_guard_not_run)
qed

section \<open>What the protocol gives\<close>

definition audit_before_create :: "ulib \<Rightarrow> string \<Rightarrow> string \<Rightarrow> trace \<Rightarrow> bool" where
  "audit_before_create L ns triggeredBy u \<longleftrightarrow>
     (\<forall>v run a w. u = v @ (Create (KUnstr run), a) # w \<longrightarrow>
        (\<exists>v' i runName cluster trigger owner. v = v' @ i \<and> run_for L runName cluster run
           \<and> identity_persisted ns runName runName cluster triggeredBy trigger owner i))"

definition audit_guard :: "ulib \<Rightarrow> string \<Rightarrow> string \<Rightarrow> trace \<Rightarrow> call \<Rightarrow> bool" where
  "audit_guard L ns triggeredBy v c \<longleftrightarrow> (\<forall>run. c = Create (KUnstr run) \<longrightarrow>
     (\<exists>v' i runName cluster trigger owner. v = v' @ i \<and> run_for L runName cluster run
        \<and> identity_persisted ns runName runName cluster triggeredBy trigger owner i))"

lemma audit_before_create_guarded:
  "audit_before_create L ns triggeredBy u \<longleftrightarrow> guarded (audit_guard L ns triggeredBy) u"
  unfolding audit_before_create_def guarded_def audit_guard_def by blast

lemma stable_audit_guard: "stable (audit_guard L ns triggeredBy)"
  unfolding stable_def audit_guard_def by (metis append_assoc)

lemma audit_before_create_append:
  "audit_before_create L ns triggeredBy u \<Longrightarrow> audit_before_create L ns triggeredBy v
   \<Longrightarrow> audit_before_create L ns triggeredBy (u @ v)"
  unfolding audit_before_create_guarded by (rule guarded_append [OF stable_audit_guard])

lemma audit_before_create_no_runs: "no_runs u \<Longrightarrow> audit_before_create L ns triggeredBy u"
  by (auto simp: audit_before_create_def)

definition is_run_create :: "call \<times> resp \<Rightarrow> bool" where
  "is_run_create ev \<longleftrightarrow> \<not> not_run (fst ev)"

text \<open>After an answer that leaves open whether the run exists, nothing more is done.\<close>

definition ambiguous_is_last :: "trace \<Rightarrow> bool" where
  "ambiguous_is_last u \<longleftrightarrow> (\<forall>v run a w er. u = v @ (Create (KUnstr run), a) # w \<longrightarrow> ack a = Some er
     \<longrightarrow> \<not> DefinitiveCreateError er \<longrightarrow> w = [])"

lemma filter_no_runs: "no_runs u \<Longrightarrow> filter is_run_create u = []"
  by (auto simp: filter_empty_conv no_runs_def is_run_create_def not_run_def)

lemma not_in_no_runs: "u = v @ (Create (KUnstr run), a) # w \<Longrightarrow> no_runs u \<Longrightarrow> P"
  by simp

lemma split_unique:
  assumes "v @ (Create (KUnstr run), a) # w = v' @ (Create (KUnstr run'), a') # w'" "no_runs v" "no_runs w"
  shows "v' = v \<and> run' = run \<and> a' = a \<and> w' = w"
  using assms(1)
proof (cases rule: append_eq_append_ConsE)
  case (left q)
  from left(1) assms(2) show ?thesis by (blast intro: not_in_no_runs)
next
  case (right q)
  show ?thesis
  proof (cases q)
    case Nil
    with right show ?thesis by simp
  next
    case (Cons x xs)
    with right(2) have "w = xs @ (Create (KUnstr run'), a') # w'" by simp
    with assms(3) show ?thesis by (blast intro: not_in_no_runs)
  qed
qed

lemma same_answer: "v' = v \<and> run' = run \<and> a' = a \<and> w' = w \<Longrightarrow> a' = a \<and> w' = w"
  by simp

locale audited_creation =
  fixes k :: nat and L :: ulib and ns triggeredBy trigger cluster :: string
    and create :: "env \<Rightarrow> 'r io"
  assumes flow: "spec (create e) (\<lambda>_ u. \<exists>runName. audited_flow k L ns runName cluster triggeredBy trigger u)"
begin

lemma audited: "spec (create e) (\<lambda>_ u. audit_before_create L ns triggeredBy u)"
proof (rule spec_conseq [OF flow])
  fix u :: trace assume "\<exists>runName. audited_flow k L ns runName cluster triggeredBy trigger u"
  then obtain runName where "guarded (identity_guard L ns runName cluster triggeredBy trigger) u"
    using audited_flow_guard by blast
  then show "audit_before_create L ns triggeredBy u"
    unfolding audit_before_create_guarded
    by (rule guarded_mono) (auto simp: identity_guard_def audit_guard_def, blast)
qed

lemma one_run: "spec (create e) (\<lambda>_ u. length (filter is_run_create u) \<le> 1)"
proof (rule spec_conseq [OF flow])
  fix u :: trace assume "\<exists>runName. audited_flow k L ns runName cluster triggeredBy trigger u"
  then obtain runName where "audited_flow k L ns runName cluster triggeredBy trigger u" by blast
  then consider "no_runs u" | v i run a w owner where "u = v @ i @ (Create (KUnstr run), a) # w"
      "identity_persisted ns runName runName cluster triggeredBy trigger owner i" "no_runs v" "no_runs w"
    unfolding audited_flow_def using idle_no_runs by blast
  then show "length (filter is_run_create u) \<le> 1"
  proof cases
    case 1
    then show ?thesis by (simp add: filter_no_runs)
  next
    case 2
    have "no_runs i" using 2(2) by (auto simp: identity_persisted_def)
    with 2 show ?thesis by (simp add: filter_no_runs)
  qed
qed

lemma ambiguous: "spec (create e) (\<lambda>_ u. ambiguous_is_last u)"
proof (rule spec_conseq [OF flow])
  fix u :: trace assume "\<exists>runName. audited_flow k L ns runName cluster triggeredBy trigger u"
  then obtain runName where "audited_flow k L ns runName cluster triggeredBy trigger u" by blast
  then consider "no_runs u" | v i run a w owner where "u = (v @ i) @ (Create (KUnstr run), a) # w"
      "identity_persisted ns runName runName cluster triggeredBy trigger owner i"
      "no_runs v" "no_runs w" "settled_after k ns runName a w"
    unfolding audited_flow_def using idle_no_runs by (metis append_assoc)
  then show "ambiguous_is_last u"
  proof cases
    case 1
    then show ?thesis by (auto simp: ambiguous_is_last_def)
  next
    case 2
    have "no_runs (v @ i)" using 2 by (auto simp: identity_persisted_def)
    show ?thesis
      unfolding ambiguous_is_last_def
    proof (intro allI impI)
      fix v' run' a' w' er assume eq: "u = v' @ (Create (KUnstr run'), a') # w'"
        and er: "ack a' = Some er" "\<not> DefinitiveCreateError er"
      have "a' = a \<and> w' = w"
        by (rule split_unique [OF trans [OF 2(1) [symmetric] eq] \<open>no_runs (v @ i)\<close> 2(4), THEN same_answer])
      with er 2(5) show "w' = []" by (simp add: settled_after_def)
    qed
  qed
qed

end

end
