(* ===== verification/Periodic_Runs.thy ===== *)
theory Periodic_Runs
  imports Audited_Creation
begin

text \<open>
  Periodic health checks: the creation of AgenticRuns with their audit records
  (\<open>internal/controller/agenticrun.go\<close>) and the schedule
  (\<open>configuredPeriodicChecks\<close>, \<open>runPeriodicChecks\<close>, \<open>resolvePeriodicJitter\<close> and \<open>shouldRunCheck\<close> of
  \<open>telcohealthcheck_controller.go\<close>).
\<close>

definition operatorNamespace :: string where "operatorNamespace = ''telco-healthcheck-system''"

section \<open>Configuration of a check\<close>

definition checkTypeConfigMaps :: "string \<rightharpoonup> string" where
  "checkTypeConfigMaps = [''rds-compliance'' \<mapsto> ''telco-anomaly-rds-compliance-config'',
     ''low-latency-check'' \<mapsto> ''telco-anomaly-low-latency-check-config'']"

definition loadRunConfigForCheck :: "json \<Rightarrow> env \<Rightarrow> string \<Rightarrow> (gerr + runConfig) io" where
  "loadRunConfigForCheck J e checkType =
     (case checkTypeConfigMaps checkType of
        None \<Rightarrow> ret (Inl (Msg (''no AgenticRun ConfigMap configured for check type '' @ checkType)))
      | Some configMapName \<Rightarrow> do {
          g \<leftarrow> LoadRunConfig J e Cached configMapName operatorNamespace;
          ret (case g of
             Inl er \<Rightarrow> Inl (Wrap (''loading AgenticRun config for check type '' @ checkType) er)
           | Inr cfg \<Rightarrow>
               if rc_request cfg = ''''
               then Inl (Msg (''AgenticRun config has empty request field for check type '' @ checkType))
               else Inr cfg) })"

section \<open>Names and delays\<close>

definition trim_name :: "string \<Rightarrow> string" where "trim_name s = trim_right ''-.'' s"

definition periodicRunName :: "string \<Rightarrow> string \<Rightarrow> string" where
  "periodicRunName prefix cluster =
     (let digest = sum256 cluster;
          clusterPart = trim_name cluster;
          clusterPart = (if length clusterPart > 40 then trim_name (take 40 clusterPart) else clusterPart);
          suffix = ''-'' @ clusterPart @ ''-'' @ hex_encode (take 8 digest);
          prefix = (if length prefix + length suffix > 253
                    then trim_name (take (253 - length suffix) prefix) else prefix)
      in prefix @ suffix)"

text \<open>
  \<open>math/rand\<close>: \<open>Int63\<close> is uniform below \<open>2 ^ 63\<close>, and \<open>Int63n n\<close> below \<open>n\<close>; it panics unless
  \<open>n\<close> is positive.
\<close>

definition rand_Int63 :: "env \<Rightarrow> int io" where
  "rand_Int63 e = do { r \<leftarrow> invoke e Rand63; ret (as_int r mod 2 ^ 63) }"

definition rand_Int63n :: "env \<Rightarrow> int \<Rightarrow> int io" where
  "rand_Int63n e n = do { r \<leftarrow> invoke e (Rand63n n); ret (as_int r mod n) }"

definition randomJitter :: "env \<Rightarrow> duration \<Rightarrow> duration \<Rightarrow> duration io" where
  "randomJitter e minJitter maxJitter =
     (let window = wrap64 (maxJitter - minJitter) in
      if window = 2 ^ 63 - 1 then do {
        r \<leftarrow> rand_Int63 e;
        ret (wrap64 (minJitter + r)) }
      else do {
        r \<leftarrow> rand_Int63n e (wrap64 (window + 1));
        ret (wrap64 (minJitter + r)) })"

section \<open>Creating runs\<close>

definition periodic_labels :: "telcoHealthcheck \<Rightarrow> smap" where
  "periodic_labels thc = [ManagedByLabel \<mapsto> ManagedByValue,
     ''telco-anomaly.io/healthcheck-ref'' \<mapsto> om_name thc]"

definition createAgenticRunForCluster ::
  "nat \<Rightarrow> ulib \<Rightarrow> env \<Rightarrow> telcoHealthcheck \<Rightarrow> string \<Rightarrow> string \<Rightarrow> runConfig \<Rightarrow> string \<Rightarrow> unit io" where
  "createAgenticRunForCluster k L e thc clusterName checkType cfg runName = do {
     v \<leftarrow> BuildVarMap L e Cached operatorNamespace clusterName;
     (case v of
        Inl er \<Rightarrow> ret ()
      | Inr vars \<Rightarrow>
          (case BuildObject L runName clusterName (periodic_labels thc) (ExpandVariables cfg vars) of
             Inl er \<Rightarrow> ret ()
           | Inr run \<Rightarrow> do {
               b \<leftarrow> Begin e operatorNamespace runName runName clusterName TriggerTypePeriodicHealthCheck
                      checkType thc;
               (case b of
                  Inl er \<Rightarrow> ret ()
                | Inr record \<Rightarrow> create_and_settle k e Cached operatorNamespace runName run (\<lambda>_. ())) })) }"

text \<open>What the delayed goroutine runs when its timer fires, unless the shutdown context is done.\<close>

definition delayed_run ::
  "nat \<Rightarrow> ulib \<Rightarrow> env \<Rightarrow> bool \<Rightarrow> telcoHealthcheck \<Rightarrow> string \<Rightarrow> string \<Rightarrow> runConfig \<Rightarrow> string \<Rightarrow> unit io" where
  "delayed_run k L e stopped thc clusterName checkType cfg runName =
     (if stopped then ret () else createAgenticRunForCluster k L e thc clusterName checkType cfg runName)"

fun create_loop ::
  "nat \<Rightarrow> ulib \<Rightarrow> env \<Rightarrow> telcoHealthcheck \<Rightarrow> string \<Rightarrow> runConfig \<Rightarrow> duration \<Rightarrow> duration \<Rightarrow> string
   \<Rightarrow> string list \<Rightarrow> unit io" where
  "create_loop k L e thc checkType cfg minJitter maxJitter runPrefix [] = ret ()"
| "create_loop k L e thc checkType cfg minJitter maxJitter runPrefix (clusterName # cs) =
     (let runName = periodicRunName runPrefix clusterName in
      if maxJitter = 0 then do {
        _ \<leftarrow> createAgenticRunForCluster k L e thc clusterName checkType cfg runName;
        create_loop k L e thc checkType cfg minJitter maxJitter runPrefix cs }
      else do {
        delay \<leftarrow> randomJitter e minJitter maxJitter;
        _ \<leftarrow> invoke e (Spawn delay clusterName checkType runName);
        create_loop k L e thc checkType cfg minJitter maxJitter runPrefix cs })"

definition run_prefix :: "string \<Rightarrow> instant \<Rightarrow> string" where
  "run_prefix checkType t = ''telco-health-'' @ checkType @ ''-'' @ dec_int (wrap64 t)"

definition createAgenticRunsForClustersWithConfig ::
  "nat \<Rightarrow> ulib \<Rightarrow> env \<Rightarrow> telcoHealthcheck \<Rightarrow> string list \<Rightarrow> string \<Rightarrow> runConfig \<Rightarrow> duration \<Rightarrow> duration
   \<Rightarrow> gerr option io" where
  "createAgenticRunsForClustersWithConfig k L e thc monitoredClusters checkType cfg minJitter maxJitter =
     (if minJitter < 0 \<or> maxJitter < minJitter then ret (Some (Msg ''invalid jitter window''))
      else do {
        t \<leftarrow> now e;
        _ \<leftarrow> create_loop k L e thc checkType cfg minJitter maxJitter (run_prefix checkType t) monitoredClusters;
        ret None })"

definition createAgenticRunsForClusters ::
  "nat \<Rightarrow> ulib \<Rightarrow> json \<Rightarrow> env \<Rightarrow> telcoHealthcheck \<Rightarrow> string list \<Rightarrow> string \<Rightarrow> gerr option io" where
  "createAgenticRunsForClusters k L J e thc monitoredClusters checkType = do {
     g \<leftarrow> loadRunConfigForCheck J e checkType;
     (case g of
        Inl er \<Rightarrow> ret (Some er)
      | Inr cfg \<Rightarrow> createAgenticRunsForClustersWithConfig k L e thc monitoredClusters checkType cfg 0 0) }"

section \<open>The schedule\<close>

text \<open>The pointer to a status timestamp, \<open>lastRun\<close>.\<close>

datatype slot = RDSComplianceSlot | LowLatencySlot

fun get_slot :: "slot \<Rightarrow> telcoHealthcheck \<Rightarrow> instant option" where
  "get_slot RDSComplianceSlot thc = st_lastRDSComplianceRunTime (thc_status thc)"
| "get_slot LowLatencySlot thc = st_lastLowLatencyCheckRunTime (thc_status thc)"

fun set_slot :: "slot \<Rightarrow> instant option \<Rightarrow> telcoHealthcheck \<Rightarrow> telcoHealthcheck" where
  "set_slot RDSComplianceSlot t thc =
     thc\<lparr>thc_status := (thc_status thc)\<lparr>st_lastRDSComplianceRunTime := t\<rparr>\<rparr>"
| "set_slot LowLatencySlot t thc =
     thc\<lparr>thc_status := (thc_status thc)\<lparr>st_lastLowLatencyCheckRunTime := t\<rparr>\<rparr>"

record periodicCheck =
  pc_name :: string
  pc_enabled :: bool
  pc_period :: "duration option"
  pc_minJitter :: "duration option"
  pc_maxJitter :: "duration option"
  pc_lastRun :: slot

definition configuredPeriodicChecks :: "telcoHealthcheck \<Rightarrow> periodicCheck list" where
  "configuredPeriodicChecks thc =
     (let p = sp_periodic (thc_spec thc); rds = ph_rdsCompliance p; ll = ph_lowLatencyCheck p in
      [\<lparr>pc_name = ''rds-compliance'', pc_enabled = rds_enabled rds, pc_period = rds_period rds,
        pc_minJitter = rds_minJitter rds, pc_maxJitter = rds_maxJitter rds, pc_lastRun = RDSComplianceSlot\<rparr>,
       \<lparr>pc_name = ''low-latency-check'', pc_enabled = ll_enabled ll, pc_period = ll_period ll,
        pc_minJitter = ll_minJitter ll, pc_maxJitter = ll_maxJitter ll, pc_lastRun = LowLatencySlot\<rparr>])"

definition from_opt :: "'a \<Rightarrow> 'a option \<Rightarrow> 'a" where
  "from_opt d x = (case x of None \<Rightarrow> d | Some y \<Rightarrow> y)"

definition resolvePeriodicJitter ::
  "periodicHealthChecksSpec \<Rightarrow> string \<Rightarrow> duration option \<Rightarrow> duration option \<Rightarrow> gerr + duration \<times> duration" where
  "resolvePeriodicJitter p checkName checkMin checkMax =
     (let globalMin = from_opt (30 * second) (ph_minJitter p);
          globalMax = from_opt (5 * minute) (ph_maxJitter p)
      in if globalMin < 0 \<or> globalMax < globalMin then Inl (Msg ''invalid global jitter window'')
         else (let minJitter = from_opt globalMin checkMin; maxJitter = from_opt globalMax checkMax in
               if minJitter < 0 \<or> maxJitter < minJitter
               then Inl (Msg (''invalid '' @ checkName @ '' jitter window''))
               else Inr (minJitter, maxJitter)))"

definition shouldRunCheck :: "env \<Rightarrow> instant option \<Rightarrow> duration \<Rightarrow> bool io" where
  "shouldRunCheck e lastRun period =
     (case lastRun of
        None \<Rightarrow> ret True
      | Some l \<Rightarrow> do { t \<leftarrow> now e; ret (time_sub t l \<ge> period) })"

definition as_stored_thc :: "telcoHealthcheck \<Rightarrow> resp \<Rightarrow> gerr + telcoHealthcheck" where
  "as_stored_thc x a = (case a of ROk \<Rightarrow> Inr x | _ \<Rightarrow> as_thc a)"

type_synonym periodic_result = "(duration \<times> bool \<times> gerr option) \<times> telcoHealthcheck"

text \<open>
  A check that is due: its configuration is read, the interval is claimed in the status, and the
  runs are created. The result tells whether the claim was persisted, and the error if any.
\<close>

definition claim_and_run ::
  "nat \<Rightarrow> ulib \<Rightarrow> json \<Rightarrow> env \<Rightarrow> instant \<Rightarrow> string list \<Rightarrow> periodicCheck \<Rightarrow> duration \<Rightarrow> duration
   \<Rightarrow> telcoHealthcheck \<Rightarrow> ((bool \<times> gerr option) \<times> telcoHealthcheck) io" where
  "claim_and_run k L J e t0 clusters check minJitter maxJitter thc = do {
     g \<leftarrow> loadRunConfigForCheck J e (pc_name check);
     (case g of
        Inl er \<Rightarrow> ret ((False, Some er), thc)
      | Inr cfg \<Rightarrow> do {
          let claimed = set_slot (pc_lastRun check) (Some t0) thc;
          a \<leftarrow> invoke e (StatusUpdate (KTHC claimed));
          (case as_stored_thc claimed a of
             Inl er \<Rightarrow> ret ((False, Some (Wrap (''persisting '' @ pc_name check @ '' schedule claim'') er)), claimed)
           | Inr stored \<Rightarrow> do {
               r \<leftarrow> createAgenticRunsForClustersWithConfig k L e stored clusters (pc_name check) cfg
                      minJitter maxJitter;
               ret ((True, map_option (Wrap (''creating '' @ pc_name check @ '' AgenticRuns'')) r), stored) }) }) }"

text \<open>A check that is not due: the time until it is.\<close>

definition until_due :: "env \<Rightarrow> instant option \<Rightarrow> duration \<Rightarrow> duration \<Rightarrow> duration io" where
  "until_due e lastRun checkPeriod requeueAfter =
     (case lastRun of
        None \<Rightarrow> ret requeueAfter
      | Some l \<Rightarrow> do {
          t \<leftarrow> now e;
          let untilNext = wrap64 (checkPeriod - time_sub t l);
          ret (if untilNext > 0 \<and> untilNext < requeueAfter then untilNext else requeueAfter) })"

fun periodic_loop ::
  "nat \<Rightarrow> ulib \<Rightarrow> json \<Rightarrow> env \<Rightarrow> instant \<Rightarrow> duration \<Rightarrow> string list \<Rightarrow> periodicCheck list
   \<Rightarrow> telcoHealthcheck \<Rightarrow> duration \<Rightarrow> bool \<Rightarrow> periodic_result io" where
  "periodic_loop k L J e t0 period clusters [] thc requeueAfter persisted =
     ret ((requeueAfter, persisted, None), thc)"
| "periodic_loop k L J e t0 period clusters (check # checks) thc requeueAfter persisted =
     (if \<not> pc_enabled check then periodic_loop k L J e t0 period clusters checks thc requeueAfter persisted
      else (case resolvePeriodicJitter (sp_periodic (thc_spec thc)) (pc_name check)
                   (pc_minJitter check) (pc_maxJitter check) of
          Inl er \<Rightarrow> ret ((requeueAfter, persisted, Some er), thc)
        | Inr (minJitter, maxJitter) \<Rightarrow> do {
            let checkPeriod = from_opt period (pc_period check);
            let requeueAfter = (if checkPeriod > 0 \<and> checkPeriod < requeueAfter then checkPeriod else requeueAfter);
            run \<leftarrow> shouldRunCheck e (get_slot (pc_lastRun check) thc) checkPeriod;
            (if run then do {
               ((claim, err), thc) \<leftarrow> claim_and_run k L J e t0 clusters check minJitter maxJitter thc;
               (case err of
                  Some er \<Rightarrow> ret ((requeueAfter, persisted \<or> claim, Some er), thc)
                | None \<Rightarrow> periodic_loop k L J e t0 period clusters checks thc requeueAfter True) }
             else do {
               requeueAfter \<leftarrow> until_due e (get_slot (pc_lastRun check) thc) checkPeriod requeueAfter;
               periodic_loop k L J e t0 period clusters checks thc requeueAfter persisted }) }))"

definition runPeriodicChecks ::
  "nat \<Rightarrow> ulib \<Rightarrow> json \<Rightarrow> env \<Rightarrow> telcoHealthcheck \<Rightarrow> string list \<Rightarrow> periodic_result io" where
  "runPeriodicChecks k L J e thc monitoredClusters = do {
     t0 \<leftarrow> now e;
     let period = ph_period (sp_periodic (thc_spec thc));
     (if period = 0 then ret ((0, False, None), thc)
      else periodic_loop k L J e t0 period monitoredClusters (configuredPeriodicChecks thc) thc period False) }"

lemmas [io_run] = loadRunConfigForCheck_def rand_Int63_def rand_Int63n_def randomJitter_def
  createAgenticRunForCluster_def delayed_run_def createAgenticRunsForClustersWithConfig_def
  createAgenticRunsForClusters_def shouldRunCheck_def claim_and_run_def until_due_def runPeriodicChecks_def

section \<open>Run names\<close>

text \<open>
  The syntax of a DNS-1123 subdomain, stated locally: lower-case alphanumerics, hyphens and dots,
  an alphanumeric at both ends and on both sides of every dot.
\<close>

definition lower_alnum :: "char \<Rightarrow> bool" where
  "lower_alnum c \<longleftrightarrow> (let n = (of_char c :: nat) in 48 \<le> n \<and> n \<le> 57 \<or> 97 \<le> n \<and> n \<le> 122)"

definition dns_char :: "char \<Rightarrow> bool" where
  "dns_char c \<longleftrightarrow> lower_alnum c \<or> c = CHR ''-'' \<or> c = CHR ''.''"

definition dns_pair :: "char \<Rightarrow> char \<Rightarrow> bool" where
  "dns_pair a b \<longleftrightarrow> (a = CHR ''.'' \<longrightarrow> lower_alnum b) \<and> (b = CHR ''.'' \<longrightarrow> lower_alnum a)"

definition dns_name :: "string \<Rightarrow> bool" where
  "dns_name s \<longleftrightarrow> s \<noteq> [] \<and> lower_alnum (hd s) \<and> lower_alnum (last s) \<and> list_all dns_char s
     \<and> successively dns_pair s"

lemma hyphen_pairs: "lower_alnum a \<Longrightarrow> dns_pair a (CHR ''-'')" "lower_alnum b \<Longrightarrow> dns_pair (CHR ''-'') b"
  "dns_char (CHR ''-'')" "lower_alnum c \<Longrightarrow> dns_char c"
  by (auto simp: dns_pair_def dns_char_def lower_alnum_def)

lemma dns_name_hyphen: "dns_name a \<Longrightarrow> dns_name b \<Longrightarrow> dns_name (a @ CHR ''-'' # b)"
  by (cases b) (auto simp: dns_name_def successively_append_iff hyphen_pairs)

lemma dns_name_take_trim:
  assumes "dns_name s" "0 < n"
  shows "dns_name (trim_name (take n s))"
proof -
  let ?t = "trim_name (take n s)"
  obtain c r where s: "s = c # r" using assms(1) by (cases s) (auto simp: dns_name_def)
  have c: "lower_alnum c" using assms(1) s by (simp add: dns_name_def)
  obtain q where q: "take n s = ?t @ q"
    using takeWhile_dropWhile_id [of "\<lambda>c. c \<in> set ''-.''" "rev (take n s)"]
    unfolding trim_name_def trim_right_def by (metis rev_append rev_rev_ident)
  have all: "list_all dns_char (take n s)"
    using assms(1) by (auto simp: dns_name_def list_all_iff dest: in_set_takeD)
  have suc: "successively dns_pair (take n s)"
    using assms(1) successively_append_iff [of dns_pair "take n s" "drop n s"] by (simp add: dns_name_def)
  have ne: "?t \<noteq> []"
  proof
    assume "?t = []"
    then have "\<forall>x \<in> set (take n s). x \<in> set ''-.''"
      unfolding trim_name_def trim_right_def by (simp add: dropWhile_eq_Nil_conv)
    moreover have "c \<in> set (take n s)" using s assms(2) by (cases n) auto
    ultimately have "c \<in> set ''-.''" by (rule bspec)
    then show False using c by (auto simp: lower_alnum_def)
  qed
  have "hd (?t @ q) = c" unfolding q [symmetric] using s assms(2) by (cases n) auto
  then have "hd ?t = c" using ne by simp
  moreover have "last ?t \<notin> set ''-.''"
    using ne unfolding trim_name_def by (rule trim_right_last)
  moreover have "list_all dns_char ?t" using all q by (metis list_all_append)
  moreover from this have "dns_char (last ?t)" using ne by (simp add: list_all_iff)
  moreover have "successively dns_pair ?t" using suc q by (metis successively_append_iff)
  ultimately show ?thesis using ne c by (auto simp: dns_name_def dns_char_def)
qed

lemma trim_name_id: "dns_name s \<Longrightarrow> trim_name s = s"
proof -
  assume s: "dns_name s"
  then have "last s \<notin> set ''-.''" by (auto simp: dns_name_def lower_alnum_def)
  with s show ?thesis
    by (cases s rule: rev_cases) (auto simp: trim_name_def trim_right_def dns_name_def)
qed

lemma hex_digit_lower: "n < 16 \<Longrightarrow> lower_alnum (hex_digit n)"
  by (auto simp: hex_digit_def lower_alnum_def take_bit_eq_mod)

lemma dns_name_alnum: "s \<noteq> [] \<Longrightarrow> list_all lower_alnum s \<Longrightarrow> dns_name s"
proof -
  assume s: "s \<noteq> []" "list_all lower_alnum s"
  have "successively dns_pair s"
    using s(2) by (induction s rule: induct_list012) (auto simp: dns_pair_def)
  with s show ?thesis by (auto simp: dns_name_def list_all_iff dns_char_def)
qed

lemma dns_name_digest: "bs \<noteq> [] \<Longrightarrow> dns_name (hex_encode bs)"
proof (rule dns_name_alnum)
  assume "bs \<noteq> []"
  then show "hex_encode bs \<noteq> []" by (cases bs) (simp_all add: hex_encode_def hex_byte_def)
  show "list_all lower_alnum (hex_encode bs)"
    using set_hex_encode [of bs] hex_digit_lower by (auto simp: list_all_iff)
qed

lemma digest8: "length (hex_encode (take 8 (sum256 c))) = 16" "take 8 (sum256 c) \<noteq> []"
  using length_sum256 [of c] by (auto simp flip: length_0_conv)

text \<open>The cluster part of a name, at most 40 characters.\<close>

definition cluster_part :: "string \<Rightarrow> string" where
  "cluster_part cluster = (if length (trim_name cluster) > 40 then trim_name (take 40 (trim_name cluster))
     else trim_name cluster)"

lemma length_trim_name: "length (trim_name s) \<le> length s"
  by (simp add: trim_name_def length_trim_right)

lemma length_cluster_part: "length (cluster_part c) \<le> 40"
  using length_trim_name [of "take 40 (trim_name c)"] by (simp add: cluster_part_def)

lemma dns_cluster_part: "dns_name c \<Longrightarrow> dns_name (cluster_part c)"
  by (simp add: cluster_part_def trim_name_id dns_name_take_trim)

definition name_suffix :: "string \<Rightarrow> string" where
  "name_suffix cluster = cluster_part cluster @ ''-'' @ hex_encode (take 8 (sum256 cluster))"

lemma length_name_suffix: "length (name_suffix c) \<le> 57"
  using length_cluster_part [of c] by (simp add: name_suffix_def digest8)

lemma periodicRunName_eq:
  "periodicRunName prefix c =
     (if length prefix + length (name_suffix c) > 252 then trim_name (take (252 - length (name_suffix c)) prefix)
      else prefix) @ CHR ''-'' # name_suffix c"
  by (simp add: periodicRunName_def Let_def name_suffix_def cluster_part_def)

text \<open>
  C40. Names of periodic runs are valid object names: at most 253 characters whatever the cluster
  is called, always ending in the digest of the whole cluster name however much is cut off, and a
  DNS-1123 subdomain if the prefix and the cluster name are.
\<close>

theorem periodicRunName_valid:
  "length (periodicRunName prefix c) \<le> 253
   \<and> (\<exists>p. periodicRunName prefix c = p @ hex_encode (take 8 (sum256 c)))
   \<and> (dns_name prefix \<and> dns_name c \<longrightarrow> dns_name (periodicRunName prefix c))"
proof -
  let ?p = "if length prefix + length (name_suffix c) > 252 then trim_name (take (252 - length (name_suffix c)) prefix)
    else prefix"
  have "length ?p + length (name_suffix c) \<le> 252"
    using length_name_suffix [of c] length_trim_name [of "take (252 - length (name_suffix c)) prefix"]
    by (cases "length prefix + length (name_suffix c) > 252") auto
  moreover have "dns_name (periodicRunName prefix c)" if "dns_name prefix" "dns_name c"
  proof -
    have "dns_name ?p"
      using that length_name_suffix [of c] by (auto intro: dns_name_take_trim)
    moreover have "dns_name (name_suffix c)"
      using dns_name_hyphen [OF dns_cluster_part [OF that(2)] dns_name_digest [OF digest8(2)], of c]
      by (simp add: name_suffix_def)
    ultimately show ?thesis by (simp only: periodicRunName_eq dns_name_hyphen)
  qed
  moreover have "\<exists>p. periodicRunName prefix c = p @ hex_encode (take 8 (sum256 c))"
    by (simp add: periodicRunName_eq name_suffix_def)
  ultimately show ?thesis by (simp add: periodicRunName_eq)
qed

theorem periodicRunName_valid_witness:
  "length (periodicRunName ''telco-health-rds-compliance-1700000000'' ''spoke-1.example'') \<le> 253
   \<and> dns_name (periodicRunName ''telco-health-rds-compliance-1700000000'' ''spoke-1.example'')"
proof -
  have "dns_name ''telco-health-rds-compliance-1700000000''" "dns_name ''spoke-1.example''"
    by (simp_all add: dns_name_def dns_char_def dns_pair_def lower_alnum_def)
  with periodicRunName_valid show ?thesis by blast
qed

section \<open>Jitter\<close>

lemma randomJitter_spec:
  assumes "0 \<le> mn" "mn \<le> mx" "in_int64 mx"
  shows "spec (randomJitter e mn mx) (\<lambda>d u. mn \<le> d \<and> d \<le> mx
    \<and> (\<exists>a. u = [(Rand63, a)] \<or> (\<exists>n. 0 < n \<and> u = [(Rand63n n, a)])))"
proof -
  have w: "wrap64 (mx - mn) = mx - mn"
    using assms by (intro wrap64_id) (simp add: in_int64_def)
  show ?thesis
  proof (cases "mx - mn = 2 ^ 63 - 1")
    case True
    have r: "0 \<le> i mod 2 ^ 63" "i mod 2 ^ 63 \<le> 2 ^ 63 - 1" for i :: int by simp_all
    have le: "mn + i mod 2 ^ 63 \<le> mx" for i using True r [of i] by linarith
    have b: "wrap64 (mn + i mod 2 ^ 63) = mn + i mod 2 ^ 63" for i
      using assms r [of i] le [of i] unfolding in_int64_def by (intro wrap64_id) (simp add: in_int64_def)
    have "wrap64 (2 ^ 63 - 1) = 2 ^ 63 - 1" by (simp add: in_int64_def)
    with True le b w show ?thesis
      unfolding randomJitter_def rand_Int63_def using assms r
      by (auto intro!: io_spec simp del: as_int_def)
  next
    case False
    have n: "wrap64 (mx - mn + 1) = mx - mn + 1"
      using assms False by (intro wrap64_id) (simp add: in_int64_def)
    have r: "i mod (mx - mn + 1) \<le> mx - mn" "0 \<le> i mod (mx - mn + 1)" for i
      using assms pos_mod_bound [of "mx - mn + 1" i] pos_mod_sign [of "mx - mn + 1" i] by simp_all
    then have b: "wrap64 (mn + i mod (mx - mn + 1)) = mn + i mod (mx - mn + 1)" for i
      using assms by (intro wrap64_id) (smt (verit) in_int64_def)
    have "mn + i mod (mx - mn + 1) \<le> mx" for i using r [of i] by simp
    with False b r assms show ?thesis
      unfolding randomJitter_def rand_Int63n_def by (auto intro!: io_spec simp: w n simp del: as_int_def)
  qed
qed

text \<open>
  The jitter stays in its window: for a valid window of signed 64-bit durations the delay lies
  between its ends, without overflow, and \<open>rand.Int63n\<close> is never called with an argument that
  makes it panic.
\<close>

theorem randomJitter_window:
  assumes "0 \<le> mn" "mn \<le> mx" "in_int64 mx"
  shows "mn \<le> fst (run_state (randomJitter e mn mx) t) \<and> fst (run_state (randomJitter e mn mx) t) \<le> mx
    \<and> (\<exists>c a. snd (run_state (randomJitter e mn mx) t) = t @ [(c, a)] \<and> (\<forall>n. c = Rand63n n \<longrightarrow> 0 < n))"
  using randomJitter_spec [OF assms, of e] unfolding spec_def by blast

theorem randomJitter_window_witness:
  "30 * second \<le> fst (run_state (randomJitter (\<lambda>t c. RInt 7) (30 * second) (2 ^ 63 - 1)) [])
   \<and> fst (run_state (randomJitter (\<lambda>t c. RInt 7) 0 (2 ^ 63 - 1)) []) \<le> 2 ^ 63 - 1"
  using randomJitter_window [of "30 * second" "2 ^ 63 - 1" "\<lambda>t c. RInt 7" "[]"]
    randomJitter_window [of 0 "2 ^ 63 - 1" "\<lambda>t c. RInt 7" "[]"]
  by (simp add: in_int64_def)

text \<open>
  Jitter resolution accepts exactly the valid windows: the result is the per-check window over
  the global one over the defaults of 30 seconds and 5 minutes, and it is produced only if both the
  global and the resulting window are non-negative and ordered.
\<close>

theorem resolvePeriodicJitter_iff:
  "resolvePeriodicJitter p name cmin cmax = Inr (a, b) \<longleftrightarrow>
     a = from_opt (from_opt (30 * second) (ph_minJitter p)) cmin
   \<and> b = from_opt (from_opt (5 * minute) (ph_maxJitter p)) cmax
   \<and> 0 \<le> a \<and> a \<le> b
   \<and> 0 \<le> from_opt (30 * second) (ph_minJitter p)
   \<and> from_opt (30 * second) (ph_minJitter p) \<le> from_opt (5 * minute) (ph_maxJitter p)"
  by (auto simp: resolvePeriodicJitter_def Let_def)

section \<open>Runs are audited\<close>

lemma createAgenticRunForCluster_flow:
  "spec (createAgenticRunForCluster k L e thc cluster checkType cfg runName)
     (\<lambda>_ u. audited_flow k L operatorNamespace runName cluster TriggerTypePeriodicHealthCheck checkType u)"
  unfolding createAgenticRunForCluster_def
proof (rule spec_bind, rule spec_conseq [OF emits_idle [OF BuildVarMap_idle]],
    intro spec_sum spec_ret)
  fix v :: "gerr + smap" and u :: trace and vars
  assume u: "idle u"
  show "audited_flow k L operatorNamespace runName cluster TriggerTypePeriodicHealthCheck checkType (u @ [])"
    using u by (simp add: audited_flow_idle)
  then show "audited_flow k L operatorNamespace runName cluster TriggerTypePeriodicHealthCheck checkType (u @ [])" .
next
  fix v :: "gerr + smap" and u :: trace and vars run
  assume u: "idle u"
    and run: "BuildObject L runName cluster (periodic_labels thc) (ExpandVariables cfg vars) = Inr run"
  have "periodic_labels thc ManagedByLabel = Some ManagedByValue"
    by (simp add: periodic_labels_def ManagedByLabel_def)
  then have for_run: "run_for L runName cluster run"
    unfolding run_for_def using run by blast
  show "spec (State_Monad.bind (Begin e operatorNamespace runName runName cluster
        TriggerTypePeriodicHealthCheck checkType thc)
      (\<lambda>b. case b of Inl er \<Rightarrow> ret ()
        | Inr record \<Rightarrow> create_and_settle k e Cached operatorNamespace runName run (\<lambda>_. ())))
    (\<lambda>_ w. audited_flow k L operatorNamespace runName cluster TriggerTypePeriodicHealthCheck checkType (u @ w))"
    by (intro spec_bind spec_conseq [OF Begin_idle] spec_sum spec_ret spec_conseq [OF create_and_settle_spec])
      (use u for_run in \<open>auto intro: audited_flowI audited_flow_idle\<close>)
qed

interpretation periodic_run: audited_creation k L operatorNamespace TriggerTypePeriodicHealthCheck checkType
  cluster "\<lambda>e. createAgenticRunForCluster k L e thc cluster checkType cfg runName"
  for L checkType cluster k thc cfg runName
  by unfold_locales (rule spec_conseq [OF createAgenticRunForCluster_flow], blast)

text \<open>
  C2. Audit before action, periodic checks: an AgenticRun is created at most once per call, only
  right after a record with its name, cluster and trigger was made durable, and it is a run that
  recovery recognises; the record is then settled according to the answer, in its status and its pending
  annotation, unless the API server refuses this, with a conflict only after all retries; it is left pending
  if the answer does not say whether the run exists. If no run is created, no identity became durable before
  the attempt was given up.
\<close>

theorem periodic_run_audited:
  "\<exists>u. snd (run_state (createAgenticRunForCluster k L e thc cluster checkType cfg runName) t) = t @ u
     \<and> audited_flow k L operatorNamespace runName cluster TriggerTypePeriodicHealthCheck checkType u
     \<and> length (filter is_run_create u) \<le> 1 \<and> ambiguous_is_last u"
  using spec_conj [OF createAgenticRunForCluster_flow spec_conj [OF periodic_run.one_run periodic_run.ambiguous]]
  unfolding spec_def by blast

text \<open>Everything one scheduled check does: runs are audited and delayed runs belong to the check.\<close>

definition valid_window :: "duration \<Rightarrow> duration \<Rightarrow> bool" where
  "valid_window mn mx \<longleftrightarrow> 0 \<le> mn \<and> mn \<le> mx \<and> in_int64 mx"

lemma randomJitter_any:
  "spec (randomJitter e mn mx) (\<lambda>d u. (valid_window mn mx \<longrightarrow> mn \<le> d \<and> d \<le> mx)
     \<and> (\<exists>q b. u = [(q, b)] \<and> (q = Rand63 \<or> (\<exists>i. q = Rand63n i))))"
proof (cases "valid_window mn mx")
  case True
  then have "0 \<le> mn" "mn \<le> mx" "in_int64 mx" by (simp_all add: valid_window_def)
  from randomJitter_spec [OF this] show ?thesis by (rule spec_conseq) auto
next
  case False
  then show ?thesis
    unfolding randomJitter_def rand_Int63_def rand_Int63n_def by (intro io_spec) auto
qed

definition spawns_only :: "string \<Rightarrow> duration \<Rightarrow> duration \<Rightarrow> call \<Rightarrow> bool" where
  "spawns_only checkType mn mx c \<longleftrightarrow>
     (\<forall>d cluster ct n. c = Spawn d cluster ct n \<longrightarrow> ct = checkType \<and> mx \<noteq> 0
        \<and> (valid_window mn mx \<longrightarrow> mn \<le> d \<and> d \<le> mx))"

lemma finishCreation_spawns: "emits (spawns_only ct mn mx) (finishCreation k e c ns name ph)"
  unfolding finishCreation_def finish_status_attempt_def finish_annotation_attempt_def
  by (intro io_emits) (auto simp: spawns_only_def)

lemma createAgenticRunForCluster_spawns:
  "emits (spawns_only ct mn mx) (createAgenticRunForCluster k L e thc cluster checkType cfg runName)"
  unfolding createAgenticRunForCluster_def BuildVarMap_def Begin_def create_and_settle_def Fail_def Confirm_def
  by (intro io_emits finishCreation_spawns) (auto simp: spawns_only_def intro!: io_emits)

definition check_trace :: "ulib \<Rightarrow> string \<Rightarrow> duration \<Rightarrow> duration \<Rightarrow> trace \<Rightarrow> bool" where
  "check_trace L checkType mn mx u \<longleftrightarrow>
     audit_before_create L operatorNamespace TriggerTypePeriodicHealthCheck u
   \<and> (\<forall>ev \<in> set u. spawns_only checkType mn mx (fst ev))"

lemma check_trace_append: "check_trace L ct mn mx u \<Longrightarrow> check_trace L ct mn mx v \<Longrightarrow> check_trace L ct mn mx (u @ v)"
  by (auto simp: check_trace_def audit_before_create_append)

lemma check_trace_quiet: "\<forall>ev \<in> set u. not_run (fst ev) \<and> (\<forall>d a b c. fst ev \<noteq> Spawn d a b c) \<Longrightarrow> check_trace L ct mn mx u"
proof -
  assume u: "\<forall>ev \<in> set u. not_run (fst ev) \<and> (\<forall>d a b c. fst ev \<noteq> Spawn d a b c)"
  then have "no_runs u" by (fastforce simp: no_runs_def not_run_def)
  with u show ?thesis by (simp add: check_trace_def spawns_only_def audit_before_create_no_runs)
qed

lemma create_loop_spec:
  "spec (create_loop k L e thc ct cfg mn mx prefix cs) (\<lambda>_ u. check_trace L ct mn mx u)"
proof (induction cs)
  case Nil
  show ?case by (auto intro!: spec_ret check_trace_quiet)
next
  case (Cons c cs)
  show ?case
  proof (cases "mx = 0")
    case True
    have "spec (createAgenticRunForCluster k L e thc c ct cfg (periodicRunName prefix c))
        (\<lambda>_ u. check_trace L ct mn mx u)"
      using spec_conj [OF periodic_run.audited createAgenticRunForCluster_spawns [unfolded emits_def]]
      unfolding check_trace_def .
    then have "spec (State_Monad.bind (createAgenticRunForCluster k L e thc c ct cfg (periodicRunName prefix c))
        (\<lambda>_. create_loop k L e thc ct cfg mn mx prefix cs)) (\<lambda>_ u. check_trace L ct mn mx u)"
      by (rule spec_bind [OF spec_conseq]) (rule spec_conseq [OF Cons.IH], rule check_trace_append)
    with True show ?thesis by (simp add: Let_def)
  next
    case False
    have "check_trace L ct mn mx ((q, b) # (Spawn d c ct n, a) # v)"
      if "valid_window mn mx \<longrightarrow> mn \<le> d \<and> d \<le> mx" "q = Rand63 \<or> (\<exists>i. q = Rand63n i)" "check_trace L ct mn mx v" for q b v d n a
    proof -
      have "check_trace L ct mn mx [(q, b), (Spawn d c ct n, a)]"
        using that(1,2) False
        by (auto simp: check_trace_def spawns_only_def intro!: audit_before_create_no_runs)
      from check_trace_append [OF this that(3)] show ?thesis by simp
    qed
    with False show ?thesis
      by (auto simp: Let_def intro!: spec_bind spec_invoke spec_conseq [OF randomJitter_any]
          spec_conseq [OF Cons.IH])
  qed
qed

lemma createAll_spec:
  "spec (createAgenticRunsForClustersWithConfig k L e thc clusters ct cfg mn mx)
    (\<lambda>_ u. check_trace L ct mn mx u)"
  unfolding createAgenticRunsForClustersWithConfig_def
proof (intro spec_if spec_ret spec_bind spec_now)
  show "check_trace L ct mn mx []" by (simp add: check_trace_quiet)
next
  fix r
  show "spec (create_loop k L e thc ct cfg mn mx (run_prefix ct (as_time r)) clusters)
     (\<lambda>x u. spec (ret None) (\<lambda>y v. check_trace L ct mn mx ([(Now, r)] @ u @ v)))"
    using check_trace_append [OF check_trace_quiet, of "[(Now, r)]"]
    by (auto intro!: spec_ret spec_conseq [OF create_loop_spec])
qed

section \<open>The schedule\<close>

fun slot_name :: "slot \<Rightarrow> string" where
  "slot_name RDSComplianceSlot = ''rds-compliance''"
| "slot_name LowLatencySlot = ''low-latency-check''"

text \<open>The claim of a slot: a status update that sets its timestamp was accepted.\<close>

definition claimed :: "slot \<Rightarrow> instant \<Rightarrow> trace \<Rightarrow> bool" where
  "claimed sl t0 v \<longleftrightarrow> (\<exists>x a y. (StatusUpdate (KTHC x), a) \<in> set v \<and> as_stored_thc x a = Inr y
     \<and> get_slot sl x = Some t0)"

definition run_effect :: "call \<Rightarrow> bool" where
  "run_effect c \<longleftrightarrow> (\<exists>r. c = Create (KRecord r)) \<or> (\<exists>r. c = Create (KUnstr r))
     \<or> (\<exists>d cluster ct n. c = Spawn d cluster ct n)"

definition claim_guard :: "instant \<Rightarrow> trace \<Rightarrow> call \<Rightarrow> bool" where
  "claim_guard t0 v c \<longleftrightarrow> (run_effect c \<longrightarrow> (\<exists>sl. claimed sl t0 v
     \<and> (\<forall>d cluster ct n. c = Spawn d cluster ct n \<longrightarrow> ct = slot_name sl)))"

definition schedule_trace :: "ulib \<Rightarrow> instant \<Rightarrow> trace \<Rightarrow> bool" where
  "schedule_trace L t0 u \<longleftrightarrow> guarded (claim_guard t0) u
     \<and> audit_before_create L operatorNamespace TriggerTypePeriodicHealthCheck u"

lemma stable_claim_guard: "stable (claim_guard t0)"
  unfolding stable_def claim_guard_def claimed_def by (auto; blast)

lemma schedule_trace_append:
  "schedule_trace L t0 u \<Longrightarrow> schedule_trace L t0 v \<Longrightarrow> schedule_trace L t0 (u @ v)"
  by (simp add: schedule_trace_def guarded_append [OF stable_claim_guard] audit_before_create_append)

definition no_effects :: "trace \<Rightarrow> bool" where
  "no_effects u \<longleftrightarrow> (\<forall>ev \<in> set u. \<not> run_effect (fst ev))"

lemma no_effects_simps [simp]:
  "no_effects []" "no_effects (u @ v) \<longleftrightarrow> no_effects u \<and> no_effects v"
  "no_effects ((c, a) # u) \<longleftrightarrow> \<not> run_effect c \<and> no_effects u"
  by (auto simp: no_effects_def)

lemma schedule_trace_quiet: "no_effects u \<Longrightarrow> schedule_trace L t0 u"
proof -
  assume u: "no_effects u"
  then have "guarded (claim_guard t0) u" by (intro guarded_all) (simp add: claim_guard_def no_effects_def)
  moreover have "no_runs u" using u by (fastforce simp: no_effects_def run_effect_def no_runs_def)
  ultimately show ?thesis by (simp add: schedule_trace_def audit_before_create_no_runs)
qed

lemma schedule_trace_claimed:
  assumes "as_stored_thc x a = Inr y" "get_slot sl x = Some t0" "check_trace L (slot_name sl) mn mx u"
  shows "schedule_trace L t0 ((StatusUpdate (KTHC x), a) # u)"
proof -
  have cl: "claimed sl t0 ((StatusUpdate (KTHC x), a) # v)" for v
    using assms(1,2) by (auto simp: claimed_def)
  have "guarded (\<lambda>v. claim_guard t0 ((StatusUpdate (KTHC x), a) # v)) u"
  proof (rule guarded_all)
    fix ev and v :: trace assume "ev \<in> set u"
    then have "spawns_only (slot_name sl) mn mx (fst ev)" using assms(3) by (simp add: check_trace_def)
    then show "claim_guard t0 ((StatusUpdate (KTHC x), a) # v) (fst ev)"
      unfolding claim_guard_def spawns_only_def using cl by blast
  qed
  moreover have "audit_before_create L operatorNamespace TriggerTypePeriodicHealthCheck
      ([(StatusUpdate (KTHC x), a)] @ u)"
    using assms(3) by (intro audit_before_create_append)
      (simp_all add: check_trace_def audit_before_create_no_runs)
  ultimately show ?thesis by (simp add: schedule_trace_def claim_guard_def run_effect_def)
qed

lemma LoadRunConfig_quiet: "emits (\<lambda>c. \<not> run_effect c) (LoadRunConfig J e c name ns)"
  unfolding LoadRunConfig_def by (intro io_emits) (auto simp: run_effect_def intro: io_emits)

lemma loadRunConfigForCheck_quiet: "spec (loadRunConfigForCheck J e ct) (\<lambda>_ u. no_effects u)"
proof -
  have "emits (\<lambda>c. \<not> run_effect c) (loadRunConfigForCheck J e ct)"
    unfolding loadRunConfigForCheck_def by (intro io_emits LoadRunConfig_quiet)
  then show ?thesis by (rule spec_of_emits) (simp add: no_effects_def)
qed

lemma shouldRunCheck_quiet: "spec (shouldRunCheck e l p) (\<lambda>_ u. no_effects u)"
  unfolding shouldRunCheck_def by (intro io_spec) (simp_all add: run_effect_def)

lemma quiet_now [simp]: "\<not> run_effect Now"
  by (simp add: run_effect_def)

lemma get_set_slot [simp]: "get_slot sl (set_slot sl t thc) = t"
  by (cases sl) simp_all

lemma claim_and_run_spec:
  assumes "pc_name check = slot_name (pc_lastRun check)"
  shows "spec (claim_and_run k L J e t0 cl check mn mx thc) (\<lambda>_ u. schedule_trace L t0 u)"
  unfolding claim_and_run_def
proof (rule spec_bind, rule spec_conseq [OF loadRunConfigForCheck_quiet])
  fix g and u :: trace
  assume "no_effects u"
  then have u: "schedule_trace L t0 u" by (rule schedule_trace_quiet)
  let ?c = "set_slot (pc_lastRun check) (Some t0) thc"
  have claim: "schedule_trace L t0 (u @ (StatusUpdate (KTHC ?c), a) # v)"
    if "as_stored_thc ?c a = Inr y" "check_trace L (pc_name check) mn mx v" for a y v
    using schedule_trace_append [OF u schedule_trace_claimed [OF that(1) get_set_slot]] that(2) assms by simp
  have fail: "schedule_trace L t0 (u @ [(StatusUpdate (KTHC ?c), a)])" for a
    using u by (rule schedule_trace_append) (simp add: schedule_trace_quiet run_effect_def)
  show "spec (case g of
         Inl er \<Rightarrow> ret ((False, Some er), thc)
       | Inr cfg \<Rightarrow> do {
           let claimed = set_slot (pc_lastRun check) (Some t0) thc;
           a \<leftarrow> invoke e (StatusUpdate (KTHC claimed));
           (case as_stored_thc claimed a of
              Inl er \<Rightarrow> ret ((False, Some (Wrap (''persisting '' @ pc_name check @ '' schedule claim'') er)), claimed)
            | Inr stored \<Rightarrow> do {
                r \<leftarrow> createAgenticRunsForClustersWithConfig k L e stored cl (pc_name check) cfg mn mx;
                ret ((True, map_option (Wrap (''creating '' @ pc_name check @ '' AgenticRuns'')) r), stored) }) })
     (\<lambda>x v. schedule_trace L t0 (u @ v))"
    by (intro spec_sum spec_ret spec_Let spec_bind spec_invoke spec_conseq [OF createAll_spec])
      (use u fail claim in simp_all)
qed

text \<open>What is left to wait stays positive and within what was asked for before; without a positive delay it stays as it is.\<close>

definition requeue_ok :: "duration \<Rightarrow> duration \<Rightarrow> bool" where
  "requeue_ok r s \<longleftrightarrow> (if 0 < r then 0 < s \<and> s \<le> r else s = r)"

lemma requeue_ok_trans: "requeue_ok r s \<Longrightarrow> requeue_ok s q \<Longrightarrow> requeue_ok r q"
  by (auto simp: requeue_ok_def split: if_splits)

lemma requeue_ok_min [simp]: "requeue_ok r (if 0 < p \<and> p < r then p else r)" "requeue_ok r r"
  by (auto simp: requeue_ok_def)

lemma requeue_ok_less: "0 < p \<Longrightarrow> p < r \<Longrightarrow> requeue_ok r p"
  by (simp add: requeue_ok_def)

lemma until_due_spec:
  "spec (until_due e l p r) (\<lambda>s u. no_effects u \<and> requeue_ok r s)"
  unfolding until_due_def by (intro io_spec) (simp_all del: as_time_def)

lemma periodic_loop_spec:
  assumes "\<forall>c \<in> set checks. pc_name c = slot_name (pc_lastRun c)"
  shows "spec (periodic_loop k L J e t0 period cl checks thc r p)
    (\<lambda>x u. schedule_trace L t0 u \<and> requeue_ok r (fst (fst x)))"
  using assms
proof (induction checks arbitrary: thc r p)
  case Nil
  show ?case by (auto intro!: spec_ret simp: schedule_trace_quiet)
next
  case (Cons check checks)
  then have name: "pc_name check = slot_name (pc_lastRun check)"
    and IH: "\<And>thc r p. spec (periodic_loop k L J e t0 period cl checks thc r p)
      (\<lambda>x u. schedule_trace L t0 u \<and> requeue_ok r (fst (fst x)))"
    by simp_all
  show ?case
  proof (cases "pc_enabled check")
    case False
    then show ?thesis using IH by simp
  next
    case True
    have q: "schedule_trace L t0 (u @ v)" if "no_effects u" "schedule_trace L t0 v" for u v
      using that by (simp add: schedule_trace_append schedule_trace_quiet)
    have branch: "spec (case err of
          None \<Rightarrow> periodic_loop k L J e t0 period cl checks thc' s True
        | Some er \<Rightarrow> ret ((s, p \<or> claim, Some er), thc'))
        (\<lambda>y v. schedule_trace L t0 (u @ w @ v) \<and> requeue_ok r (fst (fst y)))"
      if "no_effects u" "schedule_trace L t0 w" "requeue_ok r s" for err claim thc' s u w
      using that by (intro spec_option spec_ret spec_conseq [OF IH])
        (auto intro: q schedule_trace_append requeue_ok_trans)
    have en: "\<not> \<not> pc_enabled check" using True by simp
    show ?thesis
      unfolding periodic_loop.simps if_not_P [OF en] Let_def
      by (intro spec_sum spec_prod spec_if spec_bind spec_ret
          spec_conseq [OF shouldRunCheck_quiet] spec_conseq [OF claim_and_run_spec [OF name]]
          spec_conseq [OF until_due_spec] spec_conseq [OF IH])
        (auto intro!: branch simp del: if_split intro: q schedule_trace_quiet
          requeue_ok_trans [OF requeue_ok_min(1)] requeue_ok_trans requeue_ok_less)
  qed
qed

lemma configured_names: "\<forall>c \<in> set (configuredPeriodicChecks thc). pc_name c = slot_name (pc_lastRun c)"
  by (simp add: configuredPeriodicChecks_def Let_def)

lemma runPeriodicChecks_run:
  "run_state (runPeriodicChecks k L J e thc cl) t =
     (let t0 = as_time (e t Now); t' = t @ [(Now, e t Now)]; p = ph_period (sp_periodic (thc_spec thc)) in
      if p = 0 then (((0, False, None), thc), t')
      else run_state (periodic_loop k L J e t0 p cl (configuredPeriodicChecks thc) thc p False) t')"
  by (simp add: runPeriodicChecks_def now_def Let_def del: as_time_def)

text \<open>
  C1. Claim before run: in a scheduling pass every creation of a record or a run, and every delayed
  run, comes after an accepted status update that set a last-run time to the time of this pass, that
  of the same check for a delayed run; and every AgenticRun created in the pass is audited.
\<close>

theorem claim_before_run:
  "\<exists>u. snd (run_state (runPeriodicChecks k L J e thc cl) t) = t @ (Now, e t Now) # u
     \<and> guarded (claim_guard (as_time (e t Now))) u
     \<and> audit_before_create L operatorNamespace TriggerTypePeriodicHealthCheck u"
proof (cases "ph_period (sp_periodic (thc_spec thc)) = 0")
  case True
  then show ?thesis
    by (intro exI [of _ "[]"])
      (simp add: runPeriodicChecks_run audit_before_create_no_runs del: as_time_def)
next
  case False
  obtain u where "snd (run_state (periodic_loop k L J e (as_time (e t Now)) (ph_period (sp_periodic (thc_spec thc)))
        cl (configuredPeriodicChecks thc) thc (ph_period (sp_periodic (thc_spec thc))) False)
        (t @ [(Now, e t Now)])) = (t @ [(Now, e t Now)]) @ u"
    "schedule_trace L (as_time (e t Now)) u"
    by (rule specD [OF periodic_loop_spec [OF configured_names], where t = "t @ [(Now, e t Now)]"]) blast
  with False show ?thesis
    by (intro exI [of _ u]) (simp add: runPeriodicChecks_run Let_def schedule_trace_def del: as_time_def)
qed

text \<open>
  The next reconciliation is never later than the period: with a positive period the requested
  delay is positive and at most the period, whatever the overrides and the answers of the API server.
\<close>

theorem requeue_within_period:
  assumes "0 < ph_period (sp_periodic (thc_spec thc))"
  shows "0 < fst (fst (fst (run_state (runPeriodicChecks k L J e thc cl) t)))
    \<and> fst (fst (fst (run_state (runPeriodicChecks k L J e thc cl) t))) \<le> ph_period (sp_periodic (thc_spec thc))"
proof -
  let ?p = "ph_period (sp_periodic (thc_spec thc))"
  have "requeue_ok ?p (fst (fst (fst (run_state (periodic_loop k L J e (as_time (e t Now)) ?p
        cl (configuredPeriodicChecks thc) thc ?p False) (t @ [(Now, e t Now)])))))"
    by (rule specD [OF periodic_loop_spec [OF configured_names], where t = "t @ [(Now, e t Now)]"]) blast
  with assms show ?thesis
    by (simp add: runPeriodicChecks_run Let_def requeue_ok_def del: as_time_def)
qed

definition sample_json :: json where
  "sample_json = \<lparr>json_skills = \<lambda>s. Inr [], json_mcpServers = \<lambda>s. Inr [], json_strings = \<lambda>s. Inr [],
     json_nullable_strings = \<lambda>s. Inr (Some [])\<rparr>"

definition sample_periodic :: periodicHealthChecksSpec where
  "sample_periodic = \<lparr>ph_period = 3600 * second, ph_minJitter = None, ph_maxJitter = None,
     ph_rdsCompliance = \<lparr>rds_period = Some (600 * second), rds_enabled = True, rds_minJitter = None,
        rds_maxJitter = None\<rparr>,
     ph_lowLatencyCheck = \<lparr>ll_period = None, ll_enabled = False, ll_minJitter = None, ll_maxJitter = None\<rparr>\<rparr>"

definition sample_thc :: telcoHealthcheck where
  "sample_thc = \<lparr>om_name = TelcoHealthcheckCanonicalName, om_namespace = '''', om_uid = ''u1'',
     om_resourceVersion = ''1'', om_labels = Map.empty, om_annotations = Map.empty, om_finalizers = [],
     om_owners = [], om_creation = None, om_deletion = None,
     thc_spec = \<lparr>sp_alertManager = None, sp_managedClusters = \<lparr>mc_include = [], mc_exclude = []\<rparr>,
        sp_managedNamespaces = [],
        sp_alerts = \<lparr>al_hostNetwork = True, al_podNetwork = False, al_hostReservedCPU = False,
           al_ovsProcessCPU = False, al_userAlerts = False\<rparr>,
        sp_periodic = sample_periodic, sp_logLevel = LogLevelInfo, sp_purgeInterval = None\<rparr>,
     thc_status = \<lparr>st_monitoredClusters = [''spoke-1''], st_lastPeriodicRunTime = None,
        st_lastRDSComplianceRunTime = Some (1000 * second), st_lastLowLatencyCheckRunTime = None\<rparr>\<rparr>"

theorem requeue_within_period_witness:
  "0 < fst (fst (fst (run_state (runPeriodicChecks 4 tree_ulib sample_json (\<lambda>t c. RTime (1500 * second)) sample_thc []) [])))"
  using requeue_within_period [of sample_thc 4 tree_ulib sample_json "\<lambda>t c. RTime (1500 * second)" "[]" "[]"]
  by (simp add: sample_thc_def sample_periodic_def)

text \<open>A check that is disabled, or ran less than its period ago by every reading of the clock.\<close>

definition not_due :: "env \<Rightarrow> telcoHealthcheck \<Rightarrow> periodicCheck \<Rightarrow> bool" where
  "not_due e thc check \<longleftrightarrow> \<not> pc_enabled check \<or> (\<exists>l. get_slot (pc_lastRun check) thc = Some l
     \<and> (\<forall>t. time_sub (as_time (e t Now)) l
             < from_opt (ph_period (sp_periodic (thc_spec thc))) (pc_period check)))"

definition only_reads_clock :: "trace \<Rightarrow> bool" where
  "only_reads_clock u \<longleftrightarrow> (\<forall>ev \<in> set u. fst ev = Now)"

lemma only_reads_clock_simps [simp]:
  "only_reads_clock []" "only_reads_clock (ev # u) \<longleftrightarrow> fst ev = Now \<and> only_reads_clock u"
  by (auto simp: only_reads_clock_def)

lemma not_due_loop:
  assumes "\<forall>c \<in> set checks. not_due e thc c" "period = ph_period (sp_periodic (thc_spec thc))"
  shows "\<exists>u. snd (run_state (periodic_loop k L J e t0 period cl checks thc r p) t) = t @ u \<and> only_reads_clock u"
  using assms(1)
proof (induction checks arbitrary: r t)
  case Nil
  show ?case by simp
next
  case (Cons check checks)
  then have IH: "\<exists>u. snd (run_state (periodic_loop k L J e t0 period cl checks thc r p) t) = t @ u \<and> only_reads_clock u"
    for r t by simp
  show ?case
  proof (cases "pc_enabled check")
    case False
    with IH show ?thesis by simp
  next
    case True
    with Cons.prems obtain l where l: "get_slot (pc_lastRun check) thc = Some l"
      "\<And>t. \<not> time_sub (as_time (e t Now)) l \<ge> from_opt period (pc_period check)"
      by (auto simp: not_due_def assms(2) not_le)
    show ?thesis
    proof (cases "resolvePeriodicJitter (sp_periodic (thc_spec thc)) (pc_name check)
        (pc_minJitter check) (pc_maxJitter check)")
      case (Inl er)
      with True show ?thesis by (intro exI [of _ "[]"]) simp
    next
      case (Inr w)
      have "\<exists>r2 a b. run_state (periodic_loop k L J e t0 period cl (check # checks) thc r p) t
          = run_state (periodic_loop k L J e t0 period cl checks thc r2 p) (t @ [(Now, a), (Now, b)])"
        using True l Inr
        by (cases w) (auto simp: shouldRunCheck_def until_due_def now_def Let_def simp del: as_time_def)
      then obtain r2 a b where run: "run_state (periodic_loop k L J e t0 period cl (check # checks) thc r p) t
          = run_state (periodic_loop k L J e t0 period cl checks thc r2 p) (t @ [(Now, a), (Now, b)])"
        by blast
      obtain u where "snd (run_state (periodic_loop k L J e t0 period cl checks thc r2 p)
          (t @ [(Now, a), (Now, b)])) = (t @ [(Now, a), (Now, b)]) @ u" "only_reads_clock u"
        using IH by blast
      with run show ?thesis by (intro exI [of _ "[(Now, a), (Now, b)] @ u"]) simp
    qed
  qed
qed

text \<open>
  No second run within a period: if every check is disabled or was last run less than its
  period ago, a scheduling pass does nothing but read the clock, so once a claim is in the status,
  repeated reconciliations within the period create nothing.
\<close>

theorem not_due_does_nothing:
  assumes "\<forall>check \<in> set (configuredPeriodicChecks thc). not_due e thc check"
  shows "\<exists>u. snd (run_state (runPeriodicChecks k L J e thc cl) t) = t @ u \<and> only_reads_clock u"
proof (cases "ph_period (sp_periodic (thc_spec thc)) = 0")
  case True
  then show ?thesis
    by (intro exI [of _ "[(Now, e t Now)]"]) (simp add: runPeriodicChecks_run)
next
  case False
  obtain u where "snd (run_state (periodic_loop k L J e (as_time (e t Now)) (ph_period (sp_periodic (thc_spec thc)))
        cl (configuredPeriodicChecks thc) thc (ph_period (sp_periodic (thc_spec thc))) False)
        (t @ [(Now, e t Now)])) = (t @ [(Now, e t Now)]) @ u" "only_reads_clock u"
    using not_due_loop [OF assms refl] by blast
  with False show ?thesis
    by (intro exI [of _ "(Now, e t Now) # u"]) (simp add: runPeriodicChecks_run Let_def del: as_time_def)
qed

theorem not_due_does_nothing_witness:
  "\<exists>u. snd (run_state (runPeriodicChecks 4 tree_ulib sample_json (\<lambda>t c. RTime (1500 * second)) sample_thc [''spoke-1'']) []) = u
     \<and> only_reads_clock u"
  using not_due_does_nothing [of sample_thc "\<lambda>t c. RTime (1500 * second)" 4 tree_ulib sample_json "[''spoke-1'']" "[]"]
  by (simp add: configuredPeriodicChecks_def not_due_def sample_thc_def sample_periodic_def from_opt_def
      time_sub_def)

text \<open>
  A period override of zero does not disable a check: the check is due whenever the clock has
  not gone back behind its last run, so every reconciliation runs it.
\<close>

theorem zero_override_always_due:
  "fst (run_state (shouldRunCheck e (Some l) 0) t) \<longleftrightarrow> l \<le> as_time (e t Now)"
  by (auto simp: shouldRunCheck_def now_def time_sub_def simp del: as_time_def)

end
