(* ===== verification/Alert_Names.thy ===== *)
theory Alert_Names
  imports Prelude
begin

text \<open>
  The scanners that read alert names back from the rules text: the alert receiver
  (\<open>internal/alertreceiver/handler.go\<close>) and the controller (\<open>internal/controller/alertrules.go\<close>)
  each have their own copy of \<open>parseAlertNamesFromRulesYAML\<close> and \<open>extractAlertName\<close>. What a
  scanner promises is a locale; both copies are interpretations of it.
\<close>

section \<open>The contract of a scanner\<close>

definition is_blank :: "char \<Rightarrow> bool" where
  "is_blank c \<longleftrightarrow> c = CHR '' '' \<or> c = tab"

text \<open>The first occurrence of \<open>alert:\<close> with something behind it gives the name of a line.\<close>

fun first_name :: "string \<Rightarrow> string" where
  "first_name [] = []"
| "first_name (c # cs) =
     (if take 6 (c # cs) = ''alert:'' \<and> dropWhile is_blank (drop 6 (c # cs)) \<noteq> []
      then dropWhile is_blank (drop 6 (c # cs)) else first_name cs)"

definition names_in :: "string \<Rightarrow> string set" where
  "names_in s = {n. n \<noteq> [] \<and> n \<in> first_name ` set (lines_of s)}"

locale alert_scanner =
  fixes name_of :: "string \<Rightarrow> string" and parse :: "string \<Rightarrow> string set"
  assumes extract_first: "name_of line = first_name line"
    and parse_lines: "parse s = {n. n \<noteq> [] \<and> n \<in> name_of ` set (lines_of s)}"
begin

lemma parse_names: "parse s = names_in s"
  by (auto simp: parse_lines names_in_def extract_first image_iff)

end

lemma names_in_Nil [simp]: "names_in [] = {}"
  by (simp add: names_in_def)

lemma names_in_split: "names_in (s @ newline # t) = names_in (s @ [newline]) \<union> names_in t"
  by (subst (1 2 3) names_in_def) (subst lines_of_append_newline, auto)

lemma names_in_snoc_newline: "names_in (s @ [newline]) = names_in s"
proof -
  have "lines_of (s @ [newline]) = lines_of s \<or> lines_of (s @ [newline]) = lines_of s @ [[]]"
  proof (induction s)
    case Nil
    show ?case by simp
  next
    case (Cons c s)
    then show ?case by (auto split: list.splits)
  qed
  then show ?thesis by (auto simp: names_in_def)
qed

text \<open>Indentation does not change the name on a line.\<close>

lemma first_name_indent: "list_all is_blank p \<Longrightarrow> first_name (p @ l) = first_name l"
  by (induction p) (auto simp: is_blank_def)

lemma lines_of_indent:
  assumes "newline \<notin> set q" "newline \<notin> set p"
  shows "lines_of (p @ replace_newlines (newline # q) s @ [newline]) =
    (p @ hd (lines_of (s @ [newline]))) # map ((@) q) (tl (lines_of (s @ [newline])))"
  using assms(2)
proof (induction s arbitrary: p)
  case Nil
  then show ?case by (simp add: replace_newlines_def lines_of_one)
next
  case (Cons c s)
  obtain l ls where l: "lines_of (s @ [newline]) = l # ls"
    by (cases "lines_of (s @ [newline])") simp_all
  show ?case
  proof (cases "c = newline")
    case True
    have "lines_of (p @ newline # q @ replace_newlines (newline # q) s @ [newline])
        = lines_of (p @ [newline]) @ lines_of (q @ replace_newlines (newline # q) s @ [newline])"
      by (rule lines_of_append_newline)
    with True Cons.prems Cons.IH [OF assms(1)] l show ?thesis
      by (simp add: replace_newlines_def lines_of_one)
  next
    case False
    have "newline \<notin> set (p @ [c])" using False Cons.prems by auto
    from Cons.IH [OF this] False l show ?thesis by (simp add: replace_newlines_def)
  qed
qed

lemma names_in_indent:
  assumes "list_all is_blank q"
  shows "names_in (q @ replace_newlines (newline # q) s @ [newline]) = names_in s"
proof -
  have "\<not> is_blank newline" by (simp add: is_blank_def)
  then have q: "newline \<notin> set q" using assms unfolding list_all_iff by blast
  obtain l ls where l: "lines_of (s @ [newline]) = l # ls"
    by (cases "lines_of (s @ [newline])") simp_all
  have "set (lines_of (q @ replace_newlines (newline # q) s @ [newline])) = (@) q ` set (l # ls)"
    using lines_of_indent [OF q q, of s] l by simp
  then have "names_in (q @ replace_newlines (newline # q) s @ [newline]) = names_in (s @ [newline])"
    by (simp add: names_in_def l first_name_indent [OF assms] image_image)
  then show ?thesis by (simp add: names_in_snoc_newline)
qed

section \<open>The loops of the code\<close>

text \<open>The inner loop that looks for the end of a line.\<close>

function line_end :: "string \<Rightarrow> nat \<Rightarrow> nat" where
  "line_end input j = (if j < length input \<and> input ! j \<noteq> newline then line_end input (Suc j) else j)"
  by pat_completeness auto
termination by (relation "measure (\<lambda>(input, j). length input - j)") auto

declare line_end.simps [simp del]

lemma line_end_eq: "line_end input j = j + length (takeWhile (\<lambda>c. c \<noteq> newline) (drop j input))"
proof (induction input j rule: line_end.induct)
  case (1 input j)
  show ?case
  proof (cases "j < length input")
    case True
    then have d: "drop j input = input ! j # drop (Suc j) input" by (simp add: Cons_nth_drop_Suc)
    then show ?thesis using True 1 by (simp add: line_end.simps [of input j])
  next
    case False
    then show ?thesis by (simp add: line_end.simps [of input j])
  qed
qed

lemma lines_of_take:
  "s \<noteq> [] \<Longrightarrow> lines_of s = takeWhile (\<lambda>c. c \<noteq> newline) s
     # lines_of (drop (Suc (length (takeWhile (\<lambda>c. c \<noteq> newline) s))) s)"
proof (induction s)
  case Nil
  then show ?case by simp
next
  case (Cons c s)
  then show ?case by (cases s) auto
qed

section \<open>The receiver's copy\<close>

function rcv_extract_from :: "string \<Rightarrow> nat \<Rightarrow> string" where
  "rcv_extract_from line k =
     (if k + 6 \<le> length line then
        (if take 6 (drop k line) = ''alert:'' then
           (let name = dropWhile is_blank (drop (k + 6) line) in
            if length name > 0 then name else rcv_extract_from line (Suc k))
         else rcv_extract_from line (Suc k))
      else [])"
  by pat_completeness auto
termination by (relation "measure (\<lambda>(line, k). length line - k)") auto

definition rcv_extractAlertName :: "string \<Rightarrow> string" where
  "rcv_extractAlertName line = rcv_extract_from line 0"

function rcv_scan :: "string \<Rightarrow> nat \<Rightarrow> string set \<Rightarrow> string set" where
  "rcv_scan input i names =
     (if i < length input then
        (let j = line_end input i;
             name = rcv_extractAlertName (take (j - i) (drop i input))
         in rcv_scan input (Suc j) (if name \<noteq> [] then insert name names else names))
      else names)"
  by pat_completeness auto
termination
  by (relation "measure (\<lambda>(input, i, names). length input - i)") (auto simp: line_end_eq)

definition rcv_parseAlertNamesFromRulesYAML :: "string \<Rightarrow> string set" where
  "rcv_parseAlertNamesFromRulesYAML input = rcv_scan input 0 {}"

section \<open>The controller's copy\<close>

function ctl_extract_from :: "string \<Rightarrow> nat \<Rightarrow> string" where
  "ctl_extract_from line k =
     (if k < length line then
        (if k + 6 \<le> length line \<and> take 6 (drop k line) = ''alert:'' then
           (let name = dropWhile is_blank (drop (k + 6) line) in
            if length name > 0 then name else ctl_extract_from line (Suc k))
         else ctl_extract_from line (Suc k))
      else [])"
  by pat_completeness auto
termination by (relation "measure (\<lambda>(line, k). length line - k)") auto

definition ctl_extractAlertName :: "string \<Rightarrow> string" where
  "ctl_extractAlertName line = ctl_extract_from line 0"

function parseAlertNamesFromString :: "string \<Rightarrow> nat \<Rightarrow> string set \<Rightarrow> string set" where
  "parseAlertNamesFromString input i out =
     (if i < length input then
        (let j = line_end input i;
             name = ctl_extractAlertName (take (j - i) (drop i input))
         in parseAlertNamesFromString input (Suc j) (if name \<noteq> [] then insert name out else out))
      else out)"
  by pat_completeness auto
termination
  by (relation "measure (\<lambda>(input, i, out). length input - i)") (auto simp: line_end_eq)

definition ctl_parseAlertNamesFromRulesYAML :: "string \<Rightarrow> string set" where
  "ctl_parseAlertNamesFromRulesYAML yaml = parseAlertNamesFromString yaml 0 {}"

declare rcv_extract_from.simps [simp del] ctl_extract_from.simps [simp del]
  rcv_scan.simps [simp del] parseAlertNamesFromString.simps [simp del]

section \<open>Both copies keep the contract\<close>

lemma first_name_short: "length s < 6 \<Longrightarrow> first_name s = []"
  by (induction s) auto

lemma first_name_drop:
  assumes "k < length line"
  shows "first_name (drop k line) =
     (if take 6 (drop k line) = ''alert:'' \<and> dropWhile is_blank (drop (k + 6) line) \<noteq> []
      then dropWhile is_blank (drop (k + 6) line) else first_name (drop (Suc k) line))"
  using first_name.simps(2) [of "line ! k" "drop (Suc k) line"]
  by (simp only: Cons_nth_drop_Suc [OF assms] drop_drop add.commute)

lemma take_6_alert: "take 6 s = ''alert:'' \<Longrightarrow> 6 \<le> length s"
  by (rule ccontr) auto

lemma ctl_extract_from_eq: "ctl_extract_from line k = first_name (drop k line)"
proof (induction line k rule: ctl_extract_from.induct)
  case (1 line k)
  show ?case
  proof (cases "k < length line")
    case True
    have "take 6 (drop k line) = ''alert:'' \<Longrightarrow> k + 6 \<le> length line"
      using take_6_alert [of "drop k line"] True by simp
    with True 1 first_name_drop [OF True] show ?thesis
      by (auto simp: ctl_extract_from.simps [of line k] Let_def)
  next
    case False
    then show ?thesis by (simp add: ctl_extract_from.simps [of line k])
  qed
qed

lemma rcv_extract_from_eq: "rcv_extract_from line k = first_name (drop k line)"
proof (induction line k rule: rcv_extract_from.induct)
  case (1 line k)
  show ?case
  proof (cases "k + 6 \<le> length line")
    case True
    then have k: "k < length line" by simp
    from True 1 first_name_drop [OF k] show ?thesis
      by (auto simp: rcv_extract_from.simps [of line k] Let_def)
  next
    case False
    then show ?thesis by (simp add: rcv_extract_from.simps [of line k] first_name_short)
  qed
qed

lemma lines_of_from:
  assumes "i < length input"
  shows "lines_of (drop i input) =
    take (line_end input i - i) (drop i input) # lines_of (drop (Suc (line_end input i)) input)"
proof -
  let ?t = "takeWhile (\<lambda>c. c \<noteq> newline) (drop i input)"
  have "drop i input \<noteq> []" using assms by simp
  from lines_of_take [OF this] show ?thesis
    by (simp add: line_end_eq takeWhile_eq_take [symmetric] add.commute)
qed

lemma rcv_scan_eq:
  "rcv_scan input i names = names \<union> {n. n \<noteq> [] \<and> n \<in> rcv_extractAlertName ` set (lines_of (drop i input))}"
proof (induction input i names rule: rcv_scan.induct)
  case (1 input i names)
  show ?case
  proof (cases "i < length input")
    case True
    with 1 [OF True refl refl] show ?thesis
      by (subst rcv_scan.simps) (auto simp: Let_def lines_of_from)
  next
    case False
    then show ?thesis by (subst rcv_scan.simps) simp
  qed
qed

lemma parseAlertNamesFromString_eq:
  "parseAlertNamesFromString input i out =
     out \<union> {n. n \<noteq> [] \<and> n \<in> ctl_extractAlertName ` set (lines_of (drop i input))}"
proof (induction input i out rule: parseAlertNamesFromString.induct)
  case (1 input i out)
  show ?case
  proof (cases "i < length input")
    case True
    with 1 [OF True refl refl] show ?thesis
      by (subst parseAlertNamesFromString.simps) (auto simp: Let_def lines_of_from)
  next
    case False
    then show ?thesis by (subst parseAlertNamesFromString.simps) simp
  qed
qed

interpretation rcv: alert_scanner rcv_extractAlertName rcv_parseAlertNamesFromRulesYAML
  by unfold_locales
    (simp_all add: rcv_extractAlertName_def rcv_extract_from_eq rcv_parseAlertNamesFromRulesYAML_def rcv_scan_eq)

interpretation ctl: alert_scanner ctl_extractAlertName ctl_parseAlertNamesFromRulesYAML
  by unfold_locales
    (simp_all add: ctl_extractAlertName_def ctl_extract_from_eq ctl_parseAlertNamesFromRulesYAML_def
      parseAlertNamesFromString_eq)

text \<open>
  The two copies of the rules scanner agree: the alert receiver and the controller read the
  same set of alert names out of every rules text.
\<close>

theorem scanners_agree:
  "rcv_parseAlertNamesFromRulesYAML s = ctl_parseAlertNamesFromRulesYAML s"
  by (simp add: rcv.parse_names ctl.parse_names)

end
