(* ===== verification/Alert_Rules.thy ===== *)
theory Alert_Rules
  imports Agentic_Run Alert_Names
begin

text \<open>
  Alert definitions and what the controller derives from them: parsing of alert ConfigMaps
  (\<open>useralerts.go\<close>), the Thanos rules ConfigMap (\<open>alertrules.go\<close>) and the metrics allowlist
  (\<open>observabilitymetrics.go\<close>).
\<close>

definition observabilityNamespace :: string where
  "observabilityNamespace = ''open-cluster-management-observability''"
definition thanosRulerConfigMap :: string where "thanosRulerConfigMap = ''thanos-ruler-custom-rules''"
definition customRulesKey :: string where "customRulesKey = ''custom_rules.yaml''"
definition userAlertLabel :: string where "userAlertLabel = ''ran.openshift.io/user-managed-alert''"
definition systemAlertLabel :: string where "systemAlertLabel = ''ran.openshift.io/system-managed-alert''"
definition observabilityMetricsConfigMap :: string where
  "observabilityMetricsConfigMap = ''observability-metrics-custom-allowlist''"
definition metricsListKey :: string where "metricsListKey = ''metrics_list.yaml''"
definition userWorkloadMetricsListKey :: string where
  "userWorkloadMetricsListKey = ''uwl_metrics_list.yaml''"

section \<open>Alert definitions\<close>

record userAlertConfig =
  ua_alertName :: string
  ua_groupName :: string
  ua_alertRule :: string
  ua_alertMetrics :: "string list"
  ua_userWorkloadMetrics :: "string list"
  ua_configMapName :: string

definition parseAlertConfigMap :: "json \<Rightarrow> configMap \<Rightarrow> userAlertConfig option" where
  "parseAlertConfigMap J cm =
     (let name = data_get (cm_data cm) ''alertName'';
          rule = data_get (cm_data cm) ''alertRule'';
          raw = data_get (cm_data cm) ''alertMetrics'';
          rawUser = data_get (cm_data cm) ''alertUserWorkloadMetrics''
      in if name = '''' \<or> rule = '''' then None
         else (case (if raw \<noteq> '''' \<and> raw \<noteq> ''[]'' then json_strings J raw else Inr []) of
             Inl er \<Rightarrow> None
           | Inr metrics \<Rightarrow>
               (case (if rawUser \<noteq> '''' then
                        (case json_nullable_strings J rawUser of
                           Inl er \<Rightarrow> None
                         | Inr None \<Rightarrow> None
                         | Inr (Some names) \<Rightarrow> those names)
                      else Some []) of
                  None \<Rightarrow> None
                | Some userWorkloadMetrics \<Rightarrow>
                    Some \<lparr>ua_alertName = name, ua_groupName = data_get (cm_data cm) ''alertGroupName'',
                      ua_alertRule = rule, ua_alertMetrics = metrics,
                      ua_userWorkloadMetrics = userWorkloadMetrics, ua_configMapName = om_name cm\<rparr>)))"

fun parse_all :: "json \<Rightarrow> configMap list \<Rightarrow> userAlertConfig list" where
  "parse_all J [] = []"
| "parse_all J (cm # cms) =
     (case parseAlertConfigMap J cm of None \<Rightarrow> parse_all J cms | Some cfg \<Rightarrow> cfg # parse_all J cms)"

definition user_alert_labels :: "(string \<times> string) list" where
  "user_alert_labels = [(ManagedByLabel, ManagedByValue), (userAlertLabel, ''true'')]"
definition system_alert_labels :: "(string \<times> string) list" where
  "system_alert_labels = [(ManagedByLabel, ManagedByValue), (systemAlertLabel, ''true'')]"

definition listUserAlertConfigs :: "json \<Rightarrow> env \<Rightarrow> string \<Rightarrow> (gerr + userAlertConfig list) io" where
  "listUserAlertConfigs J e ns = do {
     g \<leftarrow> api_list kConfigMap e Cached ConfigMapKind ns user_alert_labels;
     ret (case g of Inl er \<Rightarrow> Inl er | Inr cms \<Rightarrow> Inr (parse_all J cms)) }"

definition isUserAlertConfigMap :: "object_meta \<Rightarrow> bool" where
  "isUserAlertConfigMap obj \<longleftrightarrow> sget (om_labels obj) ManagedByLabel = ManagedByValue
     \<and> sget (om_labels obj) userAlertLabel = ''true''"

definition listAllAlertConfigs :: "json \<Rightarrow> env \<Rightarrow> string \<Rightarrow> bool \<Rightarrow> (gerr + userAlertConfig list) io" where
  "listAllAlertConfigs J e ns userAlertsEnabled = do {
     g \<leftarrow> api_list kConfigMap e Cached ConfigMapKind ns system_alert_labels;
     (case g of
        Inl er \<Rightarrow> ret (Inl (Wrap ''listing system alert ConfigMaps'' er))
      | Inr sysCMs \<Rightarrow>
          if userAlertsEnabled then do {
            h \<leftarrow> api_list kConfigMap e Cached ConfigMapKind ns user_alert_labels;
            ret (case h of
               Inl er \<Rightarrow> Inl (Wrap ''listing user alert ConfigMaps'' er)
             | Inr userCMs \<Rightarrow> Inr (parse_all J sysCMs @ parse_all J userCMs)) }
          else ret (Inr (parse_all J sysCMs))) }"

section \<open>The rules text\<close>

definition group_name :: "(string \<Rightarrow> string) \<Rightarrow> userAlertConfig \<Rightarrow> string" where
  "group_name ul a = (if ua_groupName a = '''' then ''telco-user-'' @ to_lower ul (ua_alertName a)
                      else ua_groupName a)"

definition rules_entry :: "(string \<Rightarrow> string) \<Rightarrow> userAlertConfig \<Rightarrow> string" where
  "rules_entry ul a =
     (let indented = replace_newlines (newline # ''    '') (trim_space (ua_alertRule a))
      in ''  - name: '' @ group_name ul a @ newline # ''    rules:'' @ newline # ''    '' @ indented @ [newline])"

definition buildCustomRulesYAML :: "(string \<Rightarrow> string) \<Rightarrow> userAlertConfig list \<Rightarrow> string" where
  "buildCustomRulesYAML ul allAlerts =
     (if allAlerts = [] then ''groups: []'' @ [newline]
      else foldl (\<lambda>content a. content @ rules_entry ul a) (''groups:'' @ [newline]) allAlerts)"

section \<open>The rules ConfigMap\<close>

definition managed_configMap :: "string \<Rightarrow> string \<Rightarrow> smap \<Rightarrow> configMap" where
  "managed_configMap ns name d = \<lparr>om_name = name, om_namespace = ns, om_uid = '''', om_resourceVersion = '''',
     om_labels = [ManagedByLabel \<mapsto> ManagedByValue], om_annotations = Map.empty, om_finalizers = [],
     om_owners = [], om_creation = None, om_deletion = None, cm_data = Some d\<rparr>"

text \<open>The assignment to the key of a ConfigMap whose \<open>data\<close> is nil panics.\<close>

definition store_rules :: "env \<Rightarrow> string \<Rightarrow> gerr option outcome io" where
  "store_rules e rulesContent = do {
     h \<leftarrow> api_get as_configMap e Cached ConfigMapKind observabilityNamespace thanosRulerConfigMap;
     (case h of
        Inl er \<Rightarrow>
          if isNotFound er then do {
            r \<leftarrow> api_do e (Create (KConfigMap (managed_configMap observabilityNamespace thanosRulerConfigMap
                   [customRulesKey \<mapsto> rulesContent])));
            ret (Done (map_option (Wrap ''creating rules ConfigMap'') r)) }
          else ret (Done (Some (Wrap ''getting rules ConfigMap'' er)))
      | Inr existing \<Rightarrow>
          (case cm_data existing of
             None \<Rightarrow> ret Panicked
           | Some d \<Rightarrow> do {
               r \<leftarrow> api_do e (Update (KConfigMap (existing\<lparr>cm_data := Some (d(customRulesKey \<mapsto> rulesContent))\<rparr>)));
               ret (Done (map_option (Wrap ''updating rules ConfigMap'') r)) })) }"

definition reconcileAlertRules ::
  "(string \<Rightarrow> string) \<Rightarrow> json \<Rightarrow> env \<Rightarrow> string \<Rightarrow> bool \<Rightarrow> gerr option outcome io" where
  "reconcileAlertRules ul J e ns userAlertsEnabled = do {
     g \<leftarrow> listAllAlertConfigs J e ns userAlertsEnabled;
     (case g of
        Inl er \<Rightarrow> ret (Done (Some (Wrap ''listing alert configs'' er)))
      | Inr allAlerts \<Rightarrow> store_rules e (buildCustomRulesYAML ul allAlerts)) }"

definition delete_configMap :: "env \<Rightarrow> string \<Rightarrow> string \<Rightarrow> gerr option io" where
  "delete_configMap e ns name = do {
     g \<leftarrow> api_get as_configMap e Cached ConfigMapKind ns name;
     (case g of
        Inl er \<Rightarrow> ret (if isNotFound er then None else Some (Wrap ''getting ConfigMap'' er))
      | Inr cm \<Rightarrow> do {
          r \<leftarrow> api_do e (Delete (KConfigMap cm));
          ret (case r of None \<Rightarrow> None
               | Some er \<Rightarrow> if isNotFound er then None else Some (Wrap ''deleting ConfigMap'' er)) }) }"

definition cleanupAlertRules :: "env \<Rightarrow> gerr option io" where
  "cleanupAlertRules e = delete_configMap e observabilityNamespace thanosRulerConfigMap"

section \<open>The metrics allowlist\<close>

fun dedup_metrics :: "string set \<Rightarrow> string list \<Rightarrow> string list \<Rightarrow> string list" where
  "dedup_metrics seen names [] = names"
| "dedup_metrics seen names (m # ms) =
     (if m \<notin> seen then dedup_metrics (insert m seen) (names @ [m]) ms else dedup_metrics seen names ms)"

definition buildMetricNamesYAML :: "string list \<Rightarrow> string" where
  "buildMetricNamesYAML metrics =
     (let names = dedup_metrics {} [] metrics
      in if names = [] then ''names: []'' @ [newline]
         else foldl (\<lambda>content n. content @ ''  - '' @ n @ [newline]) (''names:'' @ [newline]) names)"

definition buildMetricsListYAML :: "userAlertConfig list \<Rightarrow> string \<times> string" where
  "buildMetricsListYAML allAlerts =
     (buildMetricNamesYAML (concat (map ua_alertMetrics allAlerts)),
      buildMetricNamesYAML (concat (map ua_userWorkloadMetrics allAlerts)))"

definition reconcileObservabilityMetrics :: "json \<Rightarrow> env \<Rightarrow> string \<Rightarrow> bool \<Rightarrow> gerr option io" where
  "reconcileObservabilityMetrics J e ns userAlertsEnabled = do {
     g \<leftarrow> listAllAlertConfigs J e ns userAlertsEnabled;
     (case g of
        Inl er \<Rightarrow> ret (Some (Wrap ''listing alert configs for metrics'' er))
      | Inr allAlerts \<Rightarrow> do {
          let content = buildMetricsListYAML allAlerts;
          h \<leftarrow> api_get as_configMap e Cached ConfigMapKind observabilityNamespace observabilityMetricsConfigMap;
          (case h of
             Inl er \<Rightarrow>
               if isNotFound er then do {
                 r \<leftarrow> api_do e (Create (KConfigMap (managed_configMap observabilityNamespace observabilityMetricsConfigMap
                        [metricsListKey \<mapsto> fst content, userWorkloadMetricsListKey \<mapsto> snd content])));
                 ret (map_option (Wrap ''creating metrics ConfigMap'') r) }
               else ret (Some (Wrap ''getting metrics ConfigMap'' er))
           | Inr existing \<Rightarrow> do {
               let d = (case cm_data existing of None \<Rightarrow> Map.empty | Some d \<Rightarrow> d);
               r \<leftarrow> api_do e (Update (KConfigMap (existing\<lparr>cm_data :=
                      Some (d(metricsListKey \<mapsto> fst content, userWorkloadMetricsListKey \<mapsto> snd content))\<rparr>)));
               ret (map_option (Wrap ''updating metrics ConfigMap'') r) }) }) }"

definition cleanupObservabilityMetrics :: "env \<Rightarrow> gerr option io" where
  "cleanupObservabilityMetrics e = delete_configMap e observabilityNamespace observabilityMetricsConfigMap"

lemmas [io_run] = listUserAlertConfigs_def listAllAlertConfigs_def store_rules_def reconcileAlertRules_def
  delete_configMap_def cleanupAlertRules_def reconcileObservabilityMetrics_def
  cleanupObservabilityMetrics_def

section \<open>Names in the generated rules\<close>

lemma names_in_prefix: "first_name l = [] \<Longrightarrow> newline \<notin> set l \<Longrightarrow> names_in (l @ newline # s) = names_in s"
  by (subst names_in_split) (simp add: names_in_def lines_of_one)

lemma lines_of_prefix:
  "newline \<notin> set p \<Longrightarrow> g \<noteq> [] \<Longrightarrow> lines_of (p @ g) = (p @ hd (lines_of g)) # tl (lines_of g)"
proof (induction p)
  case Nil
  then have "lines_of g \<noteq> []" by simp
  then show ?case by simp
next
  case (Cons c p)
  then show ?case by auto
qed

lemma names_in_skip:
  assumes "newline \<notin> set p" "\<And>l. first_name (p @ l) = first_name l"
  shows "names_in (p @ g) = names_in g"
proof (cases "g = []")
  case True
  with assms(1) assms(2) [of "[]"] show ?thesis
    by (cases "p = []") (simp_all add: names_in_def lines_of_no_newline)
next
  case False
  then have "lines_of g \<noteq> []" by simp
  then obtain l ls where l: "lines_of g = l # ls" by (cases "lines_of g") auto
  show ?thesis
    using lines_of_prefix [OF assms(1) False] by (simp add: names_in_def l assms(2))
qed

definition group_prefix :: string where "group_prefix = ''  - name: ''"

lemma names_in_group_line: "names_in (group_prefix @ g) = names_in g"
  by (rule names_in_skip) (simp_all add: group_prefix_def)

lemma names_in_rules_entry:
  "names_in (rules_entry ul a) = names_in (group_name ul a) \<union> names_in (trim_space (ua_alertRule a))"
proof -
  let ?r = "''    '' @ replace_newlines (newline # ''    '') (trim_space (ua_alertRule a)) @ [newline]"
  have "rules_entry ul a = (group_prefix @ group_name ul a) @ newline # (''    rules:'' @ newline # ?r)"
    by (simp add: rules_entry_def Let_def group_prefix_def)
  then have "names_in (rules_entry ul a) = names_in ((group_prefix @ group_name ul a) @ [newline])
      \<union> names_in (''    rules:'' @ newline # ?r)"
    using names_in_split [of "group_prefix @ group_name ul a" "''    rules:'' @ newline # ?r"] by metis
  also have "names_in ((group_prefix @ group_name ul a) @ [newline]) = names_in (group_name ul a)"
    by (simp only: names_in_snoc_newline names_in_group_line)
  also have "names_in (''    rules:'' @ newline # ?r) = names_in ?r"
    by (rule names_in_prefix) simp_all
  also have "names_in ?r = names_in (trim_space (ua_alertRule a))"
    by (rule names_in_indent) (simp add: is_blank_def)
  finally show ?thesis .
qed

lemma rules_entry_newline: "\<exists>s. rules_entry ul a = s @ [newline]"
  by (simp add: rules_entry_def Let_def)

lemma foldl_entries: "foldl (\<lambda>content a. content @ f a) z xs = z @ concat (map f xs)"
  by (induction xs arbitrary: z) simp_all

lemma names_in_entries:
  "names_in ((s @ [newline]) @ concat (map (rules_entry ul) as)) =
   names_in s \<union> (\<Union>a \<in> set as. names_in (rules_entry ul a))"
proof (induction as arbitrary: s)
  case Nil
  show ?case by (simp add: names_in_snoc_newline)
next
  case (Cons a as)
  obtain t where t: "rules_entry ul a = t @ [newline]" using rules_entry_newline by blast
  have "names_in ((s @ [newline]) @ concat (map (rules_entry ul) (a # as)))
      = names_in (((s @ newline # t) @ [newline]) @ concat (map (rules_entry ul) as))"
    by (simp add: t)
  also have "\<dots> = names_in (s @ newline # t) \<union> (\<Union>a \<in> set as. names_in (rules_entry ul a))"
    by (rule Cons.IH)
  also have "names_in (s @ newline # t) = names_in s \<union> names_in t"
    by (subst names_in_split) (simp add: names_in_snoc_newline)
  finally show ?case by (auto simp: t names_in_snoc_newline)
qed

lemma names_in_built:
  "names_in (buildCustomRulesYAML ul as) =
   (\<Union>a \<in> set as. names_in (group_name ul a) \<union> names_in (trim_space (ua_alertRule a)))"
proof (cases "as = []")
  case True
  have "names_in (''groups: []'' @ [newline]) = names_in ''groups: []''" by (rule names_in_snoc_newline)
  with True show ?thesis by (simp add: buildCustomRulesYAML_def names_in_def)
next
  case False
  have "names_in ''groups:'' = {}" by (simp add: names_in_def)
  with False show ?thesis
    using names_in_entries [of "''groups:''" ul as]
    by (simp add: buildCustomRulesYAML_def foldl_entries names_in_rules_entry)
qed

text \<open>
  C28. Round trip of the rules text: the alert receiver reads from the text that the controller
  builds exactly the names that stand in the (trimmed) rules of the alert definitions, plus those
  that a group name happens to spell; indentation and concatenation neither lose nor add a name.
\<close>

theorem receiver_reads_built_rules:
  "rcv_parseAlertNamesFromRulesYAML (buildCustomRulesYAML ul as) =
   (\<Union>a \<in> set as. rcv_parseAlertNamesFromRulesYAML (group_name ul a)
               \<union> rcv_parseAlertNamesFromRulesYAML (trim_space (ua_alertRule a)))"
  by (simp add: rcv.parse_names names_in_built)

text \<open>
  Every defined alert is accepted: if the trimmed rule of a definition starts with a line
  \<open>- alert: N\<close>, the receiver accepts alerts named \<open>N\<close> once the rules are written.
\<close>

theorem defined_alert_accepted:
  assumes "a \<in> set as" "trim_space (ua_alertRule a) = ''- alert: '' @ n @ newline # rest"
    and "n \<noteq> []" "\<not> is_blank (hd n)" "newline \<notin> set n"
  shows "n \<in> rcv_parseAlertNamesFromRulesYAML (buildCustomRulesYAML ul as)"
proof -
  have dw: "dropWhile is_blank n = n" using assms(3,4) by (cases n) simp_all
  have nl: "newline \<notin> set (''- alert: '' @ n)" using assms(5) by simp
  have "lines_of ((''- alert: '' @ n) @ newline # rest) = (''- alert: '' @ n) # lines_of rest"
    using lines_of_append_newline [of "''- alert: '' @ n" rest] lines_of_one [OF nl] by simp
  then have "''- alert: '' @ n \<in> set (lines_of (trim_space (ua_alertRule a)))"
    by (simp add: assms(2))
  moreover have "first_name (''- alert: '' @ n) = n"
    using dw assms(3) by (simp add: is_blank_def)
  ultimately have "n \<in> names_in (trim_space (ua_alertRule a))"
    unfolding names_in_def using assms(3) by force
  then show ?thesis using assms(1) by (auto simp: rcv.parse_names names_in_built)
qed

definition sample_alert :: userAlertConfig where
  "sample_alert = \<lparr>ua_alertName = ''HostDown'', ua_groupName = '''',
     ua_alertRule = ''- alert: HostDown'' @ newline # ''  expr: up == 0'' @ [newline],
     ua_alertMetrics = [''up'', ''up''], ua_userWorkloadMetrics = [], ua_configMapName = ''cm''\<rparr>"

lemma sample_alert_trimmed:
  "trim_space (ua_alertRule sample_alert) = ''- alert: HostDown'' @ newline # ''  expr: up == 0''"
  by code_simp

theorem defined_alert_accepted_witness:
  "''HostDown'' \<in> rcv_parseAlertNamesFromRulesYAML (buildCustomRulesYAML id [sample_alert])"
  by (rule defined_alert_accepted [of sample_alert _ _ "''  expr: up == 0''"])
    (simp_all add: sample_alert_trimmed is_blank_def)

section \<open>The metrics lists\<close>

lemma dedup_metrics_eq:
  "dedup_metrics (set names) names ms = rev (remdups (rev (names @ ms)))" if "distinct names"
  using that
proof (induction ms arbitrary: names)
  case Nil
  then show ?case by (simp add: distinct_remdups_id)
next
  case (Cons m ms)
  show ?case
  proof (cases "m \<in> set names")
    case False
    have "dedup_metrics (set (names @ [m])) (names @ [m]) ms = rev (remdups (rev ((names @ [m]) @ ms)))"
      by (rule Cons.IH) (use Cons.prems False in simp)
    with False show ?thesis by simp
  next
    case True
    have "remdups (xs @ m # rev names) = remdups (xs @ rev names)" for xs
      using True by (induction xs) auto
    with True Cons show ?thesis by simp
  qed
qed

text \<open>
  The allowlist text is the deduplicated list in first-seen order: one line per metric, in the
  order in which the alert definitions first mention it, or the empty-list form if there is none.
\<close>

theorem metric_names_text:
  "buildMetricNamesYAML ms =
     (if ms = [] then ''names: []'' @ [newline]
      else ''names:'' @ [newline]
        @ concat (map (\<lambda>n. ''  - '' @ n @ [newline]) (rev (remdups (rev ms)))))"
  using dedup_metrics_eq [of "[]" ms]
  by (simp add: buildMetricNamesYAML_def Let_def foldl_entries)

section \<open>What reconciling the rules writes\<close>

definition system_list :: "string \<Rightarrow> call" where
  "system_list ns = ListObjs Cached ConfigMapKind ns system_alert_labels"
definition user_list :: "string \<Rightarrow> call" where
  "user_list ns = ListObjs Cached ConfigMapKind ns user_alert_labels"
definition rules_read :: call where
  "rules_read = Get Cached ConfigMapKind observabilityNamespace thanosRulerConfigMap"

text \<open>The alert definitions that the listed ConfigMaps give.\<close>

definition listed_alerts :: "json \<Rightarrow> string \<Rightarrow> bool \<Rightarrow> trace \<Rightarrow> userAlertConfig list \<Rightarrow> bool" where
  "listed_alerts J ns user u as \<longleftrightarrow> (\<exists>r sys. (system_list ns, r) \<in> set u \<and> list_of kConfigMap r = Inr sys
     \<and> (if user then \<exists>r' usr. (user_list ns, r') \<in> set u \<and> list_of kConfigMap r' = Inr usr
                     \<and> as = parse_all J sys @ parse_all J usr
        else as = parse_all J sys))"

lemma listed_alerts_append: "listed_alerts J ns user u as \<Longrightarrow> listed_alerts J ns user (u @ v) as"
  by (auto simp: listed_alerts_def split: if_splits)

lemma listed_alerts_user:
  "list_of kConfigMap r = Inr sys \<Longrightarrow> list_of kConfigMap r' = Inr usr
   \<Longrightarrow> listed_alerts J ns True [(system_list ns, r), (user_list ns, r')] (parse_all J sys @ parse_all J usr)"
  unfolding listed_alerts_def by (intro exI [of _ r] exI [of _ sys]) (auto simp del: list_of_def)

lemma listAllAlertConfigs_spec:
  "spec (listAllAlertConfigs J e ns user) (\<lambda>x u. (\<forall>as. x = Inr as \<longrightarrow> listed_alerts J ns user u as)
     \<and> (\<forall>ev \<in> set u. fst ev = system_list ns \<or> user \<and> fst ev = user_list ns))"
  unfolding listAllAlertConfigs_def system_list_def [symmetric] user_list_def [symmetric]
  by (intro io_spec) (auto simp: listed_alerts_user listed_alerts_def simp del: list_of_def
      simp flip: system_list_def user_list_def split: sum.splits)

definition stores_rules :: "string \<Rightarrow> trace \<Rightarrow> call \<Rightarrow> bool" where
  "stores_rules content u c \<longleftrightarrow> c = rules_read
     \<or> (\<exists>r er. (rules_read, r) \<in> set u \<and> as_configMap r = Inl er \<and> isNotFound er
          \<and> c = Create (KConfigMap (managed_configMap observabilityNamespace thanosRulerConfigMap
              [customRulesKey \<mapsto> content])))
     \<or> (\<exists>old d. (rules_read, RObj (KConfigMap old)) \<in> set u \<and> cm_data old = Some d
          \<and> c = Update (KConfigMap (old\<lparr>cm_data := Some (d(customRulesKey \<mapsto> content))\<rparr>)))"

definition rules_call ::
  "(string \<Rightarrow> string) \<Rightarrow> json \<Rightarrow> string \<Rightarrow> bool \<Rightarrow> trace \<Rightarrow> call \<Rightarrow> bool" where
  "rules_call ul J ns user u c \<longleftrightarrow> c = system_list ns \<or> user \<and> c = user_list ns
     \<or> (\<exists>as. listed_alerts J ns user u as \<and> stores_rules (buildCustomRulesYAML ul as) u c)"

definition rules_calls :: "(string \<Rightarrow> string) \<Rightarrow> json \<Rightarrow> string \<Rightarrow> bool \<Rightarrow> trace \<Rightarrow> bool" where
  "rules_calls ul J ns user u \<longleftrightarrow> (\<forall>ev \<in> set u. rules_call ul J ns user u (fst ev))"

definition nil_rules :: "trace \<Rightarrow> bool" where
  "nil_rules u \<longleftrightarrow> (\<exists>old. (rules_read, RObj (KConfigMap old)) \<in> set u \<and> cm_data old = None)"

text \<open>The API server accepted the ConfigMap with the rules: a new one, or the one that it showed before.\<close>

definition rules_stored :: "string \<Rightarrow> trace \<Rightarrow> bool" where
  "rules_stored content u \<longleftrightarrow>
     (\<exists>ev \<in> set u. fst ev \<noteq> rules_read \<and> stores_rules content u (fst ev) \<and> ack (snd ev) = None)"

lemma rules_read_simps [simp]:
  "rules_read \<noteq> Create x" "Create x \<noteq> rules_read" "rules_read \<noteq> Update x" "Update x \<noteq> rules_read"
  by (simp_all add: rules_read_def)

definition rules_outcome :: "string \<Rightarrow> gerr option outcome \<Rightarrow> trace \<Rightarrow> bool" where
  "rules_outcome content x u \<longleftrightarrow> (case x of
       Panicked \<Rightarrow> nil_rules u
     | Done None \<Rightarrow> rules_stored content u
     | Done (Some er) \<Rightarrow> \<not> rules_stored content u)"

lemma store_rules_spec:
  "spec (store_rules e content) (\<lambda>x v. (\<forall>ev \<in> set v. stores_rules content v (fst ev)) \<and> rules_outcome content x v)"
  unfolding store_rules_def rules_read_def [symmetric]
  by (intro io_spec) (auto simp: stores_rules_def rules_stored_def rules_outcome_def nil_rules_def as_configMap_Inr
      simp flip: rules_read_def simp del: ack_def split: option.splits)

lemma stores_rules_append: "stores_rules content v c \<Longrightarrow> stores_rules content (u @ v) c"
  by (auto simp: stores_rules_def)

lemma rules_outcome_append:
  assumes "rules_outcome content x v" "\<forall>ev \<in> set u. fst ev = system_list ns \<or> fst ev = user_list ns"
  shows "rules_outcome content x (u @ v)"
proof -
  have lists: "(\<And>ev. ev \<in> set u \<Longrightarrow> fst ev = c \<longrightarrow> \<not> stores_rules content (u @ v) c \<or> c = rules_read)"
    and reads: "(rules_read, a) \<notin> set u" for c a
    using assms(2) by (auto simp: stores_rules_def rules_read_def system_list_def user_list_def)
  have "stores_rules content (u @ v) c = stores_rules content v c" for c
    using reads by (auto simp: stores_rules_def)
  with lists have "rules_stored content (u @ v) = rules_stored content v"
    unfolding rules_stored_def by (metis Un_iff set_append)
  moreover have "nil_rules v \<Longrightarrow> nil_rules (u @ v)" by (auto simp: nil_rules_def)
  ultimately show ?thesis
    using assms(1) by (auto simp: rules_outcome_def split: outcome.splits option.splits)
qed

text \<open>The listing failed, or the rules of what was listed were stored, refused, or not storable.\<close>

definition reconciled_rules ::
  "(string \<Rightarrow> string) \<Rightarrow> json \<Rightarrow> string \<Rightarrow> bool \<Rightarrow> gerr option outcome \<Rightarrow> trace \<Rightarrow> bool" where
  "reconciled_rules ul J ns user x u \<longleftrightarrow>
     (\<exists>er. x = Done (Some er)) \<and> (\<forall>ev \<in> set u. fst ev = system_list ns \<or> user \<and> fst ev = user_list ns)
   \<or> (\<exists>as. listed_alerts J ns user u as \<and> rules_outcome (buildCustomRulesYAML ul as) x u)"

lemma reconcileAlertRules_spec:
  "spec (reconcileAlertRules ul J e ns user) (\<lambda>x u. rules_calls ul J ns user u \<and> reconciled_rules ul J ns user x u)"
  unfolding reconcileAlertRules_def
proof (intro spec_bind spec_conseq [OF listAllAlertConfigs_spec] spec_sum spec_ret)
  fix x and u :: trace and as
  assume u: "(\<forall>as. x = Inr as \<longrightarrow> listed_alerts J ns user u as)
      \<and> (\<forall>ev \<in> set u. fst ev = system_list ns \<or> user \<and> fst ev = user_list ns)" and x: "x = Inr as"
  show "spec (store_rules e (buildCustomRulesYAML ul as))
    (\<lambda>y v. rules_calls ul J ns user (u @ v) \<and> reconciled_rules ul J ns user y (u @ v))"
  proof (rule spec_conseq [OF store_rules_spec], intro conjI)
    fix y and v :: trace
    assume v: "(\<forall>ev \<in> set v. stores_rules (buildCustomRulesYAML ul as) v (fst ev))
      \<and> rules_outcome (buildCustomRulesYAML ul as) y v"
    have listed: "listed_alerts J ns user (u @ v) as" using u x by (simp add: listed_alerts_append)
    moreover have "\<forall>ev \<in> set v. stores_rules (buildCustomRulesYAML ul as) (u @ v) (fst ev)"
      using v by (blast intro: stores_rules_append)
    ultimately show "rules_calls ul J ns user (u @ v)"
      using u unfolding rules_calls_def rules_call_def by (metis Un_iff set_append)
    have "rules_outcome (buildCustomRulesYAML ul as) y (u @ v)"
      by (rule rules_outcome_append [where ns = ns]) (use u v in auto)
    with listed show "reconciled_rules ul J ns user y (u @ v)"
      unfolding reconciled_rules_def by blast
  qed
qed (auto simp: rules_calls_def rules_call_def reconciled_rules_def)

text \<open>
  C27. Reconciling the rules writes the rules of the listed alert definitions and nothing else: a
  new ConfigMap with that one key, or the ConfigMap just read with that key replaced and every
  other key and the metadata as they were; user alerts are not even listed when they are disabled;
  it reports success exactly if the API server accepted this write, and an error if the listing, the
  read or the write failed; the only panic is on an existing ConfigMap without data.
\<close>

theorem reconcileAlertRules_writes:
  "\<exists>u. snd (run_state (reconcileAlertRules ul J e ns user) t) = t @ u \<and> rules_calls ul J ns user u
     \<and> reconciled_rules ul J ns user (fst (run_state (reconcileAlertRules ul J e ns user) t)) u"
  using reconcileAlertRules_spec unfolding spec_def by blast

end
