(* ===== verification/Alert_Receiver.thy ===== *)
theory Alert_Receiver
  imports Periodic_Runs Alert_Rules
begin

text \<open>
  The alert receiver (\<open>internal/alertreceiver/handler.go\<close>): the webhook that Alertmanager calls, the
  filter on monitored clusters and defined alert names, and the creation of an AgenticRun for a
  matched alert. The JSON decoder of the payload is the parameter \<open>P\<close>.
\<close>

section \<open>Payload\<close>

record alert =
  av_status :: string
  av_labels :: smap
  av_annotations :: smap
  av_startsAt :: instant
  av_endsAt :: instant

record alertManagerPayload =
  pl_version :: string
  pl_status :: string
  pl_receiver :: string
  pl_alerts :: "alert list"

text \<open>A request: its method, and its body or the error of reading it.\<close>

record webhook_request =
  wr_method :: string
  wr_body :: "gerr + string"

section \<open>Reads of the hub\<close>

text \<open>\<open>dyn\<close> tells whether the handler has a dynamic log level to adjust.\<close>

definition rcv_getMonitoredClusters :: "env \<Rightarrow> bool \<Rightarrow> (gerr + string set) io" where
  "rcv_getMonitoredClusters e dyn = do {
     g \<leftarrow> api_get as_thc e Live ThcKind '''' TelcoHealthcheckCanonicalName;
     (case g of
        Inl er \<Rightarrow> ret (Inl (Wrap ''getting TelcoHealthcheck'' er))
      | Inr thc \<Rightarrow> do {
          _ \<leftarrow> (if dyn then do {
                  _ \<leftarrow> invoke e (SetLevel (if sp_logLevel (thc_spec thc) = LogLevelDebug then DebugLevel else InfoLevel));
                  ret () }
                else ret ());
          ret (Inr (set (st_monitoredClusters (thc_status thc)))) }) }"

definition getDefinedAlertNames :: "ulib \<Rightarrow> env \<Rightarrow> (gerr + string set) io" where
  "getDefinedAlertNames L e = do {
     g \<leftarrow> api_get as_unstr e Live ConfigMapKind observabilityNamespace thanosRulerConfigMap;
     ret (case g of
        Inl er \<Rightarrow> Inl (Wrap ''getting Thanos ConfigMap'' er)
      | Inr cm \<Rightarrow>
          Inr (rcv_parseAlertNamesFromRulesYAML
                (sget (nested_string_map L (u_fields cm) [''data'']) customRulesKey))) }"

fun resolve_loop :: "string \<Rightarrow> configMap list \<Rightarrow> string option" where
  "resolve_loop alertName [] = None"
| "resolve_loop alertName (cm # cms) =
     (let isSystem = sget (om_labels cm) systemAlertLabel = ''true'';
          isUser = sget (om_labels cm) userAlertLabel = ''true''
      in if (isSystem \<or> isUser) \<and> data_get (cm_data cm) ''alertName'' = alertName then Some (om_name cm)
         else resolve_loop alertName cms)"

definition resolveAlertConfigMap :: "env \<Rightarrow> string \<Rightarrow> string \<Rightarrow> (gerr + string) io" where
  "resolveAlertConfigMap e alertName ns = do {
     g \<leftarrow> api_list kConfigMap e Live ConfigMapKind ns [(ManagedByLabel, ManagedByValue)];
     ret (case g of
        Inl er \<Rightarrow> Inl er
      | Inr cms \<Rightarrow>
          (case resolve_loop alertName cms of
             None \<Rightarrow> Inl (Msg (''no AgenticRun config found for alert '' @ alertName))
           | Some name \<Rightarrow> Inr name)) }"

section \<open>Creating a run for an alert\<close>

definition alert_run_name :: "(string \<Rightarrow> string) \<Rightarrow> string \<Rightarrow> instant \<Rightarrow> string" where
  "alert_run_name ul alertName t = ''telco-alert-'' @ to_lower ul alertName @ ''-'' @ dec_int (wrap64 t)"

definition alert_labels :: "string \<Rightarrow> string \<Rightarrow> smap" where
  "alert_labels clusterName alertName =
     [ManagedByLabel \<mapsto> ManagedByValue, ''telco-anomaly.io/trigger-type'' \<mapsto> ''alert'',
      ''telco-anomaly.io/trigger-alert'' \<mapsto> alertName, ''telco-anomaly.io/trigger-cluster'' \<mapsto> clusterName]"

text \<open>The variables of an alert run: those of the cluster, and the node of the alert if it names one.\<close>

definition with_node :: "smap \<Rightarrow> smap \<Rightarrow> smap" where
  "with_node annotations vars =
     (if sget annotations ''node'' \<noteq> '''' then vars(''NODE_NAME'' \<mapsto> sget annotations ''node'') else vars)"

text \<open>From the loaded configuration on: name and build the run, persist the identity, create, settle.\<close>

definition start_alert_run ::
  "(string \<Rightarrow> string) \<Rightarrow> nat \<Rightarrow> ulib \<Rightarrow> env \<Rightarrow> string \<Rightarrow> string \<Rightarrow> runConfig \<Rightarrow> gerr option io" where
  "start_alert_run ul k L e clusterName alertName cfg = do {
     t \<leftarrow> now e;
     let runName = alert_run_name ul alertName t;
     (case BuildObject L runName clusterName (alert_labels clusterName alertName) cfg of
        Inl er \<Rightarrow> ret (Some (Wrap ''building AgenticRun object'' er))
      | Inr u \<Rightarrow> do {
          g \<leftarrow> api_get as_thc e Live ThcKind '''' TelcoHealthcheckCanonicalName;
          (case g of
             Inl er \<Rightarrow> ret (Some (Wrap ''fetching singleton for audit record before hub creation'' er))
           | Inr owner \<Rightarrow> do {
               b \<leftarrow> Begin e operatorNamespace runName runName clusterName TriggerTypeAlert alertName owner;
               (case b of
                  Inl er \<Rightarrow> ret (Some er)
                | Inr record \<Rightarrow> create_and_settle k e Live operatorNamespace runName u
                    (map_option (Wrap (''creating AgenticRun '' @ runName @ '' on cluster '' @ clusterName)))) }) }) }"

definition createAgenticRunOnCluster ::
  "(string \<Rightarrow> string) \<Rightarrow> nat \<Rightarrow> ulib \<Rightarrow> json \<Rightarrow> string \<Rightarrow> string \<Rightarrow> smap \<Rightarrow> env \<Rightarrow> gerr option io" where
  "createAgenticRunOnCluster ul k L J clusterName alertName annotations e = do {
     c \<leftarrow> resolveAlertConfigMap e alertName operatorNamespace;
     (case c of
        Inl er \<Rightarrow> ret None
      | Inr configMapName \<Rightarrow> do {
          g \<leftarrow> LoadRunConfig J e Live configMapName operatorNamespace;
          (case g of
             Inl er \<Rightarrow> ret (Some (Wrap (''loading AgenticRun config for alert '' @ alertName) er))
           | Inr cfg \<Rightarrow>
               if rc_request cfg = '''' then ret None
               else do {
                 v \<leftarrow> BuildVarMap L e Live operatorNamespace clusterName;
                 (case v of
                    Inl er \<Rightarrow> ret (Some (Wrap (''building variable map for alert '' @ alertName) er))
                  | Inr vars \<Rightarrow> start_alert_run ul k L e clusterName alertName
                      (ExpandVariables cfg (with_node annotations vars))) }) }) }"

section \<open>The webhook\<close>

definition alert_cluster :: "alert \<Rightarrow> string" where "alert_cluster a = sget (av_labels a) ''cluster''"
definition alert_name :: "alert \<Rightarrow> string" where "alert_name a = sget (av_labels a) ''alertname''"

definition alert_matches :: "string set \<Rightarrow> string set \<Rightarrow> alert \<Rightarrow> bool" where
  "alert_matches clusters names a \<longleftrightarrow>
     av_status a = ''firing'' \<and> alert_cluster a \<in> clusters \<and> alert_name a \<in> names"

fun alerts_loop ::
  "(string \<Rightarrow> string) \<Rightarrow> nat \<Rightarrow> ulib \<Rightarrow> json \<Rightarrow> env \<Rightarrow> string set \<Rightarrow> string set \<Rightarrow> alert list \<Rightarrow> unit io" where
  "alerts_loop ul k L J e clusters names [] = ret ()"
| "alerts_loop ul k L J e clusters names (a # as) =
     (if alert_matches clusters names a then do {
        _ \<leftarrow> createAgenticRunOnCluster ul k L J (alert_cluster a) (alert_name a) (av_annotations a) e;
        alerts_loop ul k L J e clusters names as }
      else alerts_loop ul k L J e clusters names as)"

definition processAlerts ::
  "(string \<Rightarrow> string) \<Rightarrow> nat \<Rightarrow> ulib \<Rightarrow> json \<Rightarrow> env \<Rightarrow> bool \<Rightarrow> alert list \<Rightarrow> gerr option io" where
  "processAlerts ul k L J e dyn alerts =
     (if length alerts = 0 then ret None
      else do {
        m \<leftarrow> rcv_getMonitoredClusters e dyn;
        (case m of
           Inl er \<Rightarrow> ret (Some (Wrap ''fetching monitored clusters'' er))
         | Inr clusters \<Rightarrow> do {
             n \<leftarrow> getDefinedAlertNames L e;
             (case n of
                Inl er \<Rightarrow> ret None
              | Inr names \<Rightarrow> do { _ \<leftarrow> alerts_loop ul k L J e clusters names alerts; ret None }) }) })"

definition body_limit :: nat where "body_limit = 1048576"

definition HandleWebhook ::
  "(string \<Rightarrow> string) \<Rightarrow> nat \<Rightarrow> ulib \<Rightarrow> json \<Rightarrow> (string \<Rightarrow> gerr + alertManagerPayload) \<Rightarrow> env \<Rightarrow> bool
   \<Rightarrow> webhook_request \<Rightarrow> nat io" where
  "HandleWebhook ul k L J P e dyn r =
     (if wr_method r \<noteq> ''POST'' then ret 405
      else (case wr_body r of
          Inl er \<Rightarrow> ret 400
        | Inr body \<Rightarrow>
            (case P (take body_limit body) of
               Inl er \<Rightarrow> ret 400
             | Inr payload \<Rightarrow> do {
                 x \<leftarrow> processAlerts ul k L J e dyn (pl_alerts payload);
                 ret (case x of Some er \<Rightarrow> 500 | None \<Rightarrow> 200) })))"

lemmas [io_run] = rcv_getMonitoredClusters_def getDefinedAlertNames_def resolveAlertConfigMap_def
  start_alert_run_def createAgenticRunOnCluster_def processAlerts_def HandleWebhook_def

section \<open>Runs for alerts are audited\<close>

lemma start_alert_run_flow:
  "spec (start_alert_run ul k L e cluster alertName cfg)
     (\<lambda>_ u. \<exists>runName. audited_flow k L operatorNamespace runName cluster TriggerTypeAlert alertName u)"
  unfolding start_alert_run_def Let_def
proof (intro spec_bind spec_now spec_sum spec_ret spec_api_get)
  fix r run g owner
  let ?n = "alert_run_name ul alertName (as_time r)"
  assume run: "BuildObject L ?n cluster (alert_labels cluster alertName) cfg = Inr run"
  have "alert_labels cluster alertName ManagedByLabel = Some ManagedByValue"
    by (simp add: alert_labels_def ManagedByLabel_def)
  with run have for_run: "run_for L ?n cluster run"
    unfolding run_for_def by blast
  have flow: "audited_flow k L operatorNamespace ?n cluster TriggerTypeAlert alertName
      ([(Now, r)] @ [(Get Live ThcKind '''' TelcoHealthcheckCanonicalName, g)] @ i @ (Create (KUnstr run), a) # w)"
    if "identity_persisted operatorNamespace ?n ?n cluster TriggerTypeAlert alertName owner i"
      "no_runs w" "settled_after k operatorNamespace ?n a w" for i a w
    using audited_flowI [OF _ that(1) for_run that(2,3),
        of "[(Now, r), (Get Live ThcKind '''' TelcoHealthcheckCanonicalName, g)]"] by simp
  have quiet: "\<exists>runName. audited_flow k L operatorNamespace runName cluster TriggerTypeAlert alertName
      ((Now, r) # (Get Live ThcKind '''' TelcoHealthcheckCanonicalName, g) # u)" if "idle u" for u
    using that by (intro exI audited_flow_idle) simp
  show "spec (Begin e operatorNamespace ?n ?n cluster TriggerTypeAlert alertName owner)
      (\<lambda>b u. spec (case b of Inl er \<Rightarrow> ret (Some er)
        | Inr record \<Rightarrow> create_and_settle k e Live operatorNamespace ?n run
            (map_option (Wrap (''creating AgenticRun '' @ ?n @ '' on cluster '' @ cluster))))
       (\<lambda>_ w. \<exists>runName. audited_flow k L operatorNamespace runName cluster TriggerTypeAlert alertName
         ([(Now, r)] @ [(Get Live ThcKind '''' TelcoHealthcheckCanonicalName, g)] @ u @ w)))"
    by (intro spec_conseq [OF Begin_idle]
        spec_sum spec_ret spec_conseq [OF create_and_settle_spec])
      (use flow in \<open>auto intro: quiet simp del: as_time_def\<close>)
qed (intro exI audited_flow_idle, simp)+

lemma resolve_idle: "emits preparing (resolveAlertConfigMap e alertName ns)"
  unfolding resolveAlertConfigMap_def by (intro io_emits) (auto intro: io_emits)

lemma createAgenticRunOnCluster_flow:
  "spec (createAgenticRunOnCluster ul k L J cluster alertName annotations e)
     (\<lambda>_ u. \<exists>runName. audited_flow k L operatorNamespace runName cluster TriggerTypeAlert alertName u)"
  unfolding createAgenticRunOnCluster_def
  by (intro spec_bind spec_sum spec_if spec_ret spec_conseq [OF emits_idle [OF resolve_idle]]
      spec_conseq [OF emits_idle [OF LoadRunConfig_idle]]
      spec_conseq [OF emits_idle [OF BuildVarMap_idle]] spec_conseq [OF start_alert_run_flow])
    (auto intro: audited_flow_idle audited_flow_prefix)

interpretation alert_run: audited_creation k L operatorNamespace TriggerTypeAlert alertName cluster
  "createAgenticRunOnCluster ul k L J cluster alertName annotations"
  for k L alertName cluster ul J annotations
  by unfold_locales (rule createAgenticRunOnCluster_flow)

text \<open>
  C19. Audit before action, alerts: the receiver creates an AgenticRun at most once per matched
  alert, right after the record of the same identity was made durable, and then settles that record
  according to the answer, in its status and its pending annotation, unless the API server refuses this,
  with a conflict only after all retries; an ambiguous answer leaves it pending and ends the handling.
\<close>

theorem alert_run_audited:
  "\<exists>u. snd (run_state (createAgenticRunOnCluster ul k L J cluster alertName annotations e) t) = t @ u
     \<and> (\<exists>runName. audited_flow k L operatorNamespace runName cluster TriggerTypeAlert alertName u)
     \<and> length (filter is_run_create u) \<le> 1 \<and> ambiguous_is_last u"
  using spec_conj [OF createAgenticRunOnCluster_flow spec_conj [OF alert_run.one_run alert_run.ambiguous]]
  unfolding spec_def by blast

section \<open>The webhook creates runs for matching alerts only\<close>

definition webhook_guard :: "ulib \<Rightarrow> string set \<Rightarrow> string set \<Rightarrow> alert list \<Rightarrow> trace \<Rightarrow> call \<Rightarrow> bool" where
  "webhook_guard L clusters names alerts v c \<longleftrightarrow> (\<forall>run. c = Create (KUnstr run) \<longrightarrow>
     (\<exists>a \<in> set alerts. av_status a = ''firing'' \<and> alert_cluster a \<in> clusters \<and> alert_name a \<in> names
       \<and> (\<exists>runName v' i owner. v = v' @ i
        \<and> run_for L runName (alert_cluster a) run
        \<and> identity_persisted operatorNamespace runName runName (alert_cluster a) TriggerTypeAlert (alert_name a) owner i)))"

lemma stable_webhook_guard: "stable (webhook_guard L clusters names alerts)"
  unfolding stable_def webhook_guard_def by (metis append_assoc)

lemma webhook_guard_flow:
  assumes "audited_flow k L operatorNamespace runName (alert_cluster a) TriggerTypeAlert (alert_name a) u"
    and "a \<in> set alerts" "alert_matches clusters names a"
  shows "guarded (webhook_guard L clusters names alerts) u"
  by (rule guarded_mono [OF audited_flow_guard [OF assms(1)]])
    (use assms(2,3) in \<open>auto simp: identity_guard_def webhook_guard_def alert_matches_def\<close>, blast)

lemma alerts_loop_spec:
  "set as \<subseteq> set alerts \<Longrightarrow> spec (alerts_loop ul k L J e clusters names as)
     (\<lambda>_ u. guarded (webhook_guard L clusters names alerts) u)"
proof (induction as)
  case Nil
  show ?case by (auto intro: spec_ret)
next
  case (Cons a as)
  then have IH: "spec (alerts_loop ul k L J e clusters names as)
     (\<lambda>_ u. guarded (webhook_guard L clusters names alerts) u)" and a: "a \<in> set alerts" by simp_all
  show ?case
  proof (cases "alert_matches clusters names a")
    case False
    with IH show ?thesis by simp
  next
    case True
    have "spec (State_Monad.bind (createAgenticRunOnCluster ul k L J (alert_cluster a) (alert_name a)
          (av_annotations a) e) (\<lambda>_. alerts_loop ul k L J e clusters names as))
        (\<lambda>_ u. guarded (webhook_guard L clusters names alerts) u)"
      by (intro spec_bind spec_conseq [OF createAgenticRunOnCluster_flow] spec_conseq [OF IH])
        (use a True in \<open>auto intro: guarded_append [OF stable_webhook_guard] webhook_guard_flow\<close>)
    with True show ?thesis by simp
  qed
qed

text \<open>What a webhook call reads before it acts on alerts.\<close>

definition webhook_reads :: "ulib \<Rightarrow> trace \<Rightarrow> string set \<Rightarrow> string set \<Rightarrow> bool" where
  "webhook_reads L u clusters names \<longleftrightarrow>
     (\<exists>thc. (Get Live ThcKind '''' TelcoHealthcheckCanonicalName, RObj (KTHC thc)) \<in> set u
        \<and> clusters = set (st_monitoredClusters (thc_status thc)))
   \<and> (\<exists>cm. (Get Live ConfigMapKind observabilityNamespace thanosRulerConfigMap, RObj (KUnstr cm)) \<in> set u
        \<and> names = rcv_parseAlertNamesFromRulesYAML
            (sget (nested_string_map L (u_fields cm) [''data'']) customRulesKey))"

definition webhook_trace :: "ulib \<Rightarrow> alert list \<Rightarrow> trace \<Rightarrow> bool" where
  "webhook_trace L alerts u \<longleftrightarrow> no_runs u \<or> (\<exists>v w clusters names. u = v @ w \<and> no_runs v
     \<and> webhook_reads L v clusters names \<and> guarded (webhook_guard L clusters names alerts) w)"

lemma rcv_getMonitoredClusters_spec:
  "spec (rcv_getMonitoredClusters e dyn) (\<lambda>x u. no_runs u \<and> (\<forall>cl. x = Inr cl \<longrightarrow>
     (\<exists>thc. (Get Live ThcKind '''' TelcoHealthcheckCanonicalName, RObj (KTHC thc)) \<in> set u
        \<and> cl = set (st_monitoredClusters (thc_status thc)))))"
  unfolding rcv_getMonitoredClusters_def by (intro io_spec) (auto simp: as_thc_Inr)

lemma getDefinedAlertNames_spec:
  "spec (getDefinedAlertNames L e) (\<lambda>x u. no_runs u \<and> (\<forall>names. x = Inr names \<longrightarrow>
     (\<exists>cm. (Get Live ConfigMapKind observabilityNamespace thanosRulerConfigMap, RObj (KUnstr cm)) \<in> set u
        \<and> names = rcv_parseAlertNamesFromRulesYAML
            (sget (nested_string_map L (u_fields cm) [''data'']) customRulesKey))))"
  unfolding getDefinedAlertNames_def by (intro io_spec) (auto simp: as_unstr_Inr split: sum.splits)

lemma webhook_traceI:
  assumes "no_runs u" "no_runs v" "webhook_reads L (u @ v) clusters names"
    "guarded (webhook_guard L clusters names alerts) w"
  shows "webhook_trace L alerts (u @ v @ w)"
  unfolding webhook_trace_def
  using assms by (intro disjI2 exI [of _ "u @ v"] exI [of _ w] exI [of _ clusters] exI [of _ names]) simp

lemma processAlerts_spec: "spec (processAlerts ul k L J e dyn alerts) (\<lambda>_ u. webhook_trace L alerts u)"
proof -
  have quiet: "webhook_trace L al u" if "no_runs u" for u al
    using that by (simp add: webhook_trace_def)
  have reads: "webhook_reads L (u @ v) clusters names"
    if "\<exists>thc. (Get Live ThcKind '''' TelcoHealthcheckCanonicalName, RObj (KTHC thc)) \<in> set u
        \<and> clusters = set (st_monitoredClusters (thc_status thc))"
      "\<exists>cm. (Get Live ConfigMapKind observabilityNamespace thanosRulerConfigMap, RObj (KUnstr cm)) \<in> set v
        \<and> names = rcv_parseAlertNamesFromRulesYAML
            (sget (nested_string_map L (u_fields cm) [''data'']) customRulesKey)" for u v clusters names
    using that unfolding webhook_reads_def by auto
  show ?thesis
    unfolding processAlerts_def
    by (intro spec_if spec_bind spec_sum spec_ret spec_conseq [OF rcv_getMonitoredClusters_spec]
        spec_conseq [OF getDefinedAlertNames_spec] spec_conseq [OF alerts_loop_spec [OF subset_refl]])
      (auto intro: quiet webhook_traceI reads)
qed

text \<open>
  C20. The webhook acts on matching alerts only: in a request, every AgenticRun is created for an
  alert of the payload that is firing, whose cluster is in the monitored list just read and whose
  name is in the rules just read, under an audit record of that cluster and that alert.
\<close>

theorem webhook_runs_justified:
  "\<exists>u. snd (run_state (processAlerts ul k L J e dyn alerts) t) = t @ u \<and> webhook_trace L alerts u"
  using processAlerts_spec [of ul k L J e dyn alerts] unfolding spec_def by blast

lemma processAlerts_result:
  "spec (processAlerts ul k L J e dyn alerts)
     (\<lambda>x u. if alerts = [] then x = None \<and> u = []
       else (\<exists>g v. u = (Get Live ThcKind [] TelcoHealthcheckCanonicalName, g) # v
         \<and> (case as_thc g of Inl er \<Rightarrow> v = [] \<and> x \<noteq> None | Inr thc \<Rightarrow> x = None)))"
proof -
  have loop: "spec (alerts_loop ul k L J e clusters names alerts) (\<lambda>_ _. True)" for clusters names
    by (rule spec_conseq [OF alerts_loop_spec [OF subset_refl]]) simp
  have names: "spec (getDefinedAlertNames L e) (\<lambda>_ _. True)"
    by (rule spec_conseq [OF getDefinedAlertNames_spec]) simp
  have clusters: "spec (rcv_getMonitoredClusters e dyn) (\<lambda>x u.
      \<exists>g v. u = (Get Live ThcKind [] TelcoHealthcheckCanonicalName, g) # v
        \<and> (case as_thc g of Inl er \<Rightarrow> v = [] \<and> (\<exists>er. x = Inl er) | Inr thc \<Rightarrow> (\<exists>cl. x = Inr cl)))"
    unfolding rcv_getMonitoredClusters_def by (intro io_spec) auto
  show ?thesis
    unfolding processAlerts_def
    by (intro spec_if spec_bind spec_sum spec_ret spec_conseq [OF clusters] spec_conseq [OF names]
        spec_conseq [OF loop]) (auto split: sum.splits)
qed

text \<open>The status code of the webhook, and what it has to do with the calls \<open>u\<close> to the hub.\<close>

definition webhook_code :: "(string \<Rightarrow> gerr + alertManagerPayload) \<Rightarrow> webhook_request \<Rightarrow> nat \<Rightarrow> trace \<Rightarrow> bool" where
  "webhook_code P r code u \<longleftrightarrow>
     (if wr_method r \<noteq> ''POST'' then code = 405 \<and> u = []
      else (case wr_body r of
          Inl er \<Rightarrow> code = 400 \<and> u = []
        | Inr body \<Rightarrow>
            (case P (take body_limit body) of
               Inl er \<Rightarrow> code = 400 \<and> u = []
             | Inr payload \<Rightarrow>
                 if pl_alerts payload = [] then code = 200 \<and> u = []
                 else (\<exists>g v. u = (Get Live ThcKind [] TelcoHealthcheckCanonicalName, g) # v
                   \<and> (case as_thc g of Inl er \<Rightarrow> code = 500 \<and> v = [] | Inr thc \<Rightarrow> code = 200)))))"

text \<open>
  The status code of the webhook: 405 for another method than POST and 400 for an unreadable
  or undecodable body, both without touching the hub; then 200 without alerts, and otherwise 500 if
  the TelcoHealthcheck cannot be read and 200 if it can: a failure to create one run, or to
  read the rules, is not reported to Alertmanager.
\<close>

theorem webhook_status:
  "\<exists>u. snd (run_state (HandleWebhook ul k L J P e dyn r) t) = t @ u
     \<and> webhook_code P r (fst (run_state (HandleWebhook ul k L J P e dyn r) t)) u"
proof -
  have "spec (HandleWebhook ul k L J P e dyn r) (webhook_code P r)"
    unfolding HandleWebhook_def
    by (intro spec_if spec_sum spec_bind spec_ret spec_conseq [OF processAlerts_result])
      (auto simp: webhook_code_def split: sum.splits option.splits if_splits)
  then show ?thesis unfolding spec_def by blast
qed

text \<open>
  An underscore in an alert name defeats its handling: the lower-cased name goes into the
  object name unescaped, and no name with an underscore is a DNS-1123 subdomain, so the API server
  refuses the audit record and no run is created for such an alert.
\<close>

theorem underscore_run_name_invalid:
  assumes "is_ascii alertName" "CHR ''_'' \<in> set alertName"
  shows "\<not> dns_name (alert_run_name ul alertName t)"
proof -
  have "ascii_lower (CHR ''_'') = CHR ''_''" by (simp add: ascii_lower_def)
  then have "CHR ''_'' \<in> set (to_lower ul alertName)"
    using assms by (auto simp: to_lower_def image_iff intro: bexI [of _ "CHR ''_''"])
  then have "CHR ''_'' \<in> set (alert_run_name ul alertName t)" by (simp add: alert_run_name_def)
  moreover have "\<not> dns_char (CHR ''_'')" by (simp add: dns_char_def lower_alnum_def)
  ultimately show ?thesis by (auto simp: dns_name_def list_all_iff)
qed

theorem underscore_run_name_invalid_witness:
  "\<not> dns_name (alert_run_name id ''Disk_Full'' 1700000000)"
  by (rule underscore_run_name_invalid) (simp_all add: is_ascii_def)

end
