(* ===== verification/Record_Schema.thy ===== *)
theory Record_Schema
  imports Run_Alerts Alert_Receiver Periodic_Runs
begin

text \<open>
  The status of a record is typed by the schema of its custom resource
  (\<open>api/v1alpha1/telcohealthcheckrun_types.go\<close>): \<open>schema_ok\<close> of \<open>Record_Hub\<close> has its two enumerations,
  the type of the trigger and the action required. No writer of records leaves them, so the API server never
  refuses a status for a value outside them; required fields and formats are not part of \<open>schema_ok\<close>.
\<close>

section \<open>The record reconciler\<close>

definition schema_kept :: "telcoHealthCheckRunStatus \<Rightarrow> telcoHealthCheckRunStatus \<Rightarrow> bool" where
  "schema_kept st st' \<longleftrightarrow> (schema_ok st \<longrightarrow> schema_ok st')"

definition schema_call :: "call \<Rightarrow> bool" where
  "schema_call c \<longleftrightarrow> (case c of
       StatusPatch (KRecord b) (KRecord a) \<Rightarrow> schema_kept (rec_status b) (rec_status a)
     | StatusPatch _ _ \<Rightarrow> False
     | StatusUpdate _ \<Rightarrow> False
     | _ \<Rightarrow> True)"

lemma schema_call_simps [simp]:
  "schema_call (StatusPatch (KRecord b) (KRecord a)) = schema_kept (rec_status b) (rec_status a)"
  "schema_call (Get s k ns n)" "schema_call Now" "schema_call (HttpDo req)"
  by (simp_all add: schema_call_def)

lemma resultActionRequired_ok: "action_ok (resultActionRequired L result)"
  by (simp add: resultActionRequired_def action_ok_def Let_def)

lemma schema_observe: "action_ok ac \<Longrightarrow> schema_kept st (observe ct ph su ac st)"
  by (auto simp: schema_kept_def schema_ok_def observe_def action_ok_def Let_def)

lemma schema_queue_at [simp]: "schema_ok (queue_at t old st) = schema_ok st"
  by (simp add: schema_ok_def queue_at_def notify_firing_def notify_resolved_def Let_def)

lemma schema_steps [simp]:
  "schema_kept st (stopped st)" "schema_kept st (started t st)" "schema_kept st (popped st)"
  "schema_kept st (renewed t st)" "schema_kept st (renewed t (popped st))"
  by (simp_all add: schema_kept_def schema_ok_def stopped_def started_def popped_def renewed_def)

lemma latest_result_action: "spec (latest_result L e run) (\<lambda>x _. \<forall>sa. x = Inr sa \<longrightarrow> action_ok (snd sa))"
  unfolding latest_result_def Let_def
  by (intro io_spec) (auto simp: resultActionRequired_ok action_ok_def [of "[]"] split: sum.splits prod.splits if_splits)

text \<open>A continuation that relies on the result.\<close>

lemma emits_bind_spec:
  assumes "emits P m" "spec m (\<lambda>x _. R x)" "\<And>x. R x \<Longrightarrow> emits P (f x)"
  shows "emits P (State_Monad.bind m f)"
  unfolding emits_def
proof (rule spec_bind, rule spec_conseq [OF spec_conj [OF assms(1) [unfolded emits_def] assms(2)]])
  fix x and u :: trace assume "(\<forall>ev \<in> set u. P (fst ev)) \<and> R x"
  then show "spec (f x) (\<lambda>_ v. \<forall>ev \<in> set (u @ v). P (fst ev))"
    using assms(3) [of x] unfolding emits_def by (auto elim!: spec_conseq)
qed

lemma queueActionAlert_schema: "spec (queueActionAlert e st old) (\<lambda>st' _. schema_ok st' = schema_ok st)"
  unfolding queueActionAlert_def by (intro io_spec) simp_all

lemma sync_attempt_schema:
  assumes "action_ok ac" shows "emits schema_call (sync_attempt e ns name cluster runName ct ph su ac)"
proof -
  have queue: "emits schema_call (queueActionAlert e st old)" for st old
    unfolding queueActionAlert_def by (intro io_emits) simp
  have "emits schema_call (do { st' \<leftarrow> queueActionAlert e (observe ct ph su ac (rec_status b)) old;
      api_do e (StatusPatch (KRecord b) (KRecord (b\<lparr>rec_status := st'\<rparr>))) })" for b old
    using schema_observe [OF assms, of "rec_status b" ct ph su]
    by (intro emits_bind_spec [OF queue queueActionAlert_schema] io_emits) (simp add: schema_kept_def)
  note patch = this
  show ?thesis
    unfolding sync_attempt_def Let_def
    by (rule emits_bind, rule emits_api_get, simp, rule emits_sum, rule emits_ret, rule emits_if, rule emits_ret,
        rule emits_if, rule emits_ret, rule patch)
qed

lemma syncHubRunStatus_schema: "emits schema_call (syncHubRunStatus k L T e record)"
proof -
  have result: "emits schema_call (latest_result L e run)" for run
    unfolding latest_result_def Let_def by (intro io_emits) simp_all
  have "emits schema_call (do { res \<leftarrow> latest_result L e run;
      (case res of Inl er \<Rightarrow> ret (Some er)
       | Inr sa \<Rightarrow> retry_on_conflict k (sync_attempt e ns name cluster runName ct ph (fst sa) (snd sa))) })"
    for run ns name cluster runName ct ph
    by (rule emits_bind_spec [OF result latest_result_action])
      (auto intro!: io_emits sync_attempt_schema split: sum.split)
  note tail = this
  show ?thesis
    unfolding syncHubRunStatus_def
    by (rule emits_if, rule emits_ret, rule emits_bind, rule emits_api_get, simp, rule emits_sum, rule emits_ret,
        rule emits_if, rule emits_ret, rule emits_prod, rule tail)
qed

lemma send_schema: "emits schema_call (send L W e ns config record n)"
  unfolding send_def agenticRunURL_def post_alert_def authorize_def do_post_def Let_def
  by (intro io_emits) simp_all

lemma patch_schema: "schema_kept (rec_status record) st \<Longrightarrow> emits schema_call (patch_status e record st)"
  unfolding patch_status_def by (intro io_emits) simp

lemma deliver_next_schema: "emits schema_call (deliver_next L W e ns config record event)"
  unfolding deliver_next_def
  by (cases "current_firing (rec_status record) event") (auto intro!: io_emits send_schema patch_schema)

lemma deliver_pass_schema: "emits schema_call (deliver_pass L W e ns record)"
  unfolding deliver_pass_def stop_delivery_def deliver_def start_firing_def refresh_def resend_def Let_def
  by (intro io_emits send_schema patch_schema deliver_next_schema) simp_all

lemma runAlert_Reconcile_schema: "emits schema_call (runAlert_Reconcile k L T W e ns reqNs reqName)"
  unfolding runAlert_Reconcile_def by (intro io_emits syncHubRunStatus_schema deliver_pass_schema) simp_all

section \<open>All writers\<close>

text \<open>If every record that was read has a status of the schema, so has every record that is written.\<close>

definition reads_typed :: "trace \<Rightarrow> bool" where
  "reads_typed u \<longleftrightarrow> (\<forall>s ns name b. (Get s RecordKind ns name, RObj (KRecord b)) \<in> set u \<longrightarrow> schema_ok (rec_status b))"

definition writes_typed :: "trace \<Rightarrow> bool" where
  "writes_typed u \<longleftrightarrow> (\<forall>ev \<in> set u. case fst ev of
       StatusUpdate (KRecord r) \<Rightarrow> schema_ok (rec_status r)
     | StatusPatch b (KRecord r) \<Rightarrow> schema_ok (rec_status r)
     | _ \<Rightarrow> True)"

definition typed :: "'a io \<Rightarrow> bool" where
  "typed m \<longleftrightarrow> spec m (\<lambda>_ u. reads_typed u \<longrightarrow> writes_typed u)"

lemma typed_append:
  "reads_typed u \<longrightarrow> writes_typed u \<Longrightarrow> reads_typed v \<longrightarrow> writes_typed v \<Longrightarrow> reads_typed (u @ v) \<longrightarrow> writes_typed (u @ v)"
  unfolding reads_typed_def writes_typed_def by (metis Un_iff set_append)

lemma typed_bind:
  assumes "typed m" "\<And>x. typed (f x)" shows "typed (State_Monad.bind m f)"
  unfolding typed_def
proof (rule spec_bind, rule spec_conseq [OF assms(1) [unfolded typed_def]])
  fix x and u :: trace assume u: "reads_typed u \<longrightarrow> writes_typed u"
  show "spec (f x) (\<lambda>_ v. reads_typed (u @ v) \<longrightarrow> writes_typed (u @ v))"
    by (rule spec_conseq [OF assms(2) [unfolded typed_def]]) (rule typed_append [OF u])
qed

lemma typed_cases:
  "typed (ret x)" "typed m \<Longrightarrow> typed m' \<Longrightarrow> typed (if c then m else m')"
  "(\<And>y. z = Inl y \<Longrightarrow> typed (f y)) \<Longrightarrow> (\<And>y. z = Inr y \<Longrightarrow> typed (g y)) \<Longrightarrow> typed (case z of Inl y \<Rightarrow> f y | Inr y \<Rightarrow> g y)"
  "typed m \<Longrightarrow> (\<And>y. typed (h y)) \<Longrightarrow> typed (case w of None \<Rightarrow> m | Some y \<Rightarrow> h y)"
  by (cases z; cases w; auto simp: typed_def reads_typed_def writes_typed_def intro: spec_ret)+

definition no_status_write :: "call \<Rightarrow> bool" where
  "no_status_write c \<longleftrightarrow> (case c of StatusUpdate (KRecord r) \<Rightarrow> False | StatusPatch _ _ \<Rightarrow> False | _ \<Rightarrow> True)"

lemma typed_emits: "emits no_status_write m \<Longrightarrow> typed m"
  unfolding typed_def
  by (erule spec_of_emits) (auto simp: writes_typed_def no_status_write_def split: call.splits kobj.splits)

lemma typed_calls:
  "typed (api_get dec e s k ns n)" "typed (api_list f e s k ns ls)" "typed (now e)"
  "no_status_write c \<Longrightarrow> typed (api_do e c)"
  by (intro typed_emits io_emits; simp add: no_status_write_def)+

lemmas typed = typed_bind typed_cases typed_calls

lemma typed_finishCreation: "typed (finishCreation k e c ns name ph)"
  unfolding typed_def
proof (rule spec_conseq [OF spec_conj [OF finishCreation_spec finishCreation_recovery_call [unfolded emits_def]]], rule impI)
  fix u assume u: "settles ns name ph u \<and> (\<forall>ev \<in> set u. recovery_call r (fst ev))" and reads: "reads_typed u"
  show "writes_typed u"
    unfolding writes_typed_def
  proof
    fix ev assume ev: "ev \<in> set u"
    have "schema_ok (rec_status q)" if "fst ev = StatusUpdate (KRecord q)" for q
    proof -
      have "(StatusUpdate (KRecord q), snd ev) \<in> set u" using ev that by (metis prod.collapse)
      then obtain s b where "(Get s RecordKind ns name, RObj (KRecord b)) \<in> set u" "q = set_phase ph b"
        using u unfolding settles_def status_writes_guarded_def by blast
      with reads show ?thesis by (auto simp: reads_typed_def)
    qed
    moreover have "recovery_call r (fst ev)" using u ev by blast
    ultimately show "case fst ev of StatusUpdate (KRecord r) \<Rightarrow> schema_ok (rec_status r)
       | StatusPatch b (KRecord r) \<Rightarrow> schema_ok (rec_status r) | _ \<Rightarrow> True"
      by (auto simp: recovery_call_def split: call.splits kobj.splits)
  qed
qed

lemma typed_Begin:
  assumes "triggeredBy \<in> {TriggerTypeAlert, TriggerTypePeriodicHealthCheck}"
  shows "typed (Begin e ns name runName cluster triggeredBy trigger owner)"
proof -
  have "schema_ok (pending_status runName cluster triggeredBy trigger)"
    using assms by (simp add: schema_ok_def action_ok_def trigger_type_ok_def pending_status_def zero_runStatus_def)
  then show ?thesis
    unfolding typed_def Begin_def by (intro io_spec) (auto simp: writes_typed_def)
qed

lemma typed_settle: "typed (Confirm k e c ns name)" "typed (Fail k e c ns name)"
  unfolding Confirm_def Fail_def by (rule typed_finishCreation)+

lemma typed_create_and_settle: "typed (create_and_settle k e c ns runName run result)"
  unfolding create_and_settle_def by (intro typed typed_settle) (simp_all add: no_status_write_def)

lemma typed_BuildVarMap: "typed (BuildVarMap L e c ns cluster)"
  unfolding BuildVarMap_def Let_def by (intro typed)

lemma typed_LoadRunConfig: "typed (LoadRunConfig J e c name ns)"
  unfolding LoadRunConfig_def by (intro typed)

lemma typed_periodic: "typed (createAgenticRunForCluster k L e thc cluster checkType cfg runName)"
  unfolding createAgenticRunForCluster_def
  by (intro typed typed_BuildVarMap typed_Begin typed_create_and_settle) simp

lemma typed_alert: "typed (createAgenticRunOnCluster ul k L J cluster alertName annotations e)"
  unfolding createAgenticRunOnCluster_def resolveAlertConfigMap_def start_alert_run_def Let_def
  by (intro typed typed_LoadRunConfig typed_BuildVarMap typed_Begin typed_create_and_settle) simp

lemma typed_recover: "typed (recoverPendingRuns k L e ns)"
proof -
  have "typed (recover_one k L e ns r)" for r
    unfolding recover_one_def by (intro typed typed_settle) (simp_all add: no_status_write_def)
  then have "typed (recover_loop k L e ns rs p)" for rs p
    by (induction rs arbitrary: p) (auto intro!: typed)
  then show ?thesis unfolding recoverPendingRuns_def by (intro typed)
qed

lemma typed_runAlert: "typed (runAlert_Reconcile k L T W e ns reqNs reqName)"
  unfolding typed_def
proof (rule spec_conseq [OF spec_conj [OF runAlert_Reconcile_spec runAlert_Reconcile_schema [unfolded emits_def]]], rule impI)
  fix u assume u: "guarded (alert_guard W ns) u \<and> (\<forall>ev \<in> set u. schema_call (fst ev))" and reads: "reads_typed u"
  show "writes_typed u"
    unfolding writes_typed_def
  proof
    fix ev assume ev: "ev \<in> set u"
    then obtain v a w where uv: "u = v @ (fst ev, a) # w" by (metis in_set_conv_decomp prod.collapse)
    have "schema_ok (rec_status r)" if "fst ev = StatusPatch x (KRecord r)" for x r
    proof -
      have "alert_guard W ns v (fst ev)" using u uv unfolding guarded_def by blast
      then have "patch_ok v x (KRecord r)" unfolding that by (simp add: alert_guard_def)
      then obtain b where b: "x = KRecord b" "read_live v b" by (auto simp: patch_ok_def)
      then have "schema_ok (rec_status b)" using reads uv by (auto simp: read_live_def reads_typed_def)
      moreover have "schema_call (fst ev)" using u ev by blast
      ultimately show ?thesis using that b(1) by (simp add: schema_kept_def)
    qed
    moreover have "schema_call (fst ev)" using u ev by blast
    ultimately show "case fst ev of StatusUpdate (KRecord r) \<Rightarrow> schema_ok (rec_status r)
       | StatusPatch b (KRecord r) \<Rightarrow> schema_ok (rec_status r) | _ \<Rightarrow> True"
      by (auto simp: schema_call_def split: call.splits kobj.splits)
  qed
qed

text \<open>A trace in which the writes stay within the schema if the reads are.\<close>

definition schema_respected :: "trace \<Rightarrow> bool" where
  "schema_respected u \<longleftrightarrow> (reads_typed u \<longrightarrow> writes_typed u)"

lemma typed_run: "typed m \<Longrightarrow> \<exists>u. snd (run_state m t) = t @ u \<and> schema_respected u"
  unfolding typed_def schema_respected_def spec_def by blast

text \<open>
  C24. Records stay well typed: if the records that are read keep to the enumerations in the schema of
  the custom resource (the type of the trigger and the action required), then so does every status that
  is written by the creation of a run for a periodic check or for an alert, by the recovery of pending
  runs, and by the record reconciler.
\<close>

theorem record_schema_kept:
  "(\<exists>u. snd (run_state (createAgenticRunForCluster k L e thc cluster checkType cfg runName) t) = t @ u \<and> schema_respected u)
   \<and> (\<exists>u. snd (run_state (createAgenticRunOnCluster ul k L J cluster alertName annotations e) t) = t @ u \<and> schema_respected u)
   \<and> (\<exists>u. snd (run_state (recoverPendingRuns k L e ns) t) = t @ u \<and> schema_respected u)
   \<and> (\<exists>u. snd (run_state (runAlert_Reconcile k L T W e ns reqNs reqName) t) = t @ u \<and> schema_respected u)"
  by (intro conjI typed_run typed_periodic typed_alert typed_recover typed_runAlert)

end
