(* ===== verification/Queue_Delivery.thy ===== *)
theory Queue_Delivery
  imports Record_Schema
begin

text \<open>
  Notifications get through: on a hub that does its work (\<open>quiet_record\<close> of \<open>Record_Hub\<close>, read
  directly), with an Alertmanager that answers and an AgenticRun that does not change for the time being, the
  first pass of the reconciler of the records (\<open>runalerts.go\<close>) synchronises the record with the run, which may
  append a notification (\<open>queue_from\<close>), and the passes deliver this whole queue in order, one notification each.
\<close>

section \<open>Requests of a trace\<close>

fun requests :: "trace \<Rightarrow> http_request list" where
  "requests [] = []"
| "requests ((HttpDo req, a) # u) = req # requests u"
| "requests (ev # u) = requests u"

lemma requests_append [simp]: "requests (u @ v) = requests u @ requests v"
  by (induction u rule: requests.induct) simp_all

definition silent :: "call \<Rightarrow> bool" where
  "silent c \<longleftrightarrow> (case c of HttpDo _ \<Rightarrow> False | _ \<Rightarrow> True)"

lemma requests_silent: "\<forall>ev \<in> set u. silent (fst ev) \<Longrightarrow> requests u = []"
  by (induction u rule: requests.induct) (auto simp: silent_def)

text \<open>The request carries the notification of the record, a resolution with its end.\<close>

definition delivers :: "alertManagerSpec \<Rightarrow> telcoHealthCheckRun \<Rightarrow> http_request \<Rightarrow> alertNotification \<Rightarrow> bool" where
  "delivers config record req n \<longleftrightarrow> hr_endpoint req = alert_endpoint config \<and> \<not> hr_followRedirects req
     \<and> (\<exists>link endsAt. hr_payload req = [outgoing_alert record n link endsAt]
          \<and> (\<not> an_firing n \<longrightarrow> an_endsAt n = Some endsAt))"

lemma deliversI:
  "\<not> an_firing n \<longrightarrow> an_endsAt n = Some endsAt
   \<Longrightarrow> delivers config record (alert_request config h (outgoing_alert record n link endsAt)) n"
  unfolding delivers_def by (auto simp: alert_request_def)

section \<open>An Alertmanager that answers\<close>

definition times_ok :: "alertNotification \<Rightarrow> bool" where
  "times_ok n \<longleftrightarrow> marshalable (an_startsAt n) \<and> (case an_endsAt n of None \<Rightarrow> True | Some t \<Rightarrow> marshalable t)"

text \<open>
  The configured URL is valid, the credentials are available, the clock is within the years that
  JSON can express, and every request is answered with a status of success.
\<close>

definition alertmanager_up :: "weblib \<Rightarrow> env \<Rightarrow> string \<Rightarrow> alertManagerSpec \<Rightarrow> bool" where
  "alertmanager_up W e ns config \<longleftrightarrow> valid_base_url W (am_url config)
     \<and> (\<exists>p. url_parse W (alert_endpoint config) = Some p
          \<and> (\<forall>t. \<exists>h. fst (run_state (authorize e ns p config) t) = Inr h))
     \<and> (\<forall>t. marshalable (as_time (e t Now) + alertLifetime))
     \<and> (\<forall>t req. \<exists>code. e t (HttpDo req) = RHttp code \<and> 200 \<le> code \<and> code < 300)"

text \<open>Rules that know the answers of the environment.\<close>

lemma spec_env: "(\<And>t. Q (f (e t c)) [(c, e t c)]) \<Longrightarrow> spec (do { r \<leftarrow> invoke e c; ret (f r) }) Q"
  by (simp add: spec_def)

lemma authorize_up:
  assumes "\<And>t. \<exists>h. fst (run_state (authorize e ns p config) t) = Inr h"
  shows "spec (authorize e ns p config) (\<lambda>x u. (\<exists>h. x = Inr h) \<and> requests u = [])"
proof -
  have "emits silent (authorize e ns p config)"
    unfolding authorize_def Let_def by (intro io_emits) (simp add: silent_def)
  then have "spec (authorize e ns p config) (\<lambda>_ u. requests u = [])"
    by (rule spec_of_emits) (rule requests_silent)
  then show ?thesis using assms unfolding spec_def by metis
qed

lemma do_post_up:
  assumes "\<And>t. \<exists>code. e t (HttpDo req) = RHttp code \<and> 200 \<le> code \<and> code < 300"
  shows "spec (do_post e req) (\<lambda>x u. x = None \<and> requests u = [req])"
  unfolding do_post_def
proof (rule spec_env)
  fix t
  obtain code where "e t (HttpDo req) = RHttp code" "200 \<le> code" "code < 300" using assms by blast
  then show "(case e t (HttpDo req) of RHttp code \<Rightarrow> if code < 200 \<or> 300 \<le> code
        then Some (Msg (''posting run alert: Alertmanager returned '' @ dec_int code)) else None
      | _ \<Rightarrow> Some (Wrap ''posting run alert'' (err_of (e t (HttpDo req))))) = None
    \<and> requests [(HttpDo req, e t (HttpDo req))] = [req]" by simp
qed

lemma post_alert_up:
  assumes "alertmanager_up W e ns config" "marshalable (ha_startsAt a)" "marshalable (ha_endsAt a)"
  shows "spec (post_alert W e ns config a) (\<lambda>x u. x = None \<and> (\<exists>h. requests u = [alert_request config h a]))"
proof -
  obtain p where p: "url_parse W (alert_endpoint config) = Some p"
    "\<And>t. \<exists>h. fst (run_state (authorize e ns p config) t) = Inr h"
    using assms(1) unfolding alertmanager_up_def by blast
  have post: "spec (do_post e req) (\<lambda>x u. x = None \<and> requests u = [req])" for req
    using assms(1) unfolding alertmanager_up_def by (intro do_post_up) blast
  show ?thesis
    unfolding post_alert_def using assms(2,3) p(1)
    by (simp, intro spec_bind spec_conseq [OF authorize_up [OF p(2)]])
      (auto intro!: spec_conseq [OF post])
qed

lemma send_up:
  assumes up: "alertmanager_up W e ns config" and n: "notification_ok n" "times_ok n"
  shows "spec (send L W e ns config record n) (\<lambda>x u. x = None \<and> (\<exists>req. requests u = [req] \<and> delivers config record req n))"
proof -
  have clock: "marshalable (as_time (e t Now) + alertLifetime)" for t
    using up unfolding alertmanager_up_def by blast
  have post: "spec (post_alert W e ns config (outgoing_alert record n link endsAt))
      (\<lambda>x u. x = None \<and> (\<exists>req. requests u = [req] \<and> delivers config record req n))"
    if "marshalable endsAt" "\<not> an_firing n \<longrightarrow> an_endsAt n = Some endsAt" for link endsAt
  proof (rule spec_conseq [OF post_alert_up [OF up]])
    show "marshalable (ha_startsAt (outgoing_alert record n link endsAt))"
      "marshalable (ha_endsAt (outgoing_alert record n link endsAt))"
      using n(2) that(1) by (simp_all add: outgoing_alert_def Let_def times_ok_def)
  qed (use deliversI [OF that(2)] in auto)
  have url: "spec (agenticRunURL L W e m) (\<lambda>_ u. requests u = [])" for m
    unfolding agenticRunURL_def by (intro io_spec) simp
  have "spec (do { t \<leftarrow> now e;
        if an_firing n then post_alert W e ns config (outgoing_alert record n link (t + alertLifetime))
        else (case an_endsAt n of None \<Rightarrow> ret (Some er)
         | Some endsAt \<Rightarrow> post_alert W e ns config (outgoing_alert record n link endsAt)) })
      (\<lambda>x u. x = None \<and> (\<exists>req. requests u = [req] \<and> delivers config record req n))" for link er
    unfolding now_def
  proof (rule spec_bind, rule spec_env)
    fix t
    show "spec (if an_firing n then post_alert W e ns config (outgoing_alert record n link (as_time (e t Now) + alertLifetime))
        else (case an_endsAt n of None \<Rightarrow> ret (Some er)
         | Some endsAt \<Rightarrow> post_alert W e ns config (outgoing_alert record n link endsAt)))
      (\<lambda>x u. x = None \<and> (\<exists>req. requests ([(Now, e t Now)] @ u) = [req] \<and> delivers config record req n))"
      using n clock [of t] post by (auto simp: notification_ok_def times_ok_def split: option.splits if_splits simp del: as_time_def)
  qed
  note rest = this
  have "valid_base_url W (am_url config)" using up unfolding alertmanager_up_def by blast
  then show ?thesis
    unfolding send_def by (simp only: not_True_eq_False if_False)
      (rule spec_bind, rule spec_conseq [OF url], rule spec_conseq [OF rest], simp)
qed

section \<open>One pass\<close>

definition is_get :: "call \<Rightarrow> bool" where
  "is_get c \<longleftrightarrow> (case c of Get _ _ _ _ \<Rightarrow> True | _ \<Rightarrow> False)"

definition only_reads :: "trace \<Rightarrow> bool" where
  "only_reads u \<longleftrightarrow> (\<forall>ev \<in> set u. is_get (fst ev))"

lemma is_get_quiet: "is_get c \<Longrightarrow> silent c" "is_get c \<Longrightarrow> \<not> writes_to ns name c"
  by (cases c; simp add: is_get_def silent_def)+

lemma only_reads_silent: "only_reads u \<Longrightarrow> requests u = []"
  by (rule requests_silent) (simp add: only_reads_def is_get_quiet)

section \<open>What the synchronisation finds\<close>

text \<open>What the hub says of the run: there is none, or its type, phase, summary and required action.\<close>

type_synonym observation = "(string \<times> string \<times> string \<times> string) option"

definition run_read :: "telcoHealthCheckRun \<Rightarrow> call" where
  "run_read r = Get Live AgenticRunKind AgenticNamespace (rr_agenticRunName (rec_status r))"

text \<open>
  The AgenticRun of a record and its latest result do not change for the time being: the run is not
  found, or it is always the same run, of the name that was asked for, and can be synchronised.
\<close>

fun run_steady :: "ulib \<Rightarrow> (string \<Rightarrow> instant option) \<Rightarrow> env \<Rightarrow> telcoHealthCheckRun \<Rightarrow> observation \<Rightarrow> bool" where
  "run_steady L T e r None \<longleftrightarrow> (\<forall>t. \<exists>er. e t (run_read r) = RErr er \<and> isNotFound er)"
| "run_steady L T e r (Some (ct, ph, su, ac)) \<longleftrightarrow> syncable r
     \<and> (\<exists>run. (\<forall>t. e t (run_read r) = RObj (KUnstr run)) \<and> run_matches L run r
          \<and> om_name run = rr_agenticRunName (rec_status r) \<and> latestCondition L T run = (ct, ph)
          \<and> (\<forall>t. fst (run_state (latest_result L e run) t) = Inr (su, ac)))"

text \<open>What a synchronisation at the time \<open>s\<close> makes of a status, and a status that it leaves alone.\<close>

fun next_status :: "observation \<Rightarrow> instant \<Rightarrow> telcoHealthCheckRunStatus \<Rightarrow> telcoHealthCheckRunStatus" where
  "next_status None s st = st"
| "next_status (Some (ct, ph, su, ac)) s st =
     (let st1 = observe ct ph su ac st in
      if rr_actionRequired st1 = rr_actionRequired st then st1
      else queue_at s (rr_actionRequired st) st1)"

fun in_sync :: "observation \<Rightarrow> telcoHealthCheckRunStatus \<Rightarrow> bool" where
  "in_sync None st \<longleftrightarrow> True"
| "in_sync (Some (ct, ph, su, ac)) st \<longleftrightarrow> observe ct ph su ac st = st"

definition queue_from :: "observation \<Rightarrow> instant \<Rightarrow> telcoHealthCheckRunStatus \<Rightarrow> alertNotification list" where
  "queue_from ob s st = rr_notifications (stored_status (next_status ob s st))"

lemma observation_cases: obtains "ob = None" | ct ph su ac where "ob = Some (ct, ph, su, ac)"
  by (cases ob) auto

lemma observe_twice: "observe ct ph su ac (observe ct ph su ac st) = observe ct ph su ac st"
  by (cases st) (auto simp: observe_def Let_def)

lemma in_sync_cong:
  "rr_agenticRunStatus st' = rr_agenticRunStatus st \<Longrightarrow> rr_actionRequired st' = rr_actionRequired st
   \<Longrightarrow> in_sync ob st' = in_sync ob st"
  by (cases ob rule: observation_cases; cases st; cases st') (auto simp: observe_def Let_def)

lemma queue_at_fields [simp]:
  "rr_agenticRunStatus (queue_at s old st) = rr_agenticRunStatus st"
  "rr_actionRequired (queue_at s old st) = rr_actionRequired st"
  by (simp_all add: queue_at_def notify_firing_def notify_resolved_def Let_def)

lemma in_sync_next: "in_sync ob (next_status ob s st)"
proof (cases ob rule: observation_cases)
  case (2 ct ph su ac)
  have "in_sync ob (observe ct ph su ac st)" by (simp add: 2 observe_twice)
  moreover have "in_sync ob (queue_at s old (observe ct ph su ac st)) = in_sync ob (observe ct ph su ac st)" for old
    by (rule in_sync_cong) simp_all
  ultimately show ?thesis by (simp add: 2 Let_def)
qed simp

lemma next_in_sync: "in_sync ob st \<Longrightarrow> next_status ob s st = st"
  by (cases ob rule: observation_cases) simp_all

lemma next_identity: "run_identity (next_status ob s st) = run_identity st"
  by (cases ob rule: observation_cases) (simp_all add: Let_def)

lemma next_inv:
  assumes "alert_inv st" shows "alert_inv (next_status ob (truncate_second x) st)"
proof (cases ob rule: observation_cases)
  case (2 ct ph su ac)
  show ?thesis
  proof (cases "rr_actionRequired (observe ct ph su ac st) = rr_actionRequired st")
    case True
    then show ?thesis using assms by (auto simp: 2 observe_fields intro: alert_inv_cong)
  next
    case False
    then show ?thesis using alert_inv_queue_at [OF assms False] by (simp add: 2)
  qed
qed (use assms in simp)

lemma next_empty: "queue_from ob s st = [] \<longleftrightarrow> queue_from ob s' st = []"
  by (cases ob rule: observation_cases)
    (simp_all add: queue_from_def stored_status_def queue_at_def notify_firing_def notify_resolved_def Let_def)

lemma steady_cong:
  assumes "om_annotations r' = om_annotations r" "om_labels r' = om_labels r"
    and "run_identity (rec_status r') = run_identity (rec_status r)"
  shows "run_steady L T e r' ob = run_steady L T e r ob"
proof -
  have id: "rr_agenticRunName (rec_status r') = rr_agenticRunName (rec_status r)"
    "rr_clusterName (rec_status r') = rr_clusterName (rec_status r)"
    using assms(3) by (simp_all add: run_identity_def)
  then have "run_read r' = run_read r" "syncable r' = syncable r" "run_matches L run r' = run_matches L run r" for run
    using assms(1,2) by (simp_all add: run_read_def syncable_def run_matches_def)
  with id show ?thesis by (cases ob rule: observation_cases) simp_all
qed

lemma next_schema:
  assumes "schema_ok st" "\<And>ct ph su ac. ob = Some (ct, ph, su, ac) \<Longrightarrow> action_ok ac"
  shows "schema_ok (next_status ob s st)"
  using assms(1) schema_observe [OF assms(2)]
  by (cases ob rule: observation_cases) (auto simp: Let_def schema_kept_def)

lemma latest_result_reads: "emits is_get (latest_result L e run)"
  unfolding latest_result_def Let_def by (intro io_emits) (simp_all add: is_get_def)

text \<open>What a delivery of the first notification leaves, at the time \<open>s\<close> of the renewal.\<close>

definition after_delivery :: "telcoHealthCheckRunStatus \<Rightarrow> alertNotification \<Rightarrow> instant \<Rightarrow> telcoHealthCheckRunStatus" where
  "after_delivery st n s = stored_status (if current_firing st n then renewed s (popped st) else popped st)"

lemma stored_identity_kept: "run_identity (stored_status st) = run_identity st"
  by (simp add: run_identity_def stored_status_def)

lemma after_identity: "run_identity (after_delivery st n s) = run_identity st"
  by (simp add: after_delivery_def stored_identity_kept) (simp add: run_identity_def popped_def renewed_def)

lemma delivers_cong:
  "run_identity (rec_status r') = run_identity (rec_status r) \<Longrightarrow> delivers config r' = delivers config r"
  by (intro ext) (simp add: delivers_def outgoing_alert_def run_identity_def)

lemma content_status_cong:
  assumes "content r = content (r'\<lparr>rec_status := st\<rparr>)"
  shows "content (r\<lparr>rec_status := st'\<rparr>) = content (r'\<lparr>rec_status := st'\<rparr>)"
  using assms by (cases r; cases r') (simp add: content_def)

fun repeat_io :: "nat \<Rightarrow> 'a io \<Rightarrow> 'a list io" where
  "repeat_io 0 m = ret []"
| "repeat_io (Suc n) m = do { x \<leftarrow> m; xs \<leftarrow> repeat_io n m; ret (x # xs) }"

locale live_record = quiet_record e Live ns name view
  for e :: env and ns name :: string and view :: "trace \<Rightarrow> telcoHealthCheckRun"
begin

lemma view_calls: "\<forall>ev \<in> set u. \<not> writes_to ns name (fst ev) \<Longrightarrow> view (t @ u) = view t"
proof (induction u arbitrary: t)
  case (Cons ev u)
  then have "view ((t @ [ev]) @ u) = view (t @ [ev])" by (intro Cons.IH) simp
  then show ?case using Cons.prems other [of "fst ev" t "snd ev"] by simp
qed simp

lemma view_reads: "only_reads u \<Longrightarrow> view (t @ u) = view t"
  by (rule view_calls) (simp add: only_reads_def is_get_quiet)

lemma send_calls: "emits (\<lambda>c. \<not> writes_to ns name c) (send L W e namespace config record n)"
  unfolding send_def agenticRunURL_def post_alert_def authorize_def do_post_def Let_def
  by (intro io_emits) simp_all

lemma patch_run:
  assumes r: "view t = record" and st: "schema_ok st"
  shows "\<exists>a. run_state (patch_status e record st) t
      = (None, t @ [(StatusPatch (KRecord record) (KRecord (record\<lparr>rec_status := st\<rparr>)), a)])
    \<and> content (view (t @ [(StatusPatch (KRecord record) (KRecord (record\<lparr>rec_status := st\<rparr>)), a)]))
      = content (record\<lparr>rec_status := stored_status st\<rparr>)"
  using status_patch [OF refl st, of t] unfolding r
  by (simp add: patch_status_def api_do_def del: ack_def)

lemma deliver_next_run:
  assumes up: "alertmanager_up W e ns config" and q: "rr_notifications (rec_status (view t)) = n # rest"
    and n: "notification_ok n" "times_ok n"
  shows "\<exists>u req s. run_state (deliver_next L W e ns config (view t) n) t = ((requeue_now, None), t @ u)
    \<and> requests u = [req] \<and> delivers config (view t) req n
    \<and> content (view (t @ u)) = content ((view t)\<lparr>rec_status := after_delivery (rec_status (view t)) n s\<rparr>)"
proof -
  define r0 where "r0 = view t"
  have "spec (send L W e ns config r0 n) (\<lambda>x u. (x = None \<and> (\<exists>req. requests u = [req] \<and> delivers config r0 req n))
      \<and> (\<forall>ev \<in> set u. \<not> writes_to ns name (fst ev)))"
    by (rule spec_conj [OF send_up [OF up n] send_calls [unfolded emits_def]])
  then obtain u req where u: "run_state (send L W e ns config r0 n) t = (None, t @ u)" "requests u = [req]"
    "delivers config r0 req n" "\<forall>ev \<in> set u. \<not> writes_to ns name (fst ev)"
    by (rule specD [where t = t]) (metis prod.collapse)
  have ok: "schema_ok (popped (rec_status r0))" "schema_ok (renewed s (popped (rec_status r0)))" for s
    using view_schema [of t] by (simp_all add: r0_def schema_ok_def popped_def renewed_def)
  show ?thesis
  proof (cases "current_firing (rec_status r0) n")
    case True
    let ?now = "(Now, e (t @ u) Now)"
    let ?s = "as_time (e (t @ u) Now)"
    have "view ((t @ u) @ [?now]) = r0" using view_calls [of "u @ [?now]" t] u(4) by (simp add: r0_def)
    from patch_run [OF this ok(2)] obtain a where
      a: "run_state (patch_status e r0 (renewed ?s (popped (rec_status r0)))) ((t @ u) @ [?now])
        = (None, ((t @ u) @ [?now]) @ [(StatusPatch (KRecord r0)
            (KRecord (r0\<lparr>rec_status := renewed ?s (popped (rec_status r0))\<rparr>)), a)])"
      "content (view (((t @ u) @ [?now]) @ [(StatusPatch (KRecord r0)
            (KRecord (r0\<lparr>rec_status := renewed ?s (popped (rec_status r0))\<rparr>)), a)]))
        = content (r0\<lparr>rec_status := stored_status (renewed ?s (popped (rec_status r0)))\<rparr>)" by blast
    show ?thesis
      using u a True
      by (intro exI [of _ "u @ [?now, (StatusPatch (KRecord r0)
            (KRecord (r0\<lparr>rec_status := renewed ?s (popped (rec_status r0))\<rparr>)), a)]"] exI [of _ req] exI [of _ ?s])
        (simp add: deliver_next_def now_def with_result_def after_delivery_def r0_def [symmetric] del: as_time_def)
  next
    case False
    have "view (t @ u) = r0" using view_calls u(4) by (simp add: r0_def)
    from patch_run [OF this ok(1)] obtain a where
      a: "run_state (patch_status e r0 (popped (rec_status r0))) (t @ u)
        = (None, (t @ u) @ [(StatusPatch (KRecord r0) (KRecord (r0\<lparr>rec_status := popped (rec_status r0)\<rparr>)), a)])"
      "content (view ((t @ u) @ [(StatusPatch (KRecord r0) (KRecord (r0\<lparr>rec_status := popped (rec_status r0)\<rparr>)), a)]))
        = content (r0\<lparr>rec_status := stored_status (popped (rec_status r0))\<rparr>)" by blast
    show ?thesis
      using u a False
      by (intro exI [of _ "u @ [(StatusPatch (KRecord r0) (KRecord (r0\<lparr>rec_status := popped (rec_status r0)\<rparr>)), a)]"]
          exI [of _ req] exI [of _ 0]) (simp add: deliver_next_def with_result_def after_delivery_def r0_def [symmetric])
  qed
qed

text \<open>A synchronisation, from a record whose run does not change.\<close>

lemma attempt_run:
  assumes r: "same_run cluster runName (view t)" and ac: "action_ok ac"
  shows "\<exists>u x. run_state (sync_attempt e ns name cluster runName ct ph su ac) t = (None, t @ u) \<and> requests u = []
    \<and> content (view (t @ u)) = content ((view t)\<lparr>rec_status := stored_status
        (next_status (Some (ct, ph, su, ac)) (truncate_second (as_time (e x Now))) (rec_status (view t)))\<rparr>)"
proof -
  define r0 st1 where "r0 = view t" and "st1 = observe ct ph su ac (rec_status r0)"
  let ?get = "(Get Live RecordKind ns name, RObj (KRecord r0))"
  have v0: "view (t @ [?get]) = r0" by (simp add: view_read r0_def)
  have same: "same_run cluster runName r0" using r by (simp add: r0_def)
  have schema: "schema_ok (next_status (Some (ct, ph, su, ac)) s (rec_status r0))" for s
    using ac view_schema [of t] unfolding r0_def [symmetric] by (intro next_schema) simp_all
  show ?thesis
  proof (cases "st1 = rec_status r0")
    case True
    then have "next_status (Some (ct, ph, su, ac)) s (rec_status r0) = rec_status r0" for s
      by (intro next_in_sync) (simp add: st1_def)
    then show ?thesis
      using True same v0 view_stored [of t]
      by (intro exI [of _ "[?get]"]) (simp add: sync_attempt_def read_run st1_def [symmetric] r0_def [symmetric])
  next
    case False
    show ?thesis
    proof (cases "rr_actionRequired (rec_status r0) = rr_actionRequired st1")
      case True
      then have n: "next_status (Some (ct, ph, su, ac)) s (rec_status r0) = st1" for s
        by (simp add: st1_def [symmetric])
      obtain a where a: "run_state (patch_status e r0 st1) (t @ [?get]) = (None, (t @ [?get])
            @ [(StatusPatch (KRecord r0) (KRecord (r0\<lparr>rec_status := st1\<rparr>)), a)])"
        "content (view ((t @ [?get]) @ [(StatusPatch (KRecord r0) (KRecord (r0\<lparr>rec_status := st1\<rparr>)), a)]))
          = content (r0\<lparr>rec_status := stored_status st1\<rparr>)"
        using patch_run [OF v0 schema [of 0, unfolded n]] by blast
      then show ?thesis
        using True False same n
        by (intro exI [of _ "[?get, (StatusPatch (KRecord r0) (KRecord (r0\<lparr>rec_status := st1\<rparr>)), a)]"])
          (simp add: sync_attempt_def queueActionAlert_def read_run st1_def [symmetric] r0_def [symmetric] patch_status_def)
    next
      case change: False
      let ?now = "(Now, e (t @ [?get]) Now)"
      define st' where "st' = queue_at (truncate_second (as_time (e (t @ [?get]) Now))) (rr_actionRequired (rec_status r0)) st1"
      have n: "next_status (Some (ct, ph, su, ac)) (truncate_second (as_time (e (t @ [?get]) Now))) (rec_status r0) = st'"
        using change by (simp add: st1_def [symmetric] st'_def del: as_time_def)
      have v1: "view ((t @ [?get]) @ [?now]) = r0" using v0 other [of Now "t @ [?get]"] by simp
      obtain a where a: "run_state (patch_status e r0 st') ((t @ [?get]) @ [?now]) = (None, ((t @ [?get]) @ [?now])
            @ [(StatusPatch (KRecord r0) (KRecord (r0\<lparr>rec_status := st'\<rparr>)), a)])"
        "content (view (((t @ [?get]) @ [?now]) @ [(StatusPatch (KRecord r0) (KRecord (r0\<lparr>rec_status := st'\<rparr>)), a)]))
          = content (r0\<lparr>rec_status := stored_status st'\<rparr>)"
        using patch_run [OF v1 schema [of "truncate_second (as_time (e (t @ [?get]) Now))", unfolded n]] by blast
      then show ?thesis
        using change False same n
        by (intro exI [of _ "[?get, ?now, (StatusPatch (KRecord r0) (KRecord (r0\<lparr>rec_status := st'\<rparr>)), a)]"]
            exI [of _ "t @ [?get]"])
          (simp add: sync_attempt_def queueActionAlert_def now_def read_run st1_def [symmetric] r0_def [symmetric]
            st'_def [symmetric] patch_status_def del: as_time_def)
    qed
  qed
qed

lemma sync_run:
  assumes "run_steady L T e (view t) ob"
  shows "\<exists>u x. run_state (syncHubRunStatus k L T e (view t)) t = (None, t @ u) \<and> requests u = []
    \<and> content (view (t @ u)) = content ((view t)\<lparr>rec_status := stored_status
        (next_status ob (truncate_second (as_time (e x Now))) (rec_status (view t)))\<rparr>)"
proof -
  define r0 where "r0 = view t"
  have same: "content r0 = content (r0\<lparr>rec_status := stored_status (rec_status r0)\<rparr>)"
    using view_stored [of t] by (simp add: r0_def)
  show ?thesis
  proof (cases ob rule: observation_cases)
    case 1
    show ?thesis
    proof (cases "syncable r0")
      case False
      then show ?thesis using same unfolding 1
        by (intro exI [of _ "[]"]) (simp add: syncHubRunStatus_def r0_def)
    next
      case True
      obtain er where er: "e t (run_read r0) = RErr er" "isNotFound er"
        using assms unfolding 1 r0_def by auto
      have "view (t @ [(run_read r0, RErr er)]) = r0" by (simp add: run_read_def view_read r0_def)
      then show ?thesis using True er same unfolding 1
        by (intro exI [of _ "[(run_read r0, RErr er)]"])
          (simp add: syncHubRunStatus_def api_get_def run_read_def r0_def [symmetric] ignoreNotFound_def)
    qed
  next
    case (2 ct ph su ac)
    obtain run where run: "syncable r0" "\<And>t. e t (run_read r0) = RObj (KUnstr run)" "run_matches L run r0"
      "om_name run = rr_agenticRunName (rec_status r0)" "latestCondition L T run = (ct, ph)"
      "\<And>t. fst (run_state (latest_result L e run) t) = Inr (su, ac)"
      using assms unfolding 2 r0_def by auto
    let ?get = "(run_read r0, RObj (KUnstr run))"
    obtain v where v: "run_state (latest_result L e run) (t @ [?get]) = (Inr (su, ac), (t @ [?get]) @ v)" "only_reads v"
      "action_ok ac"
    proof (rule specD [OF spec_conj [OF latest_result_reads [unfolded emits_def] latest_result_action], where t = "t @ [?get]"],
        elim conjE)
      fix u assume u: "snd (run_state (latest_result L e run) (t @ [?get])) = (t @ [?get]) @ u"
        "\<forall>ev \<in> set u. is_get (fst ev)"
        "\<forall>sa. fst (run_state (latest_result L e run) (t @ [?get])) = Inr sa \<longrightarrow> action_ok (snd sa)"
      then show thesis
        using run(6) [of "t @ [?get]"] by (intro that [of u]) (auto simp: only_reads_def prod_eq_iff)
    qed
    have reads: "only_reads (?get # v)" using v(2) by (simp add: only_reads_def is_get_def run_read_def)
    have view: "view (t @ ?get # v) = r0" using view_reads [OF reads] by (simp add: r0_def)
    have "same_run (rr_clusterName (rec_status r0)) (om_name run) (view (t @ ?get # v))"
      using run(1,3,4) unfolding view by (auto simp: same_run_def syncable_def run_matches_def split: prod.splits)
    from attempt_run [OF this v(3), of ct ph su] obtain u x where
      u: "run_state (sync_attempt e ns name (rr_clusterName (rec_status r0)) (om_name run) ct ph su ac) (t @ ?get # v)
          = (None, (t @ ?get # v) @ u)" "requests u = []"
        "content (view ((t @ ?get # v) @ u)) = content (r0\<lparr>rec_status := stored_status
          (next_status (Some (ct, ph, su, ac)) (truncate_second (as_time (e x Now))) (rec_status r0))\<rparr>)"
      unfolding view by blast
    have at: "om_namespace r0 = ns" "om_name r0 = name" using view_at [of t] by (simp_all add: r0_def is_at_def)
    have "run_state (syncHubRunStatus k L T e r0) t = (None, t @ (?get # v) @ u)"
      using run(1,3,5) run(2) [of t] v(1) run_retry_None [OF u(1), of k] at
      by (simp add: syncHubRunStatus_def api_get_def run_read_def [symmetric] run_matches_cluster)
    moreover have "requests ((?get # v) @ u) = []"
      using only_reads_silent [OF reads] u(2) by (simp only: requests_append append_Nil)
    ultimately show ?thesis using u(3) unfolding 2 r0_def [symmetric]
      by (intro exI [of _ "(?get # v) @ u"] exI [of _ x]) simp
  qed
qed

text \<open>
  The whole pass of the reconciler, from a record with a queue: \<open>r1\<close> is the record as the
  synchronisation leaves it.
\<close>

lemma pass_run:
  assumes hub: "alertmanager_up W e ns config"
    and owner: "\<And>t. e t (Get Live ThcKind '''' TelcoHealthcheckCanonicalName) = RObj (KTHC owner)"
      "sp_alertManager (thc_spec owner) = Some config"
    and sync: "run_state (syncHubRunStatus k L T e (view t)) (t @ [(Get Live RecordKind ns name, RObj (KRecord (view t)))])
      = (None, (t @ [(Get Live RecordKind ns name, RObj (KRecord (view t)))]) @ v)" "requests v = []"
    and r1: "view (t @ (Get Live RecordKind ns name, RObj (KRecord (view t))) # v) = r1"
    and inv: "alert_inv (rec_status r1)"
    and q: "rr_notifications (rec_status r1) = n # rest" "times_ok n"
  shows "\<exists>u req s. run_state (runAlert_Reconcile k L T W e ns ns name) t = ((requeue_now, None), t @ u)
    \<and> requests u = [req] \<and> delivers config r1 req n
    \<and> content (view (t @ u)) = content (r1\<lparr>rec_status := after_delivery (rec_status r1) n s\<rparr>)"
proof -
  let ?get = "(Get Live RecordKind ns name, RObj (KRecord (view t)))"
  let ?get1 = "(Get Live RecordKind ns name, RObj (KRecord r1))"
  let ?own = "(Get Live ThcKind '''' TelcoHealthcheckCanonicalName, RObj (KTHC owner))"
  let ?h = "?get # v @ [?get1, ?own]"
  have view1: "view (t @ ?h) = r1"
    using view_reads [of "[?get1, ?own]" "t @ ?get # v"] r1 by (simp add: only_reads_def is_get_def)
  have n: "notification_ok n" "\<not> (rr_actionRequired (rec_status r1) = ''True'' \<and> rr_alertStartsAt (rec_status r1) = None)"
    using inv q(1) by (auto simp: alert_inv_def queue_tail_ok_def Let_def)
  have dl: "deliver L W e ns config r1 = deliver_next L W e ns config r1 n"
    unfolding deliver_def if_not_P [OF n(2)] using q(1) by simp
  obtain u req s where u: "run_state (deliver_next L W e ns config r1 n) (t @ ?h) = ((requeue_now, None), (t @ ?h) @ u)"
    "requests u = [req]" "delivers config r1 req n"
    "content (view ((t @ ?h) @ u)) = content (r1\<lparr>rec_status := after_delivery (rec_status r1) n s\<rparr>)"
    using deliver_next_run [OF hub(1), of "t @ ?h" n rest L] q n(1) unfolding view1 by blast
  have "requests ?h = []" using sync(2) by simp
  then have "requests (?h @ u) = [req]" using u(2) by (simp only: requests_append append_Nil)
  moreover have "run_state (runAlert_Reconcile k L T W e ns ns name) t = ((requeue_now, None), t @ ?h @ u)"
    using sync(1) u(1) r1 owner
    by (simp add: runAlert_Reconcile_def read_run deliver_pass_def api_get_def [of as_thc] dl)
  ultimately show ?thesis using u(3,4)
    by (intro exI [of _ "?h @ u"] exI [of _ req] exI [of _ s]) simp
qed

text \<open>A pass from any record, for the time \<open>x\<close> of its synchronisation.\<close>

lemma any_pass:
  assumes hub: "alertmanager_up W e ns config" "run_steady L T e (view t) ob"
    and owner: "\<And>t. e t (Get Live ThcKind '''' TelcoHealthcheckCanonicalName) = RObj (KTHC owner)"
      "sp_alertManager (thc_spec owner) = Some config"
    and inv: "alert_inv (rec_status (view t))"
  obtains x where "\<And>n rest. queue_from ob (truncate_second (as_time (e x Now))) (rec_status (view t)) = n # rest
      \<Longrightarrow> times_ok n
      \<Longrightarrow> \<exists>u req s. run_state (runAlert_Reconcile k L T W e ns ns name) t = ((requeue_now, None), t @ u)
        \<and> requests u = [req] \<and> delivers config (view t) req n
        \<and> content (view (t @ u)) = content ((view t)\<lparr>rec_status := after_delivery (stored_status
            (next_status ob (truncate_second (as_time (e x Now))) (rec_status (view t)))) n s\<rparr>)"
proof -
  let ?get = "(Get Live RecordKind ns name, RObj (KRecord (view t)))"
  have v0: "view (t @ [?get]) = view t" by (rule view_read)
  obtain v x where v: "run_state (syncHubRunStatus k L T e (view t)) (t @ [?get]) = (None, (t @ [?get]) @ v)" "requests v = []"
    "content (view ((t @ [?get]) @ v)) = content ((view t)\<lparr>rec_status := stored_status
        (next_status ob (truncate_second (as_time (e x Now))) (rec_status (view t)))\<rparr>)"
    using sync_run [of L T "t @ [?get]" ob k] hub(2) unfolding v0 by blast
  let ?st = "stored_status (next_status ob (truncate_second (as_time (e x Now))) (rec_status (view t)))"
  define r1 where "r1 = view (t @ ?get # v)"
  have c: "content r1 = content ((view t)\<lparr>rec_status := ?st\<rparr>)" using v(3) by (simp add: r1_def)
  have st: "rec_status r1 = ?st" using arg_cong [OF c, of rec_status] by simp
  have id: "run_identity (rec_status r1) = run_identity (rec_status (view t))"
    unfolding st by (simp add: stored_identity_kept next_identity)
  show thesis
  proof (rule that [of x])
    fix n rest
    assume q: "queue_from ob (truncate_second (as_time (e x Now))) (rec_status (view t)) = n # rest" "times_ok n"
    obtain u req s where u: "run_state (runAlert_Reconcile k L T W e ns ns name) t = ((requeue_now, None), t @ u)"
      "requests u = [req]" "delivers config r1 req n"
      "content (view (t @ u)) = content (r1\<lparr>rec_status := after_delivery (rec_status r1) n s\<rparr>)"
      using pass_run [OF hub(1) owner v(1,2) r1_def [symmetric], of n rest] q next_inv [OF inv, THEN alert_inv_stored]
      unfolding st queue_from_def by blast
    have "content (r1\<lparr>rec_status := after_delivery ?st n s\<rparr>) = content ((view t)\<lparr>rec_status := after_delivery ?st n s\<rparr>)"
      using c by (rule content_status_cong)
    with u show "\<exists>u req s. run_state (runAlert_Reconcile k L T W e ns ns name) t = ((requeue_now, None), t @ u)
        \<and> requests u = [req] \<and> delivers config (view t) req n
        \<and> content (view (t @ u)) = content ((view t)\<lparr>rec_status := after_delivery ?st n s\<rparr>)"
      unfolding delivers_cong [OF id] st by metis
  qed
qed

text \<open>The record after a pass: steady, in sync, well formed, and with one notification less.\<close>

lemma after_pass:
  assumes "run_steady L T e (view t) ob" "alert_inv (rec_status (view t))"
    and "content (view t') = content ((view t)\<lparr>rec_status := after_delivery (stored_status
        (next_status ob (truncate_second x) (rec_status (view t)))) n s\<rparr>)"
    and "queue_from ob (truncate_second x) (rec_status (view t)) = n # rest"
  shows "run_steady L T e (view t') ob" "in_sync ob (rec_status (view t'))" "alert_inv (rec_status (view t'))"
    "rr_notifications (rec_status (view t')) = rest"
    "run_identity (rec_status (view t')) = run_identity (rec_status (view t))"
proof -
  let ?st = "stored_status (next_status ob (truncate_second x) (rec_status (view t)))"
  have st: "rec_status (view t') = after_delivery ?st n s"
    "om_annotations (view t') = om_annotations (view t)" "om_labels (view t') = om_labels (view t)"
    using arg_cong [OF assms(3), of rec_status] arg_cong [OF assms(3), of om_annotations] arg_cong [OF assms(3), of om_labels]
    by simp_all
  show id: "run_identity (rec_status (view t')) = run_identity (rec_status (view t))"
    unfolding st by (simp add: after_identity stored_identity_kept next_identity)
  show "run_steady L T e (view t') ob"
    using assms(1) steady_cong [OF st(2,3) id] by blast
  have "in_sync ob (after_delivery ?st n s) = in_sync ob (next_status ob (truncate_second x) (rec_status (view t)))"
    by (rule in_sync_cong) (simp_all add: after_delivery_def stored_status_def popped_def renewed_def)
  then show "in_sync ob (rec_status (view t'))" unfolding st by (simp add: in_sync_next)
  have q: "rr_notifications ?st = n # rest" using assms(4) by (simp add: queue_from_def)
  have inv: "alert_inv ?st" using next_inv [OF assms(2)] by (rule alert_inv_stored)
  show "alert_inv (rec_status (view t'))"
    using alert_inv_step [OF inv] runAlert_step.delivered [OF q] runAlert_step.delivered_firing [OF q]
    unfolding st after_delivery_def by (intro alert_inv_stored) auto
  have "map stored_notification (rr_notifications ?st) = rr_notifications ?st"
    using stored_status_iff [of ?st] by simp
  then show "rr_notifications (rec_status (view t')) = rest"
    using q unfolding st by (simp add: after_delivery_def) (simp add: stored_status_def popped_def renewed_def)
qed

text \<open>As many passes as there are notifications, from a record in sync.\<close>

lemma passes_run:
  assumes hub: "alertmanager_up W e ns config" "run_steady L T e (view t) ob" "in_sync ob (rec_status (view t))"
    and owner: "\<And>t. e t (Get Live ThcKind '''' TelcoHealthcheckCanonicalName) = RObj (KTHC owner)"
      "sp_alertManager (thc_spec owner) = Some config"
    and inv: "alert_inv (rec_status (view t))"
    and q: "rr_notifications (rec_status (view t)) = q" "list_all times_ok q"
  shows "\<exists>u. run_state (repeat_io (length q) (runAlert_Reconcile k L T W e ns ns name)) t
      = (replicate (length q) (requeue_now, None), t @ u)
    \<and> list_all2 (delivers config (view t)) (requests u) q
    \<and> rr_notifications (rec_status (view (t @ u))) = []"
  using hub(2,3) inv q
proof (induction q arbitrary: t)
  case Nil
  then show ?case by (intro exI [of _ "[]"]) simp
next
  case (Cons n rest)
  obtain x where x: "\<And>n rest. queue_from ob (truncate_second (as_time (e x Now))) (rec_status (view t)) = n # rest
      \<Longrightarrow> times_ok n
      \<Longrightarrow> \<exists>u req s. run_state (runAlert_Reconcile k L T W e ns ns name) t = ((requeue_now, None), t @ u)
        \<and> requests u = [req] \<and> delivers config (view t) req n
        \<and> content (view (t @ u)) = content ((view t)\<lparr>rec_status := after_delivery (stored_status
            (next_status ob (truncate_second (as_time (e x Now))) (rec_status (view t)))) n s\<rparr>)"
    by (rule any_pass [OF hub(1) Cons.prems(1) owner Cons.prems(3)]) blast
  have q: "queue_from ob (truncate_second (as_time (e x Now))) (rec_status (view t)) = n # rest"
    using next_in_sync [OF Cons.prems(2)] view_stored [of t] Cons.prems(4) by (simp add: queue_from_def del: as_time_def)
  have "times_ok n" "list_all times_ok rest" using Cons.prems(5) by simp_all
  obtain u req s where u: "run_state (runAlert_Reconcile k L T W e ns ns name) t = ((requeue_now, None), t @ u)"
    "requests u = [req]" "delivers config (view t) req n"
    "content (view (t @ u)) = content ((view t)\<lparr>rec_status := after_delivery (stored_status
        (next_status ob (truncate_second (as_time (e x Now))) (rec_status (view t)))) n s\<rparr>)"
    using x [OF q \<open>times_ok n\<close>] by blast
  note after = after_pass [OF Cons.prems(1,3) u(4) q]
  obtain v where v: "run_state (repeat_io (length rest) (runAlert_Reconcile k L T W e ns ns name)) (t @ u)
      = (replicate (length rest) (requeue_now, None), (t @ u) @ v)"
    "list_all2 (delivers config (view (t @ u))) (requests v) rest"
    "rr_notifications (rec_status (view ((t @ u) @ v))) = []"
    using Cons.IH [OF after(1-4) \<open>list_all times_ok rest\<close>] by blast
  with u(1-3) show ?case unfolding delivers_cong [OF after(5)]
    by (intro exI [of _ "u @ v"]) simp
qed

text \<open>From any record: the first pass synchronises it.\<close>

lemma drain_run:
  assumes hub: "alertmanager_up W e ns config" "run_steady L T e (view t) ob"
    and owner: "\<And>t. e t (Get Live ThcKind '''' TelcoHealthcheckCanonicalName) = RObj (KTHC owner)"
      "sp_alertManager (thc_spec owner) = Some config"
    and inv: "alert_inv (rec_status (view t))"
    and times: "\<And>x. list_all times_ok (queue_from ob (truncate_second (as_time (e x Now))) (rec_status (view t)))"
  shows "\<exists>x q u. q = queue_from ob (truncate_second (as_time (e x Now))) (rec_status (view t))
    \<and> run_state (repeat_io (length q) (runAlert_Reconcile k L T W e ns ns name)) t
      = (replicate (length q) (requeue_now, None), t @ u)
    \<and> list_all2 (delivers config (view t)) (requests u) q
    \<and> rr_notifications (rec_status (view (t @ u))) = []"
proof -
  obtain x where x: "\<And>n rest. queue_from ob (truncate_second (as_time (e x Now))) (rec_status (view t)) = n # rest
      \<Longrightarrow> times_ok n
      \<Longrightarrow> \<exists>u req s. run_state (runAlert_Reconcile k L T W e ns ns name) t = ((requeue_now, None), t @ u)
        \<and> requests u = [req] \<and> delivers config (view t) req n
        \<and> content (view (t @ u)) = content ((view t)\<lparr>rec_status := after_delivery (stored_status
            (next_status ob (truncate_second (as_time (e x Now))) (rec_status (view t)))) n s\<rparr>)"
    by (rule any_pass [OF hub owner inv]) blast
  define q where "q = queue_from ob (truncate_second (as_time (e x Now))) (rec_status (view t))"
  show ?thesis
  proof (cases q)
    case Nil
    have "rr_notifications (rec_status (view t)) = []"
      using Nil by (cases ob rule: observation_cases)
        (simp_all add: q_def queue_from_def stored_status_def queue_at_def notify_firing_def notify_resolved_def
          observe_fields Let_def split: if_splits)
    then show ?thesis using Nil q_def by (intro exI [of _ x] exI [of _ "[]"]) simp
  next
    case (Cons n rest)
    have q: "queue_from ob (truncate_second (as_time (e x Now))) (rec_status (view t)) = n # rest"
      using Cons by (simp only: q_def)
    have ok: "times_ok n" "list_all times_ok rest" using times [of x] unfolding q by simp_all
    obtain u req s where u: "run_state (runAlert_Reconcile k L T W e ns ns name) t = ((requeue_now, None), t @ u)"
      "requests u = [req]" "delivers config (view t) req n"
      "content (view (t @ u)) = content ((view t)\<lparr>rec_status := after_delivery (stored_status
          (next_status ob (truncate_second (as_time (e x Now))) (rec_status (view t)))) n s\<rparr>)"
      using x [OF q ok(1)] by blast
    note after = after_pass [OF hub(2) inv u(4) q]
    obtain v where v: "run_state (repeat_io (length rest) (runAlert_Reconcile k L T W e ns ns name)) (t @ u)
        = (replicate (length rest) (requeue_now, None), (t @ u) @ v)"
      "list_all2 (delivers config (view (t @ u))) (requests v) rest"
      "rr_notifications (rec_status (view ((t @ u) @ v))) = []"
      using passes_run [OF hub(1) after(1,2) owner after(3,4) ok(2)] by blast
    have "run_state (repeat_io (length (n # rest)) (runAlert_Reconcile k L T W e ns ns name)) t
        = (replicate (length (n # rest)) (requeue_now, None), t @ u @ v)"
      "list_all2 (delivers config (view t)) (requests (u @ v)) (n # rest)"
      "rr_notifications (rec_status (view (t @ u @ v))) = []"
      using u(1-3) v delivers_cong [OF after(5)] by simp_all
    then show ?thesis using q by metis
  qed
qed

end

section \<open>The whole queue is delivered\<close>

definition sample_record :: telcoHealthCheckRun where
  "sample_record = (pending_record ''ns'' ''run'' ''run'' ''spoke'' sample_thc)\<lparr>rec_status := sample_firing\<rparr>"

interpretation delivered: live_record "record_server sample_record rest" "''ns''" "''run''" "server_view sample_record"
  for rest
  unfolding live_record_def
  by (rule record_server_quiet)
    (simp_all add: TriggerTypeAlert_def sample_record_def sample_firing_def is_at_def stored_status_iff stored_notification_def schema_ok_def action_ok_def trigger_type_ok_def
      pending_record_def pending_status_def zero_runStatus_def queue_at_def notify_firing_def observe_def Let_def)

text \<open>
  C8. The queue is delivered completely and in order: for a record in a reachable state, on a hub
  that does its work, with an Alertmanager that is configured, authorized and answers, and an AgenticRun
  that does not change for the time being (or is gone), and with times in the queue that JSON can express, let \<open>q\<close> be the queue once the record is synchronised with the run, which may
  append a notification. Then as many passes as \<open>q\<close> has notifications end without error and ask for the next
  one at once, post exactly one request per notification, in the order of \<open>q\<close>, and leave the queue empty.
\<close>

theorem queue_drains:
  assumes "live_record e ns name view" "reachable (rec_status (view t))"
    and "alertmanager_up W e ns config" "run_steady L T e (view t) ob"
    and "\<And>t. e t (Get Live ThcKind '''' TelcoHealthcheckCanonicalName) = RObj (KTHC owner)"
      "sp_alertManager (thc_spec owner) = Some config"
    and "\<And>x. list_all times_ok (queue_from ob (truncate_second (as_time (e x Now))) (rec_status (view t)))"
  shows "\<exists>x q u. q = queue_from ob (truncate_second (as_time (e x Now))) (rec_status (view t))
    \<and> run_state (repeat_io (length q) (runAlert_Reconcile k L T W e ns ns name)) t
      = (replicate (length q) (requeue_now, None), t @ u)
    \<and> list_all2 (delivers config (view t)) (requests u) q
    \<and> rr_notifications (rec_status (view (t @ u))) = []"
  by (rule live_record.drain_run [OF assms(1,3-6) queue_inv.reachable_inv [OF assms(2)] assms(7)])

definition sample_alertmanager :: alertManagerSpec where
  "sample_alertmanager = \<lparr>am_url = ''https://am'', am_authType = [], am_credentialsSecret = None\<rparr>"

definition sample_owner :: telcoHealthcheck where
  "sample_owner = sample_thc\<lparr>thc_spec := (thc_spec sample_thc)\<lparr>sp_alertManager := Some sample_alertmanager\<rparr>\<rparr>"

definition sample_weblib :: weblib where
  "sample_weblib = \<lparr>url_parse = \<lambda>u. Some \<lparr>url_scheme = ''https'', url_host = ''am'', url_user = False,
     url_rawQuery = [], url_fragment = [], url_opaque = []\<rparr>, is_dns1123_subdomain = \<lambda>h. True\<rparr>"

text \<open>The run came to an end, so the synchronisation resolves the alert that is still to be delivered.\<close>

definition ended_run :: unstr where
  "ended_run = object_meta.extend
     ((empty_meta AgenticNamespace ''run'')\<lparr>om_labels := [ManagedByLabel \<mapsto> ManagedByValue]\<rparr>)
     (unstr.fields ''AgenticRun'' [''spec'' \<mapsto> UMap [''targetCluster'' \<mapsto> UStr ''spoke''],
        ''status'' \<mapsto> UMap [''conditions'' \<mapsto> USlice [UMap [''type'' \<mapsto> UStr ''Completed'', ''reason'' \<mapsto> UStr ''Done'',
          ''lastTransitionTime'' \<mapsto> UStr ''noon'']]]])"

definition noon_only :: "string \<Rightarrow> instant option" where
  "noon_only s = (if s = ''noon'' then Some 0 else None)"

definition delivering_hub :: env where
  "delivering_hub = record_server sample_record (\<lambda>t cl. case cl of
       Get s k ns n \<Rightarrow> if k = ThcKind then RObj (KTHC sample_owner) else RObj (KUnstr ended_run)
     | HttpDo req \<Rightarrow> RHttp 200
     | Now \<Rightarrow> RTime (2 * minute)
     | _ \<Rightarrow> ROk)"

lemma delivering_hub_simps:
  "delivering_hub t (Get s ThcKind ns n) = RObj (KTHC sample_owner)"
  "delivering_hub t (Get s AgenticRunKind ns n) = RObj (KUnstr ended_run)"
  "delivering_hub t (HttpDo req) = RHttp 200" "delivering_hub t Now = RTime (2 * minute)"
  by (simp_all add: delivering_hub_def record_server_def)

lemma ended_run_steady:
  "run_steady tree_ulib noon_only delivering_hub sample_record (Some (''Completed'', ''Done'', '''', ''''))"
proof -
  have fields: "om_name ended_run = ''run''" "om_labels ended_run = [ManagedByLabel \<mapsto> ManagedByValue]"
    "u_fields ended_run = [''spec'' \<mapsto> UMap [''targetCluster'' \<mapsto> UStr ''spoke''],
        ''status'' \<mapsto> UMap [''conditions'' \<mapsto> USlice [UMap [''type'' \<mapsto> UStr ''Completed'', ''reason'' \<mapsto> UStr ''Done'',
          ''lastTransitionTime'' \<mapsto> UStr ''noon'']]]]"
    by (simp_all add: ended_run_def unstr.defs object_meta.defs empty_meta_def)
  have maps: "om_labels sample_record = [ManagedByLabel \<mapsto> ManagedByValue, RunKeyLabel \<mapsto> Key ''spoke'' ''run'']"
    "om_annotations sample_record = [PendingAnnotation \<mapsto> ''true'', HubOriginAnnotation \<mapsto> ''true'']"
    by (simp_all add: sample_record_def pending_record_def)
  have labels: "sget (om_labels sample_record) RunKeyLabel = Key ''spoke'' ''run''"
    "sget (om_annotations sample_record) HubOriginAnnotation = ''true''"
    unfolding maps by simp_all
  have stored: "rr_agenticRunName (rec_status sample_record) = ''run''" "rr_clusterName (rec_status sample_record) = ''spoke''"
    by (simp_all add: sample_record_def sample_firing_def queue_at_def notify_firing_def observe_def Let_def
        pending_status_def zero_runStatus_def)
  have "run_matches tree_ulib ended_run sample_record" "syncable sample_record"
    by (simp_all add: run_matches_def syncable_def fields stored labels tree_ulib_def tree_string_def)
  moreover have "latestCondition tree_ulib noon_only ended_run = (''Completed'', ''Done'')"
    by (simp add: latestCondition_def fields tree_ulib_def tree_slice_def condition_step_def noon_only_def zero_time_def)
  moreover have "fst (run_state (latest_result tree_ulib delivering_hub ended_run) t) = Inr ('''', '''')" for t
    by (simp add: latest_result_def fields tree_ulib_def tree_slice_def)
  ultimately show ?thesis
    by (simp add: run_read_def delivering_hub_simps fields stored)
qed

lemma ended_queue:
  "queue_from (Some (''Completed'', ''Done'', '''', '''')) (2 * minute) (rec_status sample_record) =
     [\<lparr>an_firing = True, an_startsAt = second, an_endsAt = None, an_summary = ''link down''\<rparr>,
      \<lparr>an_firing = False, an_startsAt = second, an_endsAt = Some (2 * minute), an_summary = ''link down''\<rparr>]"
  by (simp add: queue_from_def sample_record_def sample_firing_def stored_status_def stored_notification_def queue_at_def
      notify_firing_def notify_resolved_def status_summary_def observe_def Let_def pending_status_def zero_runStatus_def
      truncate_second_def)

theorem queue_drains_witness:
  "\<exists>u. run_state (repeat_io 2 (runAlert_Reconcile 4 tree_ulib noon_only sample_weblib delivering_hub ''ns'' ''ns'' ''run'')) []
      = ([(requeue_now, None), (requeue_now, None)], u)
    \<and> length (requests u) = 2 \<and> rr_notifications (rec_status (server_view sample_record u)) = []"
proof -
  have view: "server_view sample_record [] = sample_record" by (simp add: server_view_def)
  have clock: "truncate_second (as_time (delivering_hub t Now)) = 2 * minute" for t
    by (simp add: delivering_hub_simps truncate_second_def)
  have hub: "live_record delivering_hub ''ns'' ''run'' (server_view sample_record)"
    unfolding delivering_hub_def by (rule delivered.live_record_axioms)
  have reach: "reachable (rec_status (server_view sample_record []))"
    unfolding view using sample_firing_reachable by (simp add: sample_record_def)
  have up: "alertmanager_up sample_weblib delivering_hub ''ns'' sample_alertmanager"
    by (simp add: alertmanager_up_def sample_weblib_def valid_base_url_def sample_alertmanager_def authorize_def
        AlertManagerAuthNone_def delivering_hub_simps marshalable_def alertLifetime_def)
  have steady: "run_steady tree_ulib noon_only delivering_hub (server_view sample_record [])
      (Some (''Completed'', ''Done'', '''', ''''))"
    unfolding view by (rule ended_run_steady)
  have times: "list_all times_ok (queue_from (Some (''Completed'', ''Done'', '''', ''''))
      (truncate_second (as_time (delivering_hub x Now))) (rec_status (server_view sample_record [])))" for x
    unfolding clock view ended_queue by (simp add: times_ok_def marshalable_def)
  obtain u where "run_state (repeat_io (length (queue_from (Some (''Completed'', ''Done'', '''', '''')) (2 * minute)
        (rec_status sample_record))) (runAlert_Reconcile 4 tree_ulib noon_only sample_weblib delivering_hub ''ns'' ''ns'' ''run'')) []
      = (replicate (length (queue_from (Some (''Completed'', ''Done'', '''', '''')) (2 * minute) (rec_status sample_record)))
          (requeue_now, None), [] @ u)"
    "list_all2 (delivers sample_alertmanager (server_view sample_record [])) (requests u)
      (queue_from (Some (''Completed'', ''Done'', '''', '''')) (2 * minute) (rec_status sample_record))"
    "rr_notifications (rec_status (server_view sample_record ([] @ u))) = []"
    using queue_drains [OF hub reach up steady _ _ times, of sample_owner 4]
    unfolding clock view by (auto simp: delivering_hub_simps sample_owner_def)
  then show ?thesis
    unfolding ended_queue by (auto simp: numeral_2_eq_2 dest: list_all2_lengthD)
qed

end
