(* ===== verification/Backlog.thy ===== *)
theory Backlog
  imports Queue_Delivery
begin

text \<open>
  The reconciler of the records may ask for another pass at once (\<open>ctrl.Result{Requeue: true}\<close> in
  \<open>runalerts.go\<close>). This theory has the measure that such passes use up: an immediate request
  always follows an accepted write that made the backlog smaller, so a chain of immediate passes
  ends unless someone else writes the record in between.
\<close>

section \<open>The backlog of a status\<close>

definition backlog :: "telcoHealthCheckRunStatus \<Rightarrow> nat" where
  "backlog st = length (rr_notifications st)
     + (if rr_actionRequired st = ''True'' \<and> rr_alertStartsAt st = None then 2 else 0)"

lemma backlog_stored [simp]: "backlog (stored_status st) = backlog st"
  by (simp add: backlog_def stored_status_def)

lemma backlog_started:
  "rr_actionRequired st = ''True'' \<Longrightarrow> rr_alertStartsAt st = None \<Longrightarrow> backlog (started t st) < backlog st"
  by (simp add: backlog_def started_def)

lemma backlog_popped:
  "rr_notifications st = n # ns \<Longrightarrow> backlog (popped st) < backlog st"
  "rr_notifications st = n # ns \<Longrightarrow> backlog (renewed t (popped st)) < backlog st"
  by (simp_all add: backlog_def popped_def renewed_def)

section \<open>An immediate pass makes progress\<close>

text \<open>
  \<open>progress record x u\<close>: if the result \<open>x\<close> asks for an immediate pass, the calls \<open>u\<close> end with an
  accepted write of \<open>record\<close> that leaves a smaller backlog.
\<close>

definition progress :: "telcoHealthCheckRun \<Rightarrow> ctrl_result \<times> gerr option \<Rightarrow> trace \<Rightarrow> bool" where
  "progress record x u \<longleftrightarrow> (if res_requeue (fst x) then snd x = None \<and>
     (\<exists>v st a. u = v @ [(StatusPatch (KRecord record) (KRecord (record\<lparr>rec_status := st\<rparr>)), a)]
        \<and> ack a = None \<and> backlog st < backlog (rec_status record)) else True)"

lemma progress_idle: "\<not> res_requeue (fst x) \<Longrightarrow> progress record x u"
  by (simp add: progress_def)

lemma progress_prepend: "progress record x u \<Longrightarrow> progress record x (v @ u)"
  unfolding progress_def by (auto split: if_splits)

text \<open>Progress on some record.\<close>

definition some_progress :: "ctrl_result \<times> gerr option \<Rightarrow> trace \<Rightarrow> bool" where
  "some_progress x u \<longleftrightarrow> (\<exists>r. progress r x u)"

lemma some_progressI: "\<not> res_requeue (fst x) \<Longrightarrow> some_progress x u" "progress r x u \<Longrightarrow> some_progress x (v @ u)"
  unfolding some_progress_def by (blast intro: progress_idle progress_prepend)+

lemma no_requeue [simp]:
  "\<not> res_requeue no_result" "\<not> res_requeue (requeue_after d)" "res_requeue requeue_now"
  by (simp_all add: no_result_def requeue_after_def requeue_now_def)

lemma patch_progress:
  assumes "backlog st < backlog (rec_status record)"
  shows "spec (do { er \<leftarrow> patch_status e record st; ret (with_result requeue_now er) }) (progress record)"
  unfolding patch_status_def
  by (intro io_spec) (use assms in \<open>auto simp: progress_def with_result_def split: option.splits simp del: ack_def\<close>)

lemma start_firing_progress:
  assumes "rr_actionRequired (rec_status record) = ''True''" "rr_alertStartsAt (rec_status record) = None"
  shows "spec (start_firing e record) (progress record)"
  unfolding start_firing_def
  by (rule spec_bind, rule spec_now, rule spec_conseq [OF patch_progress [OF backlog_started [OF assms]] progress_prepend])

lemma deliver_next_progress:
  assumes "rr_notifications (rec_status record) = event # rest"
  shows "spec (deliver_next L W e ns config record event) (progress record)"
proof -
  note small = backlog_popped [OF assms]
  have stores: "spec (do { er \<leftarrow> patch_status e record st; ret (with_result requeue_now er) })
      (\<lambda>x v. progress record x (u @ v))" if "backlog st < backlog (rec_status record)" for st u
    by (rule spec_conseq [OF patch_progress [OF that] progress_prepend])
  have tail: "spec (do {
        st \<leftarrow> (if b then do { t \<leftarrow> now e; ret (renewed t (popped (rec_status record))) }
               else ret (popped (rec_status record)));
        er \<leftarrow> patch_status e record st;
        ret (with_result requeue_now er) }) (\<lambda>x v. progress record x (u @ v))" for b u
  proof (rule spec_bind, rule spec_if)
    show "spec (do { t \<leftarrow> now e; ret (renewed t (popped (rec_status record))) })
        (\<lambda>st w. spec (do { er \<leftarrow> patch_status e record st; ret (with_result requeue_now er) })
           (\<lambda>x v. progress record x (u @ w @ v)))"
      by (rule spec_bind, rule spec_now, rule spec_ret, rule spec_conseq [OF patch_progress [OF small(2)]])
        (simp only: append_assoc, rule progress_prepend, rule progress_prepend, rule progress_prepend, assumption)
    show "spec (ret (popped (rec_status record)))
        (\<lambda>st w. spec (do { er \<leftarrow> patch_status e record st; ret (with_result requeue_now er) })
           (\<lambda>x v. progress record x (u @ w @ v)))"
      using stores [OF small(1), of u] by (intro spec_ret) simp
  qed
  show ?thesis
    unfolding deliver_next_def
    by (rule spec_bind, rule spec_conseq [OF send_any], rule spec_option, rule tail, rule spec_ret)
      (simp add: progress_idle)
qed

lemma deliver_progress: "spec (deliver L W e ns config record) (progress record)"
proof -
  have resend: "spec (resend L W e ns config record s) (progress record)" for s
    unfolding resend_def patch_status_def
    by (intro io_spec spec_conseq [OF send_any]) (auto intro!: progress_idle simp: with_result_def split: option.splits)
  have "spec (refresh L W e ns config record) (progress record)"
    unfolding refresh_def Let_def
    by (intro spec_option spec_if spec_ret spec_bind spec_now resend spec_conseq [OF resend progress_prepend])
      (auto intro: progress_idle)
  then show ?thesis
    unfolding deliver_def
    by (intro spec_if spec_list) (auto intro: start_firing_progress deliver_next_progress)
qed

lemma deliver_pass_progress: "spec (deliver_pass L W e ns record) (progress record)"
proof -
  have "spec (stop_delivery e record) (progress record)"
    unfolding stop_delivery_def Let_def patch_status_def by (intro io_spec) (auto intro: progress_idle)
  then show ?thesis
    unfolding deliver_pass_def
    by (intro spec_bind spec_api_get spec_sum spec_option spec_ret spec_conseq [OF deliver_progress progress_prepend]
        spec_conseq [OF _ progress_prepend]) (auto intro: progress_idle simp: not_found_result_def)
qed

section \<open>Chains of immediate passes end\<close>

text \<open>
  The calls \<open>u\<close> end with an accepted status write that takes a record from \<open>st\<close> to what the API
  server stores for it, \<open>st'\<close>.
\<close>

definition stored_write :: "trace \<Rightarrow> telcoHealthCheckRunStatus \<Rightarrow> telcoHealthCheckRunStatus \<Rightarrow> bool" where
  "stored_write u st st' \<longleftrightarrow> (\<exists>v record s a.
     u = v @ [(StatusPatch (KRecord record) (KRecord (record\<lparr>rec_status := s\<rparr>)), a)]
     \<and> ack a = None \<and> rec_status record = st \<and> stored_status s = st')"

definition immediate_pass ::
  "nat \<Rightarrow> ulib \<Rightarrow> (string \<Rightarrow> instant option) \<Rightarrow> weblib \<Rightarrow> env \<Rightarrow> string \<Rightarrow> string
   \<Rightarrow> telcoHealthCheckRunStatus \<Rightarrow> telcoHealthCheckRunStatus \<Rightarrow> bool" where
  "immediate_pass k L T W e ns name st st' \<longleftrightarrow> (\<exists>t u x.
     run_state (runAlert_Reconcile k L T W e ns ns name) t = (x, t @ u) \<and> res_requeue (fst x) \<and> stored_write u st st')"

lemma Reconcile_progress:
  "spec (runAlert_Reconcile k L T W e ns reqNs reqName) (\<lambda>x u. some_progress x u)"
proof -
  note idle = some_progressI(1) and later = some_progressI(2)
  have rest: "spec (do {
      g2 \<leftarrow> api_get as_record e Live RecordKind reqNs reqName;
      (case g2 of
         Inl er \<Rightarrow> ret (not_found_result er)
       | Inr r \<Rightarrow>
           if syncErr \<noteq> None \<and> rr_notifications (rec_status r) = [] then ret (no_result, syncErr)
           else deliver_pass L W e ns r) }) (\<lambda>x u. some_progress x (v @ u))" for syncErr v
    by (rule spec_bind, rule spec_api_get, rule spec_sum, rule spec_ret, rule idle, simp add: not_found_result_def,
        rule spec_if, rule spec_ret, rule idle, simp, rule spec_conseq [OF deliver_pass_progress],
        subst append_assoc [symmetric], rule later)
  show ?thesis
    unfolding runAlert_Reconcile_def
    by (rule spec_if, rule spec_ret, rule idle, simp, rule spec_bind, rule spec_api_get, rule spec_sum, rule spec_ret,
        rule idle, simp add: not_found_result_def, rule spec_bind, rule spec_conseq [OF syncHubRunStatus_spec],
        simp only: append_assoc [symmetric], rule rest)
qed

lemma stored_write_smaller:
  assumes "progress r x u" "res_requeue (fst x)"
  shows "\<exists>st st'. stored_write u st st' \<and> backlog st' < backlog st"
    and "stored_write u st st' \<Longrightarrow> backlog st' < backlog st"
proof -
  obtain v s a where u: "u = v @ [(StatusPatch (KRecord r) (KRecord (r\<lparr>rec_status := s\<rparr>)), a)]"
    "ack a = None" "backlog s < backlog (rec_status r)"
    using assms by (auto simp: progress_def)
  then show "backlog st' < backlog st" if "stored_write u st st'"
    using that by (auto simp: stored_write_def dest: arg_cong [of _ _ rec_status])
  have "stored_write u (rec_status r) (stored_status s)" unfolding stored_write_def using u by blast
  then show "\<exists>st st'. stored_write u st st' \<and> backlog st' < backlog st" using u(3) by force
qed

lemma immediate_smaller: "immediate_pass k L T W e ns name st st' \<Longrightarrow> backlog st' < backlog st"
proof -
  assume "immediate_pass k L T W e ns name st st'"
  then obtain t0 u x where run: "run_state (runAlert_Reconcile k L T W e ns ns name) t0 = (x, t0 @ u)"
    "res_requeue (fst x)" "stored_write u st st'"
    unfolding immediate_pass_def by blast
  obtain r where "progress r x u"
    by (rule specD [OF Reconcile_progress [of k L T W e ns ns name], of t0]) (use run(1) in \<open>auto simp: some_progress_def\<close>)
  with run show ?thesis by (blast dest: stored_write_smaller(2))
qed

text \<open>A chain is no longer than the backlog it starts with.\<close>

lemma immediate_chain_bound:
  "(immediate_pass k L T W e ns name ^^ n) st st' \<Longrightarrow> n + backlog st' \<le> backlog st"
proof (induction n arbitrary: st')
  case (Suc n)
  then obtain b where "(immediate_pass k L T W e ns name ^^ n) st b" "immediate_pass k L T W e ns name b st'" by auto
  with Suc.IH [of b] immediate_smaller [of k L T W e ns name b st'] show ?case by simp
qed simp

text \<open>
  C9. Immediate passes come to an end: a pass of the record reconciler that asks to be run again at
  once has just stored a status, and there is no infinite chain of statuses each taken to the next
  by such a pass. So the queue of requests never spins on a record that nobody else changes.
\<close>

theorem immediate_passes_end:
  "(case run_state (runAlert_Reconcile k L T W e ns ns name) t of (x, t') \<Rightarrow>
      if res_requeue (fst x) then \<exists>u st st'. t' = t @ u \<and> stored_write u st st' \<and> backlog st' < backlog st else True)
   \<and> wfp (\<lambda>st' st. immediate_pass k L T W e ns name st st')"
proof
  show "case run_state (runAlert_Reconcile k L T W e ns ns name) t of (x, t') \<Rightarrow>
      if res_requeue (fst x) then \<exists>u st st'. t' = t @ u \<and> stored_write u st st' \<and> backlog st' < backlog st else True"
    by (rule specD [OF Reconcile_progress [of k L T W e ns ns name], of t])
      (auto simp: split_beta some_progress_def dest: stored_write_smaller(1))
  show "wfp (\<lambda>st' st. immediate_pass k L T W e ns name st st')"
    by (intro wfp_if_convertible_to_nat [of _ backlog] immediate_smaller)
qed

end
