(* ===== verification/System_Assets.thy ===== *)
theory System_Assets
  imports Alert_Rules
begin

text \<open>
  The ConfigMaps that the operator ships as embedded assets: the system alerts
  (\<open>internal/controller/systemalerts.go\<close>) and the periodic checks (\<open>periodicchecks.go\<close>). Both files
  create or update the ConfigMap of an enabled asset and delete that of a disabled one; what they
  share is the locale \<open>asset_sync\<close>. The decoder of the embedded text is the parameter \<open>D\<close>, a
  function of the asset's path.
\<close>

record 's asset =
  as_yaml :: string
  as_enabled :: "'s \<Rightarrow> bool"

type_synonym decoder = "string \<Rightarrow> gerr + configMap"

definition systemAlertAssets :: "alertsSpec asset list" where
  "systemAlertAssets =
     [\<lparr>as_yaml = ''assets/alert-host-network.yaml'', as_enabled = al_hostNetwork\<rparr>,
      \<lparr>as_yaml = ''assets/alert-pod-network.yaml'', as_enabled = al_podNetwork\<rparr>,
      \<lparr>as_yaml = ''assets/alert-host-reserved-cpu.yaml'', as_enabled = al_hostReservedCPU\<rparr>,
      \<lparr>as_yaml = ''assets/alert-ovs-process-cpu.yaml'', as_enabled = al_ovsProcessCPU\<rparr>]"

definition systemPeriodicAssets :: "periodicHealthChecksSpec asset list" where
  "systemPeriodicAssets =
     [\<lparr>as_yaml = ''assets/periodic-rds-compliance.yaml'', as_enabled = (\<lambda>p. rds_enabled (ph_rdsCompliance p))\<rparr>,
      \<lparr>as_yaml = ''assets/periodic-low-latency-check.yaml'', as_enabled = (\<lambda>p. ll_enabled (ph_lowLatencyCheck p))\<rparr>]"

definition decodeSystemAlertCM :: "decoder \<Rightarrow> string \<Rightarrow> gerr + configMap" where
  "decodeSystemAlertCM D data = (case D data of
     Inl er \<Rightarrow> Inl (Wrap ''decoding system alert asset'' er) | Inr cm \<Rightarrow> Inr cm)"

definition decodeSystemPeriodicCM :: "decoder \<Rightarrow> string \<Rightarrow> gerr + configMap" where
  "decodeSystemPeriodicCM D data = (case D data of
     Inl er \<Rightarrow> Inl (Wrap ''decoding system periodic asset'' er) | Inr cm \<Rightarrow> Inr cm)"

section \<open>One asset\<close>

text \<open>The bodies of the loops; \<open>what\<close> is the phrase of the error messages.\<close>

definition ensure_asset :: "string \<Rightarrow> env \<Rightarrow> configMap \<Rightarrow> gerr option io" where
  "ensure_asset what e cm = do {
     g \<leftarrow> api_get as_configMap e Cached ConfigMapKind (om_namespace cm) (om_name cm);
     (case g of
        Inl er \<Rightarrow>
          if isNotFound er then do {
            r \<leftarrow> api_do e (Create (KConfigMap cm));
            ret (map_option (Wrap (''creating '' @ what @ om_name cm)) r) }
          else ret (Some (Wrap (''getting '' @ what @ om_name cm) er))
      | Inr existing \<Rightarrow> do {
          r \<leftarrow> api_do e (Update (KConfigMap (existing\<lparr>cm_data := cm_data cm, om_labels := om_labels cm\<rparr>)));
          ret (map_option (Wrap (''updating '' @ what @ om_name cm)) r) }) }"

definition delete_asset :: "string \<Rightarrow> string \<Rightarrow> env \<Rightarrow> configMap \<Rightarrow> gerr option io" where
  "delete_asset what suffix e cm = do {
     g \<leftarrow> api_get as_configMap e Cached ConfigMapKind (om_namespace cm) (om_name cm);
     (case g of
        Inl er \<Rightarrow> ret (if isNotFound er then None
                  else Some (Wrap (''getting '' @ what @ om_name cm @ suffix) er))
      | Inr existing \<Rightarrow> do {
          r \<leftarrow> api_do e (Delete (KConfigMap existing));
          ret (case r of None \<Rightarrow> None
               | Some er \<Rightarrow> if isNotFound er then None
                            else Some (Wrap (''deleting '' @ what @ om_name cm) er)) }) }"

section \<open>The loops\<close>

abbreviation (input) "system_alert_cm \<equiv> ''system alert ConfigMap ''"
abbreviation (input) "system_periodic_cm \<equiv> ''system periodic ConfigMap ''"

fun reconcileSystemAlerts_loop ::
  "decoder \<Rightarrow> env \<Rightarrow> string \<Rightarrow> alertsSpec \<Rightarrow> alertsSpec asset list \<Rightarrow> gerr option io" where
  "reconcileSystemAlerts_loop D e ns alerts [] = ret None"
| "reconcileSystemAlerts_loop D e ns alerts (asset # assets) =
     (case decodeSystemAlertCM D (as_yaml asset) of
        Inl er \<Rightarrow> ret (Some er)
      | Inr cm \<Rightarrow> do {
          let cm = cm\<lparr>om_namespace := ns\<rparr>;
          r \<leftarrow> (if as_enabled asset alerts then ensure_asset system_alert_cm e cm
                else delete_asset system_alert_cm '''' e cm);
          (case r of Some er \<Rightarrow> ret (Some er)
           | None \<Rightarrow> reconcileSystemAlerts_loop D e ns alerts assets) })"

definition reconcileSystemAlertConfigMaps :: "decoder \<Rightarrow> env \<Rightarrow> string \<Rightarrow> alertsSpec \<Rightarrow> gerr option io" where
  "reconcileSystemAlertConfigMaps D e ns alerts = reconcileSystemAlerts_loop D e ns alerts systemAlertAssets"

fun cleanupSystemAlerts_loop :: "decoder \<Rightarrow> env \<Rightarrow> string \<Rightarrow> alertsSpec asset list \<Rightarrow> gerr option io" where
  "cleanupSystemAlerts_loop D e ns [] = ret None"
| "cleanupSystemAlerts_loop D e ns (asset # assets) =
     (case decodeSystemAlertCM D (as_yaml asset) of
        Inl er \<Rightarrow> ret (Some er)
      | Inr cm \<Rightarrow> do {
          let cm = cm\<lparr>om_namespace := ns\<rparr>;
          r \<leftarrow> delete_asset system_alert_cm '' for cleanup'' e cm;
          (case r of Some er \<Rightarrow> ret (Some er) | None \<Rightarrow> cleanupSystemAlerts_loop D e ns assets) })"

definition cleanupSystemAlertConfigMaps :: "decoder \<Rightarrow> env \<Rightarrow> string \<Rightarrow> gerr option io" where
  "cleanupSystemAlertConfigMaps D e ns = cleanupSystemAlerts_loop D e ns systemAlertAssets"

fun reconcileSystemPeriodic_loop ::
  "decoder \<Rightarrow> env \<Rightarrow> string \<Rightarrow> periodicHealthChecksSpec \<Rightarrow> periodicHealthChecksSpec asset list
   \<Rightarrow> gerr option io" where
  "reconcileSystemPeriodic_loop D e ns periodic [] = ret None"
| "reconcileSystemPeriodic_loop D e ns periodic (asset # assets) =
     (case decodeSystemPeriodicCM D (as_yaml asset) of
        Inl er \<Rightarrow> ret (Some er)
      | Inr cm \<Rightarrow> do {
          let cm = cm\<lparr>om_namespace := ns\<rparr>;
          r \<leftarrow> (if as_enabled asset periodic then ensure_asset system_periodic_cm e cm
                else delete_asset system_periodic_cm '''' e cm);
          (case r of Some er \<Rightarrow> ret (Some er)
           | None \<Rightarrow> reconcileSystemPeriodic_loop D e ns periodic assets) })"

definition reconcileSystemPeriodicConfigMaps ::
  "decoder \<Rightarrow> env \<Rightarrow> string \<Rightarrow> periodicHealthChecksSpec \<Rightarrow> gerr option io" where
  "reconcileSystemPeriodicConfigMaps D e ns periodic =
     reconcileSystemPeriodic_loop D e ns periodic systemPeriodicAssets"

fun cleanupSystemPeriodic_loop ::
  "decoder \<Rightarrow> env \<Rightarrow> string \<Rightarrow> periodicHealthChecksSpec asset list \<Rightarrow> gerr option io" where
  "cleanupSystemPeriodic_loop D e ns [] = ret None"
| "cleanupSystemPeriodic_loop D e ns (asset # assets) =
     (case decodeSystemPeriodicCM D (as_yaml asset) of
        Inl er \<Rightarrow> ret (Some er)
      | Inr cm \<Rightarrow> do {
          let cm = cm\<lparr>om_namespace := ns\<rparr>;
          r \<leftarrow> delete_asset system_periodic_cm '' for cleanup'' e cm;
          (case r of Some er \<Rightarrow> ret (Some er) | None \<Rightarrow> cleanupSystemPeriodic_loop D e ns assets) })"

definition cleanupSystemPeriodicConfigMaps :: "decoder \<Rightarrow> env \<Rightarrow> string \<Rightarrow> gerr option io" where
  "cleanupSystemPeriodicConfigMaps D e ns = cleanupSystemPeriodic_loop D e ns systemPeriodicAssets"

lemmas [io_run] = ensure_asset_def delete_asset_def reconcileSystemAlertConfigMaps_def
  cleanupSystemAlertConfigMaps_def reconcileSystemPeriodicConfigMaps_def
  cleanupSystemPeriodicConfigMaps_def

section \<open>What a synchronisation promises\<close>

definition cm_read :: "configMap \<Rightarrow> call" where
  "cm_read cm = Get Cached ConfigMapKind (om_namespace cm) (om_name cm)"

text \<open>The ConfigMap was created as shipped, or an existing one got the shipped data and labels.\<close>

definition asset_present :: "configMap \<Rightarrow> trace \<Rightarrow> bool" where
  "asset_present cm u \<longleftrightarrow>
     (\<exists>a. (Create (KConfigMap cm), a) \<in> set u \<and> ack a = None)
   \<or> (\<exists>old a. (cm_read cm, RObj (KConfigMap old)) \<in> set u
        \<and> (Update (KConfigMap (old\<lparr>cm_data := cm_data cm, om_labels := om_labels cm\<rparr>)), a) \<in> set u \<and> ack a = None)"

text \<open>The API server said that the ConfigMap does not exist, or accepted its deletion.\<close>

definition asset_absent :: "configMap \<Rightarrow> trace \<Rightarrow> bool" where
  "asset_absent cm u \<longleftrightarrow>
     (\<exists>r er. (cm_read cm, r) \<in> set u \<and> as_configMap r = Inl er \<and> isNotFound er)
   \<or> (\<exists>old a. (cm_read cm, RObj (KConfigMap old)) \<in> set u \<and> (Delete (KConfigMap old), a) \<in> set u
        \<and> (case ack a of None \<Rightarrow> True | Some er \<Rightarrow> isNotFound er))"

definition asset_settled :: "bool \<Rightarrow> configMap \<Rightarrow> trace \<Rightarrow> bool" where
  "asset_settled on cm u \<longleftrightarrow> (if on then asset_present cm u else asset_absent cm u)"

lemma asset_settled_append:
  "asset_settled on cm u \<Longrightarrow> asset_settled on cm (u @ v)"
  "asset_settled on cm v \<Longrightarrow> asset_settled on cm (u @ v)"
  unfolding asset_settled_def asset_present_def asset_absent_def by (auto split: if_splits; blast)+

text \<open>The calls for the asset \<open>cm\<close>: its read, and writes of it or of the object that this read showed.\<close>

definition asset_call :: "bool \<Rightarrow> configMap \<Rightarrow> trace \<Rightarrow> call \<Rightarrow> bool" where
  "asset_call on cm u c \<longleftrightarrow> c = cm_read cm
     \<or> on \<and> c = Create (KConfigMap cm)
     \<or> (\<exists>old. (cm_read cm, RObj (KConfigMap old)) \<in> set u
          \<and> c = (if on then Update (KConfigMap (old\<lparr>cm_data := cm_data cm, om_labels := om_labels cm\<rparr>))
                  else Delete (KConfigMap old)))"

lemma asset_call_mono: "asset_call on cm u c \<Longrightarrow> set u \<subseteq> set v \<Longrightarrow> asset_call on cm v c"
  unfolding asset_call_def by blast

lemma ensure_asset_spec:
  "spec (ensure_asset what e cm)
     (\<lambda>x u. (x = None \<longrightarrow> asset_settled True cm u) \<and> (\<forall>ev \<in> set u. asset_call True cm u (fst ev)))"
  unfolding ensure_asset_def
  by (intro io_spec) (auto simp: asset_settled_def asset_present_def asset_call_def cm_read_def
      as_configMap_Inr simp del: ack_def)

lemma delete_asset_spec:
  "spec (delete_asset what suffix e cm)
     (\<lambda>x u. (x = None \<longrightarrow> asset_settled False cm u) \<and> (\<forall>ev \<in> set u. asset_call False cm u (fst ev)))"
  unfolding delete_asset_def
  by (intro io_spec) (auto simp: asset_settled_def asset_absent_def asset_call_def cm_read_def
      as_configMap_Inr simp del: ack_def split: option.splits)

text \<open>What holds of all assets of a list, for a decoder \<open>dec\<close> and a choice \<open>on\<close> of the enabled ones.\<close>

definition all_settled ::
  "(string \<Rightarrow> gerr + configMap) \<Rightarrow> string \<Rightarrow> ('s asset \<Rightarrow> bool) \<Rightarrow> 's asset list \<Rightarrow> trace \<Rightarrow> bool" where
  "all_settled dec ns on as u \<longleftrightarrow> (\<forall>a \<in> set as. \<exists>cm. dec (as_yaml a) = Inr cm
     \<and> asset_settled (on a) (cm\<lparr>om_namespace := ns\<rparr>) u)"

definition confined ::
  "(string \<Rightarrow> gerr + configMap) \<Rightarrow> string \<Rightarrow> ('s asset \<Rightarrow> bool) \<Rightarrow> 's asset list \<Rightarrow> trace \<Rightarrow> bool" where
  "confined dec ns on as u \<longleftrightarrow> (\<forall>ev \<in> set u. \<exists>a \<in> set as. \<exists>cm. dec (as_yaml a) = Inr cm
     \<and> asset_call (on a) (cm\<lparr>om_namespace := ns\<rparr>) u (fst ev))"

locale asset_sync =
  fixes decode :: "decoder \<Rightarrow> string \<Rightarrow> gerr + configMap"
    and what :: string
    and sync :: "decoder \<Rightarrow> env \<Rightarrow> string \<Rightarrow> 's \<Rightarrow> 's asset list \<Rightarrow> gerr option io"
    and clean :: "decoder \<Rightarrow> env \<Rightarrow> string \<Rightarrow> 's asset list \<Rightarrow> gerr option io"
  assumes sync_Nil: "sync D e ns s [] = ret None"
    and sync_Cons: "sync D e ns s (a # as) =
      (case decode D (as_yaml a) of
         Inl er \<Rightarrow> ret (Some er)
       | Inr cm \<Rightarrow> State_Monad.bind
           (if as_enabled a s then ensure_asset what e (cm\<lparr>om_namespace := ns\<rparr>)
            else delete_asset what '''' e (cm\<lparr>om_namespace := ns\<rparr>))
           (\<lambda>r. case r of Some er \<Rightarrow> ret (Some er) | None \<Rightarrow> sync D e ns s as))"
    and clean_Nil: "clean D e ns [] = ret None"
    and clean_Cons: "clean D e ns (a # as) =
      (case decode D (as_yaml a) of
         Inl er \<Rightarrow> ret (Some er)
       | Inr cm \<Rightarrow> State_Monad.bind (delete_asset what '' for cleanup'' e (cm\<lparr>om_namespace := ns\<rparr>))
           (\<lambda>r. case r of Some er \<Rightarrow> ret (Some er) | None \<Rightarrow> clean D e ns as))"
begin

lemma step_then:
  assumes m: "spec (m :: gerr option io) (\<lambda>x u. (x = None \<longrightarrow> asset_settled (on a) (cm\<lparr>om_namespace := ns\<rparr>) u)
      \<and> (\<forall>ev \<in> set u. asset_call (on a) (cm\<lparr>om_namespace := ns\<rparr>) u (fst ev)))"
    and d: "decode D (as_yaml a) = Inr cm"
    and n: "spec n (\<lambda>x u. (x = None \<longrightarrow> all_settled (decode D) ns on as u) \<and> confined (decode D) ns on as u)"
  shows "spec (State_Monad.bind m (\<lambda>r. case r of Some er \<Rightarrow> ret (Some er) | None \<Rightarrow> n))
    (\<lambda>x u. (x = None \<longrightarrow> all_settled (decode D) ns on (a # as) u) \<and> confined (decode D) ns on (a # as) u)"
proof (rule spec_bind, rule spec_conseq [OF m])
  fix r :: "gerr option" and u :: trace
  assume u: "(r = None \<longrightarrow> asset_settled (on a) (cm\<lparr>om_namespace := ns\<rparr>) u)
    \<and> (\<forall>ev \<in> set u. asset_call (on a) (cm\<lparr>om_namespace := ns\<rparr>) u (fst ev))"
  have n': "spec n (\<lambda>x v. (x = None \<longrightarrow> all_settled (decode D) ns on (a # as) (u @ v)) \<and> confined (decode D) ns on (a # as) (u @ v))"
    if "r = None"
  proof (rule spec_conseq [OF n])
    fix x :: "gerr option" and v :: trace
    assume v: "(x = None \<longrightarrow> all_settled (decode D) ns on as v) \<and> confined (decode D) ns on as v"
    have "all_settled (decode D) ns on (a # as) (u @ v)" if "all_settled (decode D) ns on as v"
      using that u d \<open>r = None\<close> asset_settled_append unfolding all_settled_def by auto
    moreover have "confined (decode D) ns on (a # as) (u @ v)"
      unfolding confined_def
    proof
      fix ev assume "ev \<in> set (u @ v)"
      then consider "ev \<in> set u" | "ev \<in> set v" by auto
      then show "\<exists>b \<in> set (a # as). \<exists>cm. decode D (as_yaml b) = Inr cm
          \<and> asset_call (on b) (cm\<lparr>om_namespace := ns\<rparr>) (u @ v) (fst ev)"
      proof cases
        case 1
        then have "asset_call (on a) (cm\<lparr>om_namespace := ns\<rparr>) (u @ v) (fst ev)"
          using u by (auto intro: asset_call_mono [where u = u])
        then show ?thesis using d by auto
      next
        case 2
        then obtain b cm' where "b \<in> set as" "decode D (as_yaml b) = Inr cm'"
          "asset_call (on b) (cm'\<lparr>om_namespace := ns\<rparr>) v (fst ev)"
          using v unfolding confined_def by blast
        moreover from this(3) have "asset_call (on b) (cm'\<lparr>om_namespace := ns\<rparr>) (u @ v) (fst ev)"
          by (rule asset_call_mono) simp
        ultimately show ?thesis by auto
      qed
    qed
    ultimately show "(x = None \<longrightarrow> all_settled (decode D) ns on (a # as) (u @ v)) \<and> confined (decode D) ns on (a # as) (u @ v)"
      using v by blast
  qed
  show "spec (case r of Some er \<Rightarrow> ret (Some er) | None \<Rightarrow> n)
      (\<lambda>x v. (x = None \<longrightarrow> all_settled (decode D) ns on (a # as) (u @ v)) \<and> confined (decode D) ns on (a # as) (u @ v))"
    using n' u d by (cases r) (auto intro!: spec_ret simp: confined_def)
qed

lemma sync_spec:
  "spec (sync D e ns s as) (\<lambda>x u. (x = None \<longrightarrow> all_settled (decode D) ns (\<lambda>a. as_enabled a s) as u)
     \<and> confined (decode D) ns (\<lambda>a. as_enabled a s) as u)"
proof (induction as)
  case Nil
  show ?case by (simp add: sync_Nil spec_ret all_settled_def confined_def)
next
  case (Cons a as)
  show ?case
  proof (cases "decode D (as_yaml a)")
    case (Inl er)
    then show ?thesis by (simp add: sync_Cons spec_ret confined_def)
  next
    case (Inr cm)
    have "spec (if as_enabled a s then ensure_asset what e (cm\<lparr>om_namespace := ns\<rparr>)
          else delete_asset what '''' e (cm\<lparr>om_namespace := ns\<rparr>))
        (\<lambda>x u. (x = None \<longrightarrow> asset_settled (as_enabled a s) (cm\<lparr>om_namespace := ns\<rparr>) u)
          \<and> (\<forall>ev \<in> set u. asset_call (as_enabled a s) (cm\<lparr>om_namespace := ns\<rparr>) u (fst ev)))"
      using ensure_asset_spec [of what e] delete_asset_spec [of what _ e] by simp
    from step_then [OF this Inr Cons] show ?thesis by (simp add: sync_Cons Inr)
  qed
qed

lemma clean_spec:
  "spec (clean D e ns as) (\<lambda>x u. (x = None \<longrightarrow> all_settled (decode D) ns (\<lambda>a. False) as u)
     \<and> confined (decode D) ns (\<lambda>a. False) as u)"
proof (induction as)
  case Nil
  show ?case by (simp add: clean_Nil spec_ret all_settled_def confined_def)
next
  case (Cons a as)
  show ?case
  proof (cases "decode D (as_yaml a)")
    case (Inl er)
    then show ?thesis by (simp add: clean_Cons spec_ret confined_def)
  next
    case (Inr cm)
    from step_then [where on = "\<lambda>a. False", OF delete_asset_spec Inr Cons]
    show ?thesis by (simp add: clean_Cons Inr)
  qed
qed

text \<open>The texts of the errors aside, cleaning up is synchronising with everything disabled.\<close>

lemma delete_asset_suffix:
  "snd (run_state (delete_asset what suffix e cm) t) = snd (run_state (delete_asset what suffix' e cm) t)
   \<and> (fst (run_state (delete_asset what suffix e cm) t) = None
      \<longleftrightarrow> fst (run_state (delete_asset what suffix' e cm) t) = None)"
  by (auto simp: delete_asset_def api_get_def api_do_def split_beta split: sum.splits)

lemma sync_off:
  assumes "\<And>a. a \<in> set as \<Longrightarrow> \<not> as_enabled a s"
  shows "snd (run_state (sync D e ns s as) t) = snd (run_state (clean D e ns as) t)
    \<and> (fst (run_state (sync D e ns s as) t) = None \<longleftrightarrow> fst (run_state (clean D e ns as) t) = None)"
  using assms
proof (induction as arbitrary: t)
  case Nil
  show ?case by (simp add: sync_Nil clean_Nil)
next
  case (Cons a as)
  show ?case
  proof (cases "decode D (as_yaml a)")
    case (Inl er)
    then show ?thesis by (simp add: sync_Cons clean_Cons)
  next
    case (Inr cm)
    let ?d = "\<lambda>x. run_state (delete_asset what x e (cm\<lparr>om_namespace := ns\<rparr>)) t"
    have "snd (?d '''') = snd (?d '' for cleanup'')" "fst (?d '''') = None \<longleftrightarrow> fst (?d '' for cleanup'') = None"
      using delete_asset_suffix by blast+
    with Cons Inr show ?thesis
      by (auto simp: sync_Cons clean_Cons split_beta split: option.splits)
  qed
qed

end

interpretation alerts: asset_sync decodeSystemAlertCM "''system alert ConfigMap ''"
  reconcileSystemAlerts_loop cleanupSystemAlerts_loop
  by unfold_locales (simp_all add: Let_def split: sum.split)

interpretation periodic: asset_sync decodeSystemPeriodicCM "''system periodic ConfigMap ''"
  reconcileSystemPeriodic_loop cleanupSystemPeriodic_loop
  by unfold_locales (simp_all add: Let_def split: sum.split)


text \<open>
  C36. System alerts converge: if reconciling the system alert ConfigMaps reports no error, every
  enabled alert's ConfigMap was created as shipped or got the shipped data and labels, and every
  disabled one's is gone; in any case every call reads one of these ConfigMaps, creates an enabled one
  as shipped, or writes or deletes the very object that the read of one showed, an enabled one with
  the shipped data and labels, a disabled one to delete it.
\<close>

theorem systemAlerts_converge:
  "\<exists>u. snd (run_state (reconcileSystemAlertConfigMaps D e ns alerts) t) = t @ u
     \<and> confined (decodeSystemAlertCM D) ns (\<lambda>a. as_enabled a alerts) systemAlertAssets u
     \<and> (case fst (run_state (reconcileSystemAlertConfigMaps D e ns alerts) t) of
          Some er \<Rightarrow> True
        | None \<Rightarrow> all_settled (decodeSystemAlertCM D) ns (\<lambda>a. as_enabled a alerts) systemAlertAssets u)"
  unfolding reconcileSystemAlertConfigMaps_def by (rule spec_no_error [OF alerts.sync_spec])

text \<open>
  The same for the ConfigMaps of the periodic checks.
\<close>

theorem systemPeriodic_converge:
  "\<exists>u. snd (run_state (reconcileSystemPeriodicConfigMaps D e ns p) t) = t @ u
     \<and> confined (decodeSystemPeriodicCM D) ns (\<lambda>a. as_enabled a p) systemPeriodicAssets u
     \<and> (case fst (run_state (reconcileSystemPeriodicConfigMaps D e ns p) t) of
          Some er \<Rightarrow> True
        | None \<Rightarrow> all_settled (decodeSystemPeriodicCM D) ns (\<lambda>a. as_enabled a p) systemPeriodicAssets u)"
  unfolding reconcileSystemPeriodicConfigMaps_def by (rule spec_no_error [OF periodic.sync_spec])

definition alerts_off :: alertsSpec where
  "alerts_off = \<lparr>al_hostNetwork = False, al_podNetwork = False, al_hostReservedCPU = False,
     al_ovsProcessCPU = False, al_userAlerts = False\<rparr>"

text \<open>
  Cleanup on deletion is reconciliation with every system alert disabled: the same calls with
  the same answers, and an error in one exactly when in the other.
\<close>

theorem cleanup_is_all_off:
  "snd (run_state (cleanupSystemAlertConfigMaps D e ns) t)
     = snd (run_state (reconcileSystemAlertConfigMaps D e ns alerts_off) t)
   \<and> (fst (run_state (cleanupSystemAlertConfigMaps D e ns) t) = None
      \<longleftrightarrow> fst (run_state (reconcileSystemAlertConfigMaps D e ns alerts_off) t) = None)"
proof -
  have "\<not> as_enabled a alerts_off" if "a \<in> set systemAlertAssets" for a
    using that by (auto simp: systemAlertAssets_def alerts_off_def)
  from alerts.sync_off [OF this] show ?thesis
    by (simp add: cleanupSystemAlertConfigMaps_def reconcileSystemAlertConfigMaps_def)
qed

end
