(* ===== verification/Managed_Resources.thy ===== *)
theory Managed_Resources
  imports System_Assets
begin

text \<open>
  The remaining resources the controller keeps: the list of monitored clusters
  (\<open>managedcluster.go\<close>), the purge CronJob (\<open>purge.go\<close>) and the kube-compare-mcp manifests with
  their registry credentials (\<open>kubecomparemcp.go\<close>). The embedded manifests are decoded by library
  code, the parameters \<open>DJ\<close> and \<open>DM\<close>.
\<close>

section \<open>Monitored clusters\<close>

fun include_loop :: "string set \<Rightarrow> string list \<Rightarrow> object_meta list \<Rightarrow> string list" where
  "include_loop included monitored [] = monitored"
| "include_loop included monitored (c # cs) =
     include_loop included (if om_name c \<in> included then monitored @ [om_name c] else monitored) cs"

fun exclude_loop :: "string set \<Rightarrow> string list \<Rightarrow> object_meta list \<Rightarrow> string list" where
  "exclude_loop excluded monitored [] = monitored"
| "exclude_loop excluded monitored (c # cs) =
     exclude_loop excluded (if om_name c \<in> excluded then monitored else monitored @ [om_name c]) cs"

definition select_clusters :: "managedClustersSpec \<Rightarrow> object_meta list \<Rightarrow> string list" where
  "select_clusters sp clusters =
     (if length (mc_include sp) > 0 then include_loop (set (mc_include sp)) [] clusters
      else exclude_loop (set (mc_exclude sp)) [] clusters)"

definition getMonitoredClusters :: "env \<Rightarrow> managedClustersSpec \<Rightarrow> (gerr + string list) io" where
  "getMonitoredClusters e sp = do {
     g \<leftarrow> api_list kCluster e Cached ManagedClusterKind '''' [];
     ret (case g of
        Inl er \<Rightarrow> Inl (Wrap ''listing ManagedClusters'' er)
      | Inr clusters \<Rightarrow> Inr (select_clusters sp clusters)) }"

section \<open>The purge CronJob\<close>

definition purgeCronJobName :: string where "purgeCronJobName = ''telco-healthcheck-purge''"

text \<open>The assignment to \<open>Containers[0].Env[0].Value\<close>; out of range, it panics.\<close>

definition set_purge_env :: "string \<Rightarrow> cronJob \<Rightarrow> cronJob outcome" where
  "set_purge_env v job =
     (case cj_containers job of
        (cname, (ename, old) # envs) # cs \<Rightarrow>
          Done (job\<lparr>cj_containers := (cname, (ename, v) # envs) # cs\<rparr>)
      | _ \<Rightarrow> Panicked)"

definition purge_owner :: "telcoHealthcheck \<Rightarrow> owner_ref list" where
  "purge_owner thc = [\<lparr>or_apiVersion = GroupVersion, or_kind = ''TelcoHealthcheck'',
     or_name = om_name thc, or_uid = om_uid thc\<rparr>]"

definition store_purge_job :: "env \<Rightarrow> string \<Rightarrow> cronJob \<Rightarrow> gerr option io" where
  "store_purge_job e ns job = do {
     g \<leftarrow> api_get as_cronJob e Cached CronJobKind ns (om_name job);
     (case g of
        Inl er \<Rightarrow> if isNotFound er then api_do e (Create (KCronJob job)) else ret (Some er)
      | Inr existing \<Rightarrow> api_do e (Update (KCronJob (existing\<lparr>om_labels := om_labels job,
            om_owners := om_owners job, cj_schedule := cj_schedule job, cj_containers := cj_containers job\<rparr>)))) }"

definition cleanupPurgeCronJob :: "env \<Rightarrow> string \<Rightarrow> gerr option io" where
  "cleanupPurgeCronJob e ns = do {
     g \<leftarrow> api_get as_cronJob e Cached CronJobKind ns purgeCronJobName;
     (case g of
        Inl er \<Rightarrow> ret (if isNotFound er then None else Some er)
      | Inr job \<Rightarrow> do {
          r \<leftarrow> api_do e (Delete (KCronJob job));
          ret (case r of None \<Rightarrow> None | Some er \<Rightarrow> ignoreNotFound er) }) }"

definition reconcilePurgeCronJob ::
  "(string \<Rightarrow> gerr + cronJob) \<Rightarrow> env \<Rightarrow> string \<Rightarrow> telcoHealthcheck \<Rightarrow> gerr option outcome io" where
  "reconcilePurgeCronJob DJ e ns thc =
     (case sp_purgeInterval (thc_spec thc) of
        None \<Rightarrow> do { r \<leftarrow> cleanupPurgeCronJob e ns; ret (Done r) }
      | Some interval \<Rightarrow>
          if interval < second \<or> interval mod second \<noteq> 0
          then ret (Done (Some (Msg ''purgeInterval must be a positive whole number of seconds'')))
          else (case DJ ''assets/purge-cronjob.yaml'' of
              Inl er \<Rightarrow> ret (Done (Some (Wrap ''decoding purge CronJob asset'' er)))
            | Inr asset \<Rightarrow>
                (case set_purge_env (dec_int (interval div second)) (asset\<lparr>om_namespace := ns\<rparr>) of
                   Panicked \<Rightarrow> ret Panicked
                 | Done job \<Rightarrow> do {
                     r \<leftarrow> store_purge_job e ns (job\<lparr>om_owners := purge_owner thc\<rparr>);
                     ret (Done r) })))"

section \<open>The kube-compare-mcp manifests\<close>

definition kubeCompareRegistrySecretName :: string where
  "kubeCompareRegistrySecretName = ''kube-compare-registry-credentials''"
definition pullSecretName :: string where "pullSecretName = ''pull-secret''"
definition pullSecretNamespace :: string where "pullSecretNamespace = ''openshift-config''"
definition kubeCompareRBACYAML :: string where "kubeCompareRBACYAML = ''assets/kube-compare-rbac.yaml''"
definition kubeCompareMCPYAML :: string where "kubeCompareMCPYAML = ''assets/kube-compare-mcp.yaml''"

text \<open>
  What the stream decoder yields for a manifest file: documents (\<^term>\<open>None\<close> for an empty one) and
  how the stream ends, \<^term>\<open>None\<close> at the end of the file.
\<close>

type_synonym manifests = "string \<Rightarrow> unstr option list \<times> gerr option"

fun forEachObject_loop :: "gerr option \<Rightarrow> (unstr \<Rightarrow> gerr option io) \<Rightarrow> unstr option list \<Rightarrow> gerr option io" where
  "forEachObject_loop fin fn [] = ret (map_option (Wrap ''decoding manifest'') fin)"
| "forEachObject_loop fin fn (None # docs) = forEachObject_loop fin fn docs"
| "forEachObject_loop fin fn (Some obj # docs) = do {
     r \<leftarrow> fn obj;
     (case r of
        Some er \<Rightarrow> ret (Some (Wrap (''processing '' @ u_kind obj @ '' '' @ om_name obj) er))
      | None \<Rightarrow> forEachObject_loop fin fn docs) }"

definition forEachObject :: "manifests \<Rightarrow> string \<Rightarrow> (unstr \<Rightarrow> gerr option io) \<Rightarrow> gerr option io" where
  "forEachObject DM data fn = forEachObject_loop (snd (DM data)) fn (fst (DM data))"

definition applyManifests :: "manifests \<Rightarrow> env \<Rightarrow> string \<Rightarrow> gerr option io" where
  "applyManifests DM e data = forEachObject DM data (\<lambda>obj. api_do e (ApplyPatch obj))"

definition delete_ignoring :: "env \<Rightarrow> kobj \<Rightarrow> gerr option io" where
  "delete_ignoring e x = do {
     r \<leftarrow> api_do e (Delete x);
     ret (case r of None \<Rightarrow> None | Some er \<Rightarrow> ignoreNotFound er) }"

definition deleteManifests :: "manifests \<Rightarrow> env \<Rightarrow> string \<Rightarrow> gerr option io" where
  "deleteManifests DM e data = forEachObject DM data (\<lambda>obj. delete_ignoring e (KUnstr obj))"

definition registry_secret :: "string \<Rightarrow> string \<Rightarrow> smap option \<Rightarrow> secret" where
  "registry_secret ns type data = \<lparr>om_name = kubeCompareRegistrySecretName, om_namespace = ns, om_uid = '''',
     om_resourceVersion = '''', om_labels = Map.empty, om_annotations = Map.empty, om_finalizers = [],
     om_owners = [], om_creation = None, om_deletion = None, sec_type = type, sec_data = data\<rparr>"

definition ensureRegistryCredentials :: "env \<Rightarrow> string \<Rightarrow> gerr option io" where
  "ensureRegistryCredentials e operatorNS = do {
     p \<leftarrow> api_get as_secret e Cached SecretKind pullSecretNamespace pullSecretName;
     (case p of
        Inl er \<Rightarrow> ret (Some (Wrap ''reading pull-secret'' er))
      | Inr pullSecret \<Rightarrow> do {
          g \<leftarrow> api_get as_secret e Cached SecretKind operatorNS kubeCompareRegistrySecretName;
          (case g of
             Inl er \<Rightarrow>
               if isNotFound er then do {
                 r \<leftarrow> api_do e (Create (KSecret (registry_secret operatorNS (sec_type pullSecret) (sec_data pullSecret))));
                 ret (map_option (Wrap ''creating registry credentials secret'') r) }
               else ret (Some (Wrap ''checking registry credentials secret'' er))
           | Inr existing \<Rightarrow> do {
               r \<leftarrow> api_do e (Update (KSecret (existing\<lparr>sec_data := sec_data pullSecret,
                      sec_type := sec_type pullSecret\<rparr>)));
               ret (map_option (Wrap ''updating registry credentials secret'') r) }) }) }"

fun apply_files :: "manifests \<Rightarrow> env \<Rightarrow> string list \<Rightarrow> gerr option io" where
  "apply_files DM e [] = ret None"
| "apply_files DM e (data # files) = do {
     r \<leftarrow> applyManifests DM e data;
     (case r of Some er \<Rightarrow> ret (Some er) | None \<Rightarrow> apply_files DM e files) }"

definition ensureKubeCompareMCP :: "manifests \<Rightarrow> env \<Rightarrow> string \<Rightarrow> gerr option io" where
  "ensureKubeCompareMCP DM e operatorNS = do {
     r \<leftarrow> ensureRegistryCredentials e operatorNS;
     (case r of Some er \<Rightarrow> ret (Some er)
      | None \<Rightarrow> apply_files DM e [kubeCompareRBACYAML, kubeCompareMCPYAML]) }"

text \<open>\<open>if err != nil && firstErr == nil { firstErr = err }\<close>.\<close>

definition first_err :: "gerr option \<Rightarrow> gerr option \<Rightarrow> gerr option" where
  "first_err firstErr err = (if err \<noteq> None \<and> firstErr = None then err else firstErr)"

fun delete_files :: "manifests \<Rightarrow> env \<Rightarrow> gerr option \<Rightarrow> string list \<Rightarrow> gerr option io" where
  "delete_files DM e firstErr [] = ret firstErr"
| "delete_files DM e firstErr (data # files) = do {
     r \<leftarrow> deleteManifests DM e data;
     delete_files DM e (first_err firstErr r) files }"

definition removeKubeCompareMCP :: "manifests \<Rightarrow> env \<Rightarrow> string \<Rightarrow> gerr option io" where
  "removeKubeCompareMCP DM e operatorNS = do {
     r \<leftarrow> delete_ignoring e (KSecret (registry_secret operatorNS '''' None));
     delete_files DM e (map_option (Wrap ''deleting registry credentials secret'') r)
       [kubeCompareMCPYAML, kubeCompareRBACYAML] }"

definition reconcileKubeCompareMCP :: "manifests \<Rightarrow> env \<Rightarrow> string \<Rightarrow> bool \<Rightarrow> gerr option io" where
  "reconcileKubeCompareMCP DM e operatorNS enabled =
     (if enabled then ensureKubeCompareMCP DM e operatorNS else removeKubeCompareMCP DM e operatorNS)"

definition cleanupKubeCompareMCP :: "manifests \<Rightarrow> env \<Rightarrow> string \<Rightarrow> gerr option io" where
  "cleanupKubeCompareMCP DM e operatorNS = removeKubeCompareMCP DM e operatorNS"

lemmas [io_run] = getMonitoredClusters_def store_purge_job_def cleanupPurgeCronJob_def
  reconcilePurgeCronJob_def forEachObject_def applyManifests_def delete_ignoring_def deleteManifests_def
  ensureRegistryCredentials_def ensureKubeCompareMCP_def removeKubeCompareMCP_def

section \<open>Selection of clusters\<close>

lemma include_loop_eq: "include_loop S out cs = out @ filter (\<lambda>n. n \<in> S) (map om_name cs)"
  by (induction cs arbitrary: out) auto

lemma exclude_loop_eq: "exclude_loop S out cs = out @ filter (\<lambda>n. n \<notin> S) (map om_name cs)"
  by (induction cs arbitrary: out) auto

text \<open>
  The include list wins: if it is not empty the monitored clusters are the known clusters on
  it, otherwise the known clusters that are not excluded; in both cases in the order of the listing,
  and never a cluster that does not exist.
\<close>

theorem select_clusters_filter:
  "select_clusters sp clusters =
     filter (\<lambda>n. if mc_include sp = [] then n \<notin> set (mc_exclude sp) else n \<in> set (mc_include sp))
       (map om_name clusters)"
  by (simp add: select_clusters_def include_loop_eq exclude_loop_eq)

section \<open>The purge interval\<close>

text \<open>Reading a decimal number back.\<close>

definition digit_val :: "char \<Rightarrow> nat" where "digit_val c = of_char c - 48"

definition read_dec :: "string \<Rightarrow> nat" where
  "read_dec s = foldl (\<lambda>n c. 10 * n + digit_val c) 0 s"

lemma digit_val_char: "n < 10 \<Longrightarrow> digit_val (char_of (48 + n)) = n"
  by (simp add: digit_val_def take_bit_eq_mod)

lemma read_dec_dec_nat [simp]: "read_dec (dec_nat n) = n"
proof (induction n rule: dec_nat.induct)
  case (1 n)
  show ?case
  proof (cases "n < 10")
    case True
    then show ?thesis by (subst dec_nat.simps) (simp add: read_dec_def digit_val_char)
  next
    case False
    with 1 have "read_dec (dec_nat (n div 10)) = n div 10" by simp
    with False show ?thesis
      using digit_val_char [of "n mod 10"] by (subst dec_nat.simps) (simp add: read_dec_def)
  qed
qed

text \<open>The value of the first environment variable of the first container.\<close>

definition purge_value :: "cronJob \<Rightarrow> string option" where
  "purge_value job = (case cj_containers job of (cname, (ename, v) # envs) # cs \<Rightarrow> Some v | _ \<Rightarrow> None)"

lemma set_purge_env_Done: "set_purge_env v job = Done job' \<Longrightarrow> purge_value job' = Some v"
  by (auto simp: set_purge_env_def purge_value_def split: list.splits prod.splits)

text \<open>A written job belongs to the configuration and carries its interval in seconds.\<close>

definition purge_written :: "telcoHealthcheck \<Rightarrow> cronJob \<Rightarrow> bool" where
  "purge_written thc job \<longleftrightarrow> om_owners job = purge_owner thc
     \<and> (\<exists>interval v. sp_purgeInterval (thc_spec thc) = Some interval \<and> purge_value job = Some v
          \<and> 0 < interval \<and> int (read_dec v) * second = interval)"

definition purge_call :: "telcoHealthcheck \<Rightarrow> call \<Rightarrow> bool" where
  "purge_call thc c \<longleftrightarrow> (case c of
       Get _ k _ _ \<Rightarrow> k = CronJobKind
     | Create x \<Rightarrow> (\<exists>j. x = KCronJob j \<and> purge_written thc j)
     | Update x \<Rightarrow> (\<exists>j. x = KCronJob j \<and> purge_written thc j)
     | Delete x \<Rightarrow> (\<exists>j. x = KCronJob j) \<and> sp_purgeInterval (thc_spec thc) = None
     | _ \<Rightarrow> False)"

lemma store_purge_job_calls:
  "purge_written thc job \<Longrightarrow> emits (purge_call thc) (store_purge_job e ns job)"
  unfolding store_purge_job_def
  by (intro io_emits) (auto simp: purge_call_def purge_written_def purge_value_def)

lemma reconcilePurgeCronJob_calls: "emits (purge_call thc) (reconcilePurgeCronJob DJ e ns thc)"
proof (cases "sp_purgeInterval (thc_spec thc)")
  case None
  then show ?thesis
    unfolding reconcilePurgeCronJob_def cleanupPurgeCronJob_def
    by (auto intro!: io_emits simp: purge_call_def)
next
  case (Some i)
  have "purge_written thc (job\<lparr>om_owners := purge_owner thc\<rparr>)"
    if "set_purge_env (dec_int (i div second)) asset = Done job" "\<not> i < second" "i mod second = 0" for asset job
  proof -
    have "i div second * second = i" using that(3) by (simp add: dvd_eq_mod_eq_0)
    moreover have "purge_value job = Some (dec_nat (nat (i div second)))"
      using set_purge_env_Done [OF that(1)] that(2) by (simp add: dec_int_def)
    ultimately show ?thesis using Some that(2) by (simp add: purge_written_def purge_value_def)
  qed
  with Some show ?thesis
    unfolding reconcilePurgeCronJob_def
    by (auto intro!: io_emits store_purge_job_calls split: outcome.split)
qed

definition purge_calls :: "telcoHealthcheck \<Rightarrow> trace \<Rightarrow> bool" where
  "purge_calls thc u \<longleftrightarrow> (\<forall>ev \<in> set u. purge_call thc (fst ev))"

text \<open>
  The purge job matches its configuration: every CronJob that is created or updated is owned
  by the TelcoHealthcheck and its environment carries the decimal number of whole seconds of a
  positive interval; a job is deleted only if no interval is configured.
\<close>

theorem purge_job_matches:
  "\<exists>u. snd (run_state (reconcilePurgeCronJob DJ e ns thc) t) = t @ u \<and> purge_calls thc u"
  using reconcilePurgeCronJob_calls [of thc DJ e ns]
  unfolding emits_def spec_def purge_calls_def by blast

section \<open>Manifests\<close>

fun somes :: "'a option list \<Rightarrow> 'a list" where
  "somes [] = []"
| "somes (None # xs) = somes xs"
| "somes (Some x # xs) = x # somes xs"

definition objects :: "manifests \<Rightarrow> string \<Rightarrow> unstr list" where
  "objects DM data = somes (fst (DM data))"

text \<open>All objects were processed in order, by the call \<open>C\<close> with an acceptable answer.\<close>

definition processed :: "(unstr \<Rightarrow> call) \<Rightarrow> (resp \<Rightarrow> bool) \<Rightarrow> unstr list \<Rightarrow> trace \<Rightarrow> bool" where
  "processed C ok os u \<longleftrightarrow> map fst u = map C os \<and> (\<forall>ev \<in> set u. ok (snd ev))"

lemma processed_append:
  "processed C ok os u \<Longrightarrow> processed C ok os' v \<Longrightarrow> processed C ok (os @ os') (u @ v)"
  by (auto simp: processed_def)

lemma forEachObject_spec:
  assumes fn: "\<And>obj. spec (fn obj) (\<lambda>r u. \<exists>a. u = [(C obj, a)] \<and> (r = None \<longrightarrow> ok a))"
  shows "spec (forEachObject DM data fn) (\<lambda>r u.
     (r = None \<longrightarrow> processed C ok (objects DM data) u \<and> snd (DM data) = None)
     \<and> (\<exists>n. map fst u = map C (take n (objects DM data)) \<and> (objects DM data \<noteq> [] \<longrightarrow> 0 < n)))"
proof -
  have "spec (forEachObject_loop fin fn docs) (\<lambda>r u.
     (r = None \<longrightarrow> processed C ok (somes docs) u \<and> fin = None)
     \<and> (\<exists>n. map fst u = map C (take n (somes docs)) \<and> (somes docs \<noteq> [] \<longrightarrow> 0 < n)))" for fin docs
  proof (induction docs)
    case Nil
    show ?case by (auto intro!: spec_ret simp: processed_def somes.simps)
  next
    case (Cons d docs)
    show ?case
    proof (cases d)
      case None
      with Cons show ?thesis by (simp add: somes.simps)
    next
      case (Some obj)
      show ?thesis
        unfolding Some forEachObject_loop.simps
      proof (rule spec_bind, rule spec_conseq [OF fn])
        fix r :: "gerr option" and u :: trace
        assume "\<exists>a. u = [(C obj, a)] \<and> (r = None \<longrightarrow> ok a)"
        then obtain a where u: "u = [(C obj, a)]" "r = None \<longrightarrow> ok a" by blast
        show "spec (case r of Some er \<Rightarrow> ret (Some (Wrap (''processing '' @ u_kind obj @ '' '' @ om_name obj) er))
              | None \<Rightarrow> forEachObject_loop fin fn docs)
            (\<lambda>r v. (r = None \<longrightarrow> processed C ok (somes (Some obj # docs)) (u @ v) \<and> fin = None)
              \<and> (\<exists>n. map fst (u @ v) = map C (take n (somes (Some obj # docs)))
                   \<and> (somes (Some obj # docs) \<noteq> [] \<longrightarrow> 0 < n)))"
        proof (cases r)
          case (Some er)
          then show ?thesis
            using u by (auto intro!: spec_ret exI [of _ 1] simp: somes.simps)
        next
          case None
          have "\<exists>m. map fst (u @ v) = map C (take m (somes (Some obj # docs))) \<and> 0 < m"
            if v: "\<exists>n. map fst v = map C (take n (somes docs)) \<and> (somes docs \<noteq> [] \<longrightarrow> 0 < n)" for v :: trace
          proof -
            obtain n where "map fst v = map C (take n (somes docs))" using v by blast
            then show ?thesis using u by (intro exI [of _ "Suc n"]) simp
          qed
          moreover have "processed C ok (somes (Some obj # docs)) (u @ v)" if "processed C ok (somes docs) v" for v
            using that u None by (simp add: processed_def)
          ultimately show ?thesis
            using None by (auto intro!: spec_conseq [OF Cons.IH] simp del: somes.simps)
        qed
      qed
    qed
  qed
  then show ?thesis by (simp add: forEachObject_def objects_def)
qed

definition gone :: "resp \<Rightarrow> bool" where
  "gone a \<longleftrightarrow> (case ack a of None \<Rightarrow> True | Some er \<Rightarrow> isNotFound er)"

lemma apply_spec: "spec (api_do e (ApplyPatch obj)) (\<lambda>r u. \<exists>a. u = [(ApplyPatch obj, a)] \<and> (r = None \<longrightarrow> ack a = None))"
  by (intro io_spec) auto

lemma delete_ignoring_spec:
  "spec (delete_ignoring e x) (\<lambda>r u. \<exists>a. u = [(Delete x, a)] \<and> (r = None \<longrightarrow> gone a))"
  unfolding delete_ignoring_def
  by (intro io_spec) (auto simp: gone_def ignoreNotFound_def simp del: ack_def split: option.splits)

lemma applyManifests_spec:
  "spec (applyManifests DM e data) (\<lambda>r u.
     (r = None \<longrightarrow> processed ApplyPatch (\<lambda>a. ack a = None) (objects DM data) u \<and> snd (DM data) = None)
     \<and> (\<exists>n. map fst u = map ApplyPatch (take n (objects DM data)) \<and> (objects DM data \<noteq> [] \<longrightarrow> 0 < n)))"
  unfolding applyManifests_def by (rule forEachObject_spec [OF apply_spec])

lemma deleteManifests_spec:
  "spec (deleteManifests DM e data) (\<lambda>r u.
     (r = None \<longrightarrow> processed (\<lambda>obj. Delete (KUnstr obj)) gone (objects DM data) u \<and> snd (DM data) = None)
     \<and> (\<exists>n. map fst u = map (\<lambda>obj. Delete (KUnstr obj)) (take n (objects DM data))
          \<and> (objects DM data \<noteq> [] \<longrightarrow> 0 < n)))"
  unfolding deleteManifests_def by (rule forEachObject_spec [OF delete_ignoring_spec])

text \<open>What removal leaves when it reports no error, and what it attempts in any case.\<close>

definition removal_attempts :: "manifests \<Rightarrow> string \<Rightarrow> trace \<Rightarrow> bool" where
  "removal_attempts DM ns u \<longleftrightarrow> (\<exists>m n. map fst u =
     Delete (KSecret (registry_secret ns '''' None))
     # map (\<lambda>obj. Delete (KUnstr obj)) (take m (objects DM kubeCompareMCPYAML)
         @ take n (objects DM kubeCompareRBACYAML))
     \<and> (m = 0 \<longrightarrow> objects DM kubeCompareMCPYAML = []) \<and> (n = 0 \<longrightarrow> objects DM kubeCompareRBACYAML = []))"

definition removal_complete :: "manifests \<Rightarrow> string \<Rightarrow> trace \<Rightarrow> bool" where
  "removal_complete DM ns u \<longleftrightarrow> (\<forall>ev \<in> set u. gone (snd ev)) \<and> map fst u =
     Delete (KSecret (registry_secret ns '''' None))
     # map (\<lambda>obj. Delete (KUnstr obj)) (objects DM kubeCompareMCPYAML @ objects DM kubeCompareRBACYAML)"

lemma removeKubeCompareMCP_spec:
  "spec (removeKubeCompareMCP DM e ns)
     (\<lambda>r u. (r = None \<longrightarrow> removal_complete DM ns u) \<and> removal_attempts DM ns u)"
  unfolding removeKubeCompareMCP_def delete_files.simps
proof (rule spec_bind, rule spec_conseq [OF delete_ignoring_spec], rule spec_bind,
    rule spec_conseq [OF deleteManifests_spec], rule spec_bind,
    rule spec_conseq [OF deleteManifests_spec], rule spec_ret)
  fix r0 r1 r2 :: "gerr option" and u0 u1 u2 :: trace
  assume 0: "\<exists>a. u0 = [(Delete (KSecret (registry_secret ns [] None)), a)] \<and> (r0 = None \<longrightarrow> gone a)"
    and 1: "(r1 = None \<longrightarrow> processed (\<lambda>obj. Delete (KUnstr obj)) gone (objects DM kubeCompareMCPYAML) u1
              \<and> snd (DM kubeCompareMCPYAML) = None)
      \<and> (\<exists>n. map fst u1 = map (\<lambda>obj. Delete (KUnstr obj)) (take n (objects DM kubeCompareMCPYAML))
           \<and> (objects DM kubeCompareMCPYAML \<noteq> [] \<longrightarrow> 0 < n))"
    and 2: "(r2 = None \<longrightarrow> processed (\<lambda>obj. Delete (KUnstr obj)) gone (objects DM kubeCompareRBACYAML) u2
              \<and> snd (DM kubeCompareRBACYAML) = None)
      \<and> (\<exists>n. map fst u2 = map (\<lambda>obj. Delete (KUnstr obj)) (take n (objects DM kubeCompareRBACYAML))
           \<and> (objects DM kubeCompareRBACYAML \<noteq> [] \<longrightarrow> 0 < n))"
  let ?r = "first_err (first_err (map_option (Wrap ''deleting registry credentials secret'') r0) r1) r2"
  let ?u = "u0 @ u1 @ u2 @ []"
  have "r0 = None \<and> r1 = None \<and> r2 = None" if "?r = None"
    using that by (auto simp: first_err_def split: if_splits)
  then have "removal_complete DM ns ?u" if "?r = None"
    using that 0 1 2 by (auto simp: removal_complete_def processed_def)
  moreover have "removal_attempts DM ns ?u"
    unfolding removal_attempts_def using 0 1 2 by fastforce
  ultimately show "(?r = None \<longrightarrow> removal_complete DM ns ?u) \<and> removal_attempts DM ns ?u" by blast
qed

text \<open>
  Removal of kube-compare-mcp is best effort: it asks for the deletion of the credentials,
  then of the MCP objects, then of the RBAC objects, going on after a failure in an earlier group;
  and if it reports no error, every one of these objects was deleted or did not exist.
\<close>

theorem kubeCompare_removal:
  "\<exists>u. snd (run_state (removeKubeCompareMCP DM e ns) t) = t @ u \<and> removal_attempts DM ns u
     \<and> (case fst (run_state (removeKubeCompareMCP DM e ns) t) of
          Some er \<Rightarrow> True | None \<Rightarrow> removal_complete DM ns u)"
  by (rule spec_no_error [OF removeKubeCompareMCP_spec])

text \<open>The credentials: the operator's copy of the pull secret, created or brought up to date.\<close>

definition pull_read :: call where
  "pull_read = Get Cached SecretKind pullSecretNamespace pullSecretName"

definition credentials_copied :: "string \<Rightarrow> trace \<Rightarrow> bool" where
  "credentials_copied ns u \<longleftrightarrow> (\<exists>pull. (pull_read, RObj (KSecret pull)) \<in> set u \<and>
     (\<exists>sec c a. (c, a) \<in> set u \<and> ack a = None \<and> (c = Create (KSecret sec) \<or> c = Update (KSecret sec))
        \<and> sec_data sec = sec_data pull \<and> sec_type sec = sec_type pull))"

lemma credentials_copiedI:
  assumes "(pull_read, RObj (KSecret pull)) \<in> set u"
    and "(Create (KSecret sec), a) \<in> set u \<or> (Update (KSecret sec), a) \<in> set u" "ack a = None"
    and "sec_data sec = sec_data pull" "sec_type sec = sec_type pull"
  shows "credentials_copied ns u"
  unfolding credentials_copied_def using assms by blast

lemma pull_read_no_patch [simp]: "pull_read \<noteq> ApplyPatch obj" "ApplyPatch obj \<noteq> pull_read"
  by (simp_all add: pull_read_def)

lemma ensureRegistryCredentials_spec:
  "spec (ensureRegistryCredentials e ns) (\<lambda>r u. (r = None \<longrightarrow> credentials_copied ns u)
     \<and> (\<forall>obj a. (ApplyPatch obj, a) \<notin> set u))"
  unfolding ensureRegistryCredentials_def pull_read_def [symmetric]
  by (intro io_spec) (auto simp: as_secret_Inr registry_secret_def
      simp flip: pull_read_def simp del: ack_def intro: credentials_copiedI)

text \<open>Enabling: the credentials first, then every object of both files in order.\<close>

definition enabled_in_order :: "manifests \<Rightarrow> string \<Rightarrow> trace \<Rightarrow> bool" where
  "enabled_in_order DM ns u \<longleftrightarrow> (\<exists>v w. u = v @ w \<and> credentials_copied ns v
     \<and> processed ApplyPatch (\<lambda>a. ack a = None)
         (objects DM kubeCompareRBACYAML @ objects DM kubeCompareMCPYAML) w)"

definition applies_after_credentials :: "string \<Rightarrow> trace \<Rightarrow> bool" where
  "applies_after_credentials ns u \<longleftrightarrow>
     (\<forall>v obj a w. u = v @ (ApplyPatch obj, a) # w \<longrightarrow> credentials_copied ns v)"

lemma credentials_copied_append: "credentials_copied ns u \<Longrightarrow> credentials_copied ns (u @ v)"
  by (auto simp: credentials_copied_def; blast)

lemma applies_after_none: "(\<forall>obj a. (ApplyPatch obj, a) \<notin> set u) \<Longrightarrow> applies_after_credentials ns u"
  unfolding applies_after_credentials_def by (metis in_set_conv_decomp)

lemma applies_after_append:
  assumes "\<forall>obj a. (ApplyPatch obj, a) \<notin> set u" "credentials_copied ns u"
  shows "applies_after_credentials ns (u @ v)"
  unfolding applies_after_credentials_def
proof (intro allI impI)
  fix p obj a s assume "u @ v = p @ (ApplyPatch obj, a) # s"
  then show "credentials_copied ns p"
    using assms by (cases rule: append_eq_append_ConsE) (auto intro: credentials_copied_append)
qed

lemma enabled_in_orderI:
  assumes "credentials_copied ns u"
    and "processed ApplyPatch (\<lambda>a. ack a = None) (objects DM kubeCompareRBACYAML) v"
    and "processed ApplyPatch (\<lambda>a. ack a = None) (objects DM kubeCompareMCPYAML) w"
  shows "enabled_in_order DM ns (u @ v @ w)"
  unfolding enabled_in_order_def using assms processed_append by blast

lemma ensureKubeCompareMCP_spec:
  "spec (ensureKubeCompareMCP DM e ns) (\<lambda>r u. (r = None \<longrightarrow> enabled_in_order DM ns u)
     \<and> applies_after_credentials ns u)"
  unfolding ensureKubeCompareMCP_def apply_files.simps
proof (rule spec_bind, rule spec_conseq [OF ensureRegistryCredentials_spec])
  fix r :: "gerr option" and u :: trace
  assume u: "(r = None \<longrightarrow> credentials_copied ns u) \<and> (\<forall>obj a. (ApplyPatch obj, a) \<notin> set u)"
  have "spec (State_Monad.bind (applyManifests DM e kubeCompareRBACYAML)
      (\<lambda>r. case r of None \<Rightarrow> State_Monad.bind (applyManifests DM e kubeCompareMCPYAML)
              (\<lambda>r. case r of None \<Rightarrow> ret None | Some er \<Rightarrow> ret (Some er))
         | Some er \<Rightarrow> ret (Some er)))
      (\<lambda>x v. (x = None \<longrightarrow> enabled_in_order DM ns (u @ v)) \<and> applies_after_credentials ns (u @ v))"
    if "credentials_copied ns u"
    using u that by (intro spec_bind spec_conseq [OF applyManifests_spec] spec_option spec_ret)
      (use u that in \<open>auto intro: applies_after_append enabled_in_orderI simp del: ack_def\<close>)
  then show "spec (case r of
        None \<Rightarrow> State_Monad.bind (applyManifests DM e kubeCompareRBACYAML)
            (\<lambda>r. case r of None \<Rightarrow> State_Monad.bind (applyManifests DM e kubeCompareMCPYAML)
                    (\<lambda>r. case r of None \<Rightarrow> ret None | Some er \<Rightarrow> ret (Some er))
               | Some er \<Rightarrow> ret (Some er))
      | Some er \<Rightarrow> ret (Some er))
      (\<lambda>x v. (x = None \<longrightarrow> enabled_in_order DM ns (u @ v)) \<and> applies_after_credentials ns (u @ v))"
    using u by (cases r) (auto intro!: spec_ret applies_after_none)
qed

text \<open>
  Enabling kube-compare-mcp works in order: no manifest is applied before the registry
  credentials were copied from the pull secret, and if no error is reported every object of the
  RBAC manifest and then every object of the MCP manifest was applied.
\<close>

theorem kubeCompare_enabled:
  "\<exists>u. snd (run_state (ensureKubeCompareMCP DM e ns) t) = t @ u \<and> applies_after_credentials ns u
     \<and> (case fst (run_state (ensureKubeCompareMCP DM e ns) t) of
          Some er \<Rightarrow> True | None \<Rightarrow> enabled_in_order DM ns u)"
  by (rule spec_no_error [OF ensureKubeCompareMCP_spec])

end
