(* ===== verification/Alertmanager_Config.thy ===== *)
theory Alertmanager_Config
  imports Alert_Rules
begin

text \<open>
  The registration of the alert receiver with ACM's Alertmanager
  (\<open>internal/controller/alertmanager.go\<close>): a receiver and a route are merged into, and removed
  from, the YAML configuration in the \<open>alertmanager-config\<close> Secret. The YAML codec is a parameter.
  The lists of receivers and of routes follow one contract, the locale \<open>named_entries\<close>.
\<close>

definition alertmanagerConfigSecret :: string where
  "alertmanagerConfigSecret = ''alertmanager-config''"
definition alertmanagerConfigKey :: string where "alertmanagerConfigKey = ''alertmanager.yaml''"
definition alertReceiverName :: string where "alertReceiverName = ''telco-anomaly-webhook''"

text \<open>\<open>yaml.Unmarshal\<close> into a map (\<^term>\<open>None\<close> is the nil map of an empty document) and \<open>yaml.Marshal\<close>.\<close>

record yaml =
  unmarshal_map :: "string \<Rightarrow> gerr + ufields option"
  marshal_map :: "ufields \<Rightarrow> gerr + string"

section \<open>Lists of named entries\<close>

text \<open>The list behind an \<open>interface{}\<close>; a value of another type reads as the nil slice.\<close>

definition slice_of :: "uval option \<Rightarrow> uval list" where
  "slice_of raw = (case as_slice raw of None \<Rightarrow> [] | Some xs \<Rightarrow> xs)"

text \<open>The string under a key of a map entry, and the zero value of a failed type assertion.\<close>

definition field_string :: "string \<Rightarrow> uval \<Rightarrow> string option" where
  "field_string k r = (case r of UMap m \<Rightarrow> as_string (m k) | _ \<Rightarrow> None)"

definition is_map :: "uval \<Rightarrow> bool" where
  "is_map r = (case r of UMap m \<Rightarrow> True | _ \<Rightarrow> False)"

fun removeReceiver_loop :: "string \<Rightarrow> uval list \<Rightarrow> uval list \<Rightarrow> uval list" where
  "removeReceiver_loop receiverName out [] = out"
| "removeReceiver_loop receiverName out (r # rs) =
     (if is_map r \<and> (case field_string ''name'' r of None \<Rightarrow> '''' | Some n \<Rightarrow> n) = receiverName
      then removeReceiver_loop receiverName out rs
      else removeReceiver_loop receiverName (out @ [r]) rs)"

definition removeReceiver :: "uval option \<Rightarrow> string \<Rightarrow> uval list" where
  "removeReceiver raw receiverName = removeReceiver_loop receiverName [] (slice_of raw)"

fun removeRoute_loop :: "string \<Rightarrow> uval list \<Rightarrow> uval list \<Rightarrow> uval list" where
  "removeRoute_loop receiverName out [] = out"
| "removeRoute_loop receiverName out (r # rs) =
     (if is_map r \<and> (case field_string ''receiver'' r of None \<Rightarrow> '''' | Some n \<Rightarrow> n) = receiverName
      then removeRoute_loop receiverName out rs
      else removeRoute_loop receiverName (out @ [r]) rs)"

definition removeRoute :: "uval option \<Rightarrow> string \<Rightarrow> uval list" where
  "removeRoute raw receiverName = removeRoute_loop receiverName [] (slice_of raw)"

text \<open>The loop over the indices that replaces the first match in place.\<close>

fun upsertReceiver_loop :: "string \<Rightarrow> uval \<Rightarrow> uval list \<Rightarrow> nat \<Rightarrow> uval list \<Rightarrow> uval list" where
  "upsertReceiver_loop receiverName entry receivers i [] = receivers @ [entry]"
| "upsertReceiver_loop receiverName entry receivers i (r # rs) =
     (if field_string ''name'' r = Some receiverName then receivers[i := entry]
      else upsertReceiver_loop receiverName entry receivers (Suc i) rs)"

definition upsertReceiver :: "uval option \<Rightarrow> string \<Rightarrow> uval \<Rightarrow> uval list" where
  "upsertReceiver raw receiverName entry =
     upsertReceiver_loop receiverName entry (slice_of raw) 0 (slice_of raw)"

definition continueRoute :: "string \<Rightarrow> uval" where
  "continueRoute receiverName = UMap [''receiver'' \<mapsto> UStr receiverName, ''continue'' \<mapsto> UBool True,
     ''repeat_interval'' \<mapsto> UStr ''24h'']"

fun upsertRoute_loop :: "string \<Rightarrow> uval list \<Rightarrow> nat \<Rightarrow> uval list \<Rightarrow> uval list" where
  "upsertRoute_loop receiverName routes i [] = routes @ [continueRoute receiverName]"
| "upsertRoute_loop receiverName routes i (r # rs) =
     (if field_string ''receiver'' r = Some receiverName then routes[i := continueRoute receiverName]
      else upsertRoute_loop receiverName routes (Suc i) rs)"

definition upsertRoute :: "uval option \<Rightarrow> string \<Rightarrow> uval list" where
  "upsertRoute raw receiverName = upsertRoute_loop receiverName (slice_of raw) 0 (slice_of raw)"

section \<open>The configuration\<close>

definition webhookReceiver :: "string \<Rightarrow> string \<Rightarrow> uval" where
  "webhookReceiver receiverName webhookURL = UMap [''name'' \<mapsto> UStr receiverName,
     ''webhook_configs'' \<mapsto> USlice [UMap [''url'' \<mapsto> UStr webhookURL, ''send_resolved'' \<mapsto> UBool True]]]"

definition merge_receiver :: "string \<Rightarrow> string \<Rightarrow> ufields \<Rightarrow> ufields" where
  "merge_receiver receiverName webhookURL config =
     (let config = config(''receivers'' \<mapsto> USlice (upsertReceiver (config ''receivers'') receiverName
                            (webhookReceiver receiverName webhookURL)));
          route = (case as_map (config ''route'') of None \<Rightarrow> Map.empty | Some r \<Rightarrow> r);
          route = route(''routes'' \<mapsto> USlice (upsertRoute (route ''routes'') receiverName))
      in config(''route'' \<mapsto> UMap route))"

definition upsertWebhookReceiver :: "yaml \<Rightarrow> string \<Rightarrow> string \<Rightarrow> string \<Rightarrow> gerr + string" where
  "upsertWebhookReceiver Y rawConfig receiverName webhookURL =
     (case unmarshal_map Y rawConfig of
        Inl er \<Rightarrow> Inl (Wrap ''parsing alertmanager YAML'' er)
      | Inr c \<Rightarrow>
          (let config = (case c of None \<Rightarrow> Map.empty | Some m \<Rightarrow> m)
           in case marshal_map Y (merge_receiver receiverName webhookURL config) of
                Inl er \<Rightarrow> Inl (Wrap ''marshaling updated alertmanager config'' er)
              | Inr out \<Rightarrow> Inr out))"

definition drop_receiver :: "string \<Rightarrow> ufields \<Rightarrow> ufields" where
  "drop_receiver receiverName config =
     (let config = config(''receivers'' \<mapsto> USlice (removeReceiver (config ''receivers'') receiverName))
      in case as_map (config ''route'') of
           None \<Rightarrow> config
         | Some route \<Rightarrow> config(''route'' \<mapsto> UMap (route(''routes'' \<mapsto>
             USlice (removeRoute (route ''routes'') receiverName)))))"

definition deleteWebhookReceiver :: "yaml \<Rightarrow> string \<Rightarrow> string \<Rightarrow> gerr + string" where
  "deleteWebhookReceiver Y rawConfig receiverName =
     (case unmarshal_map Y rawConfig of
        Inl er \<Rightarrow> Inl (Wrap ''parsing alertmanager YAML'' er)
      | Inr None \<Rightarrow> Inr rawConfig
      | Inr (Some config) \<Rightarrow>
          (case marshal_map Y (drop_receiver receiverName config) of
             Inl er \<Rightarrow> Inl (Wrap ''marshaling alertmanager config'' er)
           | Inr out \<Rightarrow> Inr out))"

section \<open>The Secret\<close>

text \<open>The assignment to a key of a Secret without data panics.\<close>

definition store_config :: "env \<Rightarrow> secret \<Rightarrow> string \<Rightarrow> gerr option outcome io" where
  "store_config e sec updated =
     (case sec_data sec of
        None \<Rightarrow> ret Panicked
      | Some d \<Rightarrow> do {
          r \<leftarrow> api_do e (Update (KSecret (sec\<lparr>sec_data := Some (d(alertmanagerConfigKey \<mapsto> updated))\<rparr>)));
          ret (Done (map_option (Wrap ''updating alertmanager-config secret'') r)) })"

definition reconcileAlertManagerReceiver :: "yaml \<Rightarrow> env \<Rightarrow> string \<Rightarrow> gerr option outcome io" where
  "reconcileAlertManagerReceiver Y e alertReceiverURL = do {
     g \<leftarrow> api_get as_secret e Cached SecretKind observabilityNamespace alertmanagerConfigSecret;
     (case g of
        Inl er \<Rightarrow> ret (Done (Some (Wrap ''getting alertmanager-config secret'' er)))
      | Inr sec \<Rightarrow>
          (case upsertWebhookReceiver Y (data_get (sec_data sec) alertmanagerConfigKey)
                  alertReceiverName alertReceiverURL of
             Inl er \<Rightarrow> ret (Done (Some (Wrap ''updating alertmanager config'' er)))
           | Inr updated \<Rightarrow> store_config e sec updated)) }"

definition removeAlertManagerReceiver :: "yaml \<Rightarrow> env \<Rightarrow> gerr option outcome io" where
  "removeAlertManagerReceiver Y e = do {
     g \<leftarrow> api_get as_secret e Cached SecretKind observabilityNamespace alertmanagerConfigSecret;
     (case g of
        Inl er \<Rightarrow> ret (Done (if isNotFound er then None
                    else Some (Wrap ''getting alertmanager-config secret'' er)))
      | Inr sec \<Rightarrow>
          (case deleteWebhookReceiver Y (data_get (sec_data sec) alertmanagerConfigKey) alertReceiverName of
             Inl er \<Rightarrow> ret (Done (Some (Wrap ''removing receiver from alertmanager config'' er)))
           | Inr updated \<Rightarrow> store_config e sec updated)) }"

lemmas [io_run] = store_config_def reconcileAlertManagerReceiver_def removeAlertManagerReceiver_def

section \<open>The contract of the lists\<close>

text \<open>
  Entries are maps that carry their name under \<open>key\<close>. An upsert replaces the first entry of that
  name by the new one, or appends it; a removal drops every entry of that name.
\<close>

definition named :: "string \<Rightarrow> string \<Rightarrow> uval \<Rightarrow> bool" where
  "named key n r \<longleftrightarrow> field_string key r = Some n"

fun replace_first :: "('a \<Rightarrow> bool) \<Rightarrow> 'a \<Rightarrow> 'a list \<Rightarrow> 'a list" where
  "replace_first P y [] = [y]"
| "replace_first P y (x # xs) = (if P x then y # xs else x # replace_first P y xs)"

locale named_entries =
  fixes key :: string
    and entry :: "string \<Rightarrow> uval"
    and upsert :: "uval option \<Rightarrow> string \<Rightarrow> uval list"
    and remove :: "uval option \<Rightarrow> string \<Rightarrow> uval list"
  assumes entry_named: "named key n (entry n)"
    and upsert_eq: "upsert raw n = replace_first (named key n) (entry n) (slice_of raw)"
    and remove_eq: "n \<noteq> [] \<Longrightarrow> remove raw n = filter (\<lambda>r. \<not> named key n r) (slice_of raw)"
begin

lemma replace_first_idem:
  "replace_first (named key n) (entry n) (replace_first (named key n) (entry n) xs)
   = replace_first (named key n) (entry n) xs"
  by (induction xs) (auto simp: entry_named)

lemma filter_replace_first:
  "filter (\<lambda>r. \<not> named key n r) (replace_first (named key n) (entry n) xs) = filter (\<lambda>r. \<not> named key n r) xs"
  by (induction xs) (auto simp: entry_named)

lemma upsert_idem: "upsert (Some (USlice (upsert raw n))) n = upsert raw n"
  by (simp add: upsert_eq slice_of_def replace_first_idem)

lemma upsert_member: "entry n \<in> set (upsert raw n)"
proof -
  have "entry n \<in> set (replace_first (named key n) (entry n) xs)" for xs
    by (induction xs) auto
  then show ?thesis by (simp add: upsert_eq)
qed

lemma upsert_others:
  "filter (\<lambda>r. \<not> named key n r) (upsert raw n) = filter (\<lambda>r. \<not> named key n r) (slice_of raw)"
  by (simp add: upsert_eq filter_replace_first)

lemma remove_upsert: "n \<noteq> [] \<Longrightarrow> remove (Some (USlice (upsert raw n))) n = remove raw n"
  by (simp add: remove_eq upsert_others slice_of_def)

lemma remove_clean: "n \<noteq> [] \<Longrightarrow> r \<in> set (remove raw n) \<Longrightarrow> \<not> named key n r"
  by (simp add: remove_eq)

lemma remove_absent:
  "n \<noteq> [] \<Longrightarrow> \<forall>r \<in> set xs. \<not> named key n r \<Longrightarrow> remove (Some (USlice xs)) n = xs"
  by (simp add: remove_eq slice_of_def)

end

section \<open>Receivers and routes keep the contract\<close>

lemma removeReceiver_loop_eq:
  "n \<noteq> [] \<Longrightarrow> removeReceiver_loop n out rs = out @ filter (\<lambda>r. \<not> named ''name'' n r) rs"
  by (induction rs arbitrary: out)
    (auto simp: named_def field_string_def is_map_def split: uval.splits option.splits)

lemma removeRoute_loop_eq:
  "n \<noteq> [] \<Longrightarrow> removeRoute_loop n out rs = out @ filter (\<lambda>r. \<not> named ''receiver'' n r) rs"
  by (induction rs arbitrary: out)
    (auto simp: named_def field_string_def is_map_def split: uval.splits option.splits)

lemma upsertReceiver_loop_eq:
  "upsertReceiver_loop n x (ys @ rs) (length ys) rs = ys @ replace_first (named ''name'' n) x rs"
proof (induction rs arbitrary: ys)
  case Nil
  show ?case by simp
next
  case (Cons r rs)
  then show ?case using Cons.IH [of "ys @ [r]"] by (simp add: named_def)
qed

lemma upsertRoute_loop_eq:
  "upsertRoute_loop n (ys @ rs) (length ys) rs = ys @ replace_first (named ''receiver'' n) (continueRoute n) rs"
proof (induction rs arbitrary: ys)
  case Nil
  show ?case by simp
next
  case (Cons r rs)
  then show ?case using Cons.IH [of "ys @ [r]"] by (simp add: named_def)
qed

interpretation receivers: named_entries "''name''" "\<lambda>n. webhookReceiver n url"
  "\<lambda>raw n. upsertReceiver raw n (webhookReceiver n url)" removeReceiver for url
proof
  show "named ''name'' n (webhookReceiver n url)" for n
    by (simp add: named_def field_string_def webhookReceiver_def)
  show "upsertReceiver raw n (webhookReceiver n url)
      = replace_first (named ''name'' n) (webhookReceiver n url) (slice_of raw)" for raw n
    using upsertReceiver_loop_eq [of n _ "[]"] by (simp add: upsertReceiver_def)
  show "removeReceiver raw n = filter (\<lambda>r. \<not> named ''name'' n r) (slice_of raw)" if "n \<noteq> []" for raw n
    using that by (simp add: removeReceiver_def removeReceiver_loop_eq)
qed

interpretation routes: named_entries "''receiver''" continueRoute upsertRoute removeRoute
proof
  show "named ''receiver'' n (continueRoute n)" for n
    by (simp add: named_def field_string_def continueRoute_def)
  show "upsertRoute raw n = replace_first (named ''receiver'' n) (continueRoute n) (slice_of raw)" for raw n
    using upsertRoute_loop_eq [of n "[]"] by (simp add: upsertRoute_def)
  show "removeRoute raw n = filter (\<lambda>r. \<not> named ''receiver'' n r) (slice_of raw)" if "n \<noteq> []" for raw n
    using that by (simp add: removeRoute_def removeRoute_loop_eq)
qed

section \<open>Registration\<close>

definition route_of :: "ufields \<Rightarrow> ufields" where
  "route_of c = (case as_map (c ''route'') of None \<Rightarrow> Map.empty | Some r \<Rightarrow> r)"

definition receivers_of :: "ufields \<Rightarrow> uval list" where
  "receivers_of c = slice_of (c ''receivers'')"

definition routes_of :: "ufields \<Rightarrow> uval list" where
  "routes_of c = slice_of (route_of c ''routes'')"

lemma slice_of_USlice [simp]: "slice_of (Some (USlice xs)) = xs"
  by (simp add: slice_of_def)

lemma merge_receiver_parts:
  "receivers_of (merge_receiver n url c) = upsertReceiver (c ''receivers'') n (webhookReceiver n url)"
  "routes_of (merge_receiver n url c) = upsertRoute (route_of c ''routes'') n"
  "k \<noteq> ''routes'' \<Longrightarrow> route_of (merge_receiver n url c) k = route_of c k"
  "k \<notin> {''receivers'', ''route''} \<Longrightarrow> merge_receiver n url c k = c k"
  by (simp_all add: merge_receiver_def receivers_of_def routes_of_def route_of_def Let_def)

text \<open>
  C30. Registration keeps the configuration it finds: the webhook receiver and its continue-route
  are present afterwards, receivers and routes of other names stay as they were and in order, and
  so do all other keys of the route and of the configuration.
\<close>

theorem merge_receiver_preserves:
  "webhookReceiver n url \<in> set (receivers_of (merge_receiver n url c))
   \<and> continueRoute n \<in> set (routes_of (merge_receiver n url c))
   \<and> filter (\<lambda>r. \<not> named ''name'' n r) (receivers_of (merge_receiver n url c))
       = filter (\<lambda>r. \<not> named ''name'' n r) (receivers_of c)
   \<and> filter (\<lambda>r. \<not> named ''receiver'' n r) (routes_of (merge_receiver n url c))
       = filter (\<lambda>r. \<not> named ''receiver'' n r) (routes_of c)
   \<and> (\<forall>k. k = ''routes'' \<or> route_of (merge_receiver n url c) k = route_of c k)
   \<and> (\<forall>k. k = ''receivers'' \<or> k = ''route'' \<or> merge_receiver n url c k = c k)"
proof (intro conjI allI)
  show "k = ''routes'' \<or> route_of (merge_receiver n url c) k = route_of c k" for k
    using merge_receiver_parts(3) by blast
  show "k = ''receivers'' \<or> k = ''route'' \<or> merge_receiver n url c k = c k" for k
    using merge_receiver_parts(4) by blast
qed (simp_all add: merge_receiver_parts(1,2) receivers.upsert_member routes.upsert_member
    receivers.upsert_others routes.upsert_others receivers_of_def [of c] routes_of_def [of c])

lemma merge_receiver_idem: "merge_receiver n url (merge_receiver n url c) = merge_receiver n url c"
  using receivers.upsert_idem routes.upsert_idem
  by (auto simp: merge_receiver_def Let_def fun_eq_iff)

text \<open>
  Registering twice is registering once: applied to its own output, the merge of the webhook
  into the configuration text returns that text, so a reconciliation that finds its own work does
  not change it (for a codec that reads back what it wrote).
\<close>

theorem upsertWebhookReceiver_idem:
  assumes "\<And>m s. marshal_map Y m = Inr s \<Longrightarrow> unmarshal_map Y s = Inr (Some m)"
    and "upsertWebhookReceiver Y raw n url = Inr s"
  shows "upsertWebhookReceiver Y s n url = Inr s"
proof -
  obtain c where c: "marshal_map Y (merge_receiver n url c) = Inr s"
    using assms(2) by (auto simp: upsertWebhookReceiver_def Let_def split: sum.splits)
  with assms(1) have "unmarshal_map Y s = Inr (Some (merge_receiver n url c))" by blast
  then show ?thesis by (simp add: upsertWebhookReceiver_def merge_receiver_idem c)
qed

text \<open>A configuration without the entries of a name; lists and a route that were missing are there, empty.\<close>

definition cleared :: "string \<Rightarrow> ufields \<Rightarrow> ufields" where
  "cleared n c = c(''receivers'' \<mapsto> USlice (filter (\<lambda>r. \<not> named ''name'' n r) (receivers_of c)),
     ''route'' \<mapsto> UMap ((route_of c)(''routes'' \<mapsto> USlice (filter (\<lambda>r. \<not> named ''receiver'' n r) (routes_of c)))))"

text \<open>Both lists are there, and no entry bears the name.\<close>

definition unregistered :: "string \<Rightarrow> ufields \<Rightarrow> bool" where
  "unregistered n c \<longleftrightarrow> c ''receivers'' = Some (USlice (receivers_of c)) \<and> c ''route'' = Some (UMap (route_of c))
     \<and> route_of c ''routes'' = Some (USlice (routes_of c))
     \<and> list_all (\<lambda>r. \<not> named ''name'' n r) (receivers_of c) \<and> list_all (\<lambda>r. \<not> named ''receiver'' n r) (routes_of c)"

lemma cleared_unregistered: "unregistered n c \<Longrightarrow> cleared n c = c"
proof -
  assume c: "unregistered n c"
  then have "filter (\<lambda>r. \<not> named ''name'' n r) (receivers_of c) = receivers_of c"
    "filter (\<lambda>r. \<not> named ''receiver'' n r) (routes_of c) = routes_of c"
    by (simp_all add: unregistered_def list_all_iff)
  with c have "(route_of c)(''routes'' \<mapsto> USlice (filter (\<lambda>r. \<not> named ''receiver'' n r) (routes_of c))) = route_of c"
    "c(''receivers'' \<mapsto> USlice (filter (\<lambda>r. \<not> named ''name'' n r) (receivers_of c)), ''route'' \<mapsto> UMap (route_of c)) = c"
    by (simp_all add: unregistered_def map_upd_triv)
  then show ?thesis by (simp only: cleared_def)
qed

text \<open>
  C29. Removal undoes registration: registering the webhook and removing it gives the configuration
  back without the entries of the operator's name, and with an empty list of receivers, route or
  list of routes where there was none; if both lists are there and no entry bears the name, it
  gives back exactly the configuration.
\<close>

theorem removal_undoes_registration:
  assumes "n \<noteq> []"
  shows "drop_receiver n (merge_receiver n url c) = cleared n c
    \<and> (if unregistered n c then drop_receiver n (merge_receiver n url c) = c else True)"
proof -
  have "drop_receiver n (merge_receiver n url c) = cleared n c"
    using receivers.remove_upsert [OF assms] routes.remove_upsert [OF assms]
      receivers.remove_eq [OF assms] routes.remove_eq [OF assms]
    by (auto simp: drop_receiver_def merge_receiver_def cleared_def receivers_of_def routes_of_def route_of_def Let_def fun_eq_iff)
  then show ?thesis by (simp add: cleared_unregistered)
qed

definition sample_am_config :: ufields where
  "sample_am_config = [''receivers'' \<mapsto> USlice [UMap [''name'' \<mapsto> UStr ''null'']],
     ''route'' \<mapsto> UMap [''receiver'' \<mapsto> UStr ''null'', ''routes'' \<mapsto> USlice []],
     ''global'' \<mapsto> UMap [''resolve_timeout'' \<mapsto> UStr ''5m'']]"

definition sample_yaml :: yaml where
  "sample_yaml = \<lparr>
     unmarshal_map = (\<lambda>s. if s = ''old'' then Inr (Some sample_am_config)
       else if s = ''new'' then Inr (Some (merge_receiver alertReceiverName ''http://rcv'' sample_am_config))
       else Inl (Msg ''yaml'')),
     marshal_map = (\<lambda>m. if m = merge_receiver alertReceiverName ''http://rcv'' sample_am_config then Inr ''new''
       else Inl (Msg ''yaml''))\<rparr>"

theorem upsertWebhookReceiver_idem_witness:
  "upsertWebhookReceiver sample_yaml ''old'' alertReceiverName ''http://rcv'' = Inr ''new''
   \<and> upsertWebhookReceiver sample_yaml ''new'' alertReceiverName ''http://rcv'' = Inr ''new''"
proof -
  have once: "upsertWebhookReceiver sample_yaml ''old'' alertReceiverName ''http://rcv'' = Inr ''new''"
    by (simp add: upsertWebhookReceiver_def sample_yaml_def)
  have law: "unmarshal_map sample_yaml s = Inr (Some m)" if "marshal_map sample_yaml m = Inr s" for m s
    using that by (simp add: sample_yaml_def split: if_splits)
  show ?thesis using once upsertWebhookReceiver_idem [OF law once] by simp
qed

theorem removal_undoes_registration_witness:
  "drop_receiver alertReceiverName (merge_receiver alertReceiverName ''http://rcv'' sample_am_config) = sample_am_config"
proof -
  have "unregistered alertReceiverName sample_am_config"
    by (simp add: unregistered_def receivers_of_def route_of_def routes_of_def sample_am_config_def alertReceiverName_def
        named_def field_string_def)
  moreover have "alertReceiverName \<noteq> []" by (simp add: alertReceiverName_def)
  ultimately show ?thesis using removal_undoes_registration [of alertReceiverName "''http://rcv''" sample_am_config] by metis
qed

section \<open>The Secret keeps everything else\<close>

definition secret_read :: call where
  "secret_read = Get Cached SecretKind observabilityNamespace alertmanagerConfigSecret"

text \<open>A write of the Secret is the Secret just read, with a new text under the configuration key.\<close>

definition config_write :: "(string \<Rightarrow> gerr + string) \<Rightarrow> call \<Rightarrow> trace \<Rightarrow> bool" where
  "config_write f c u \<longleftrightarrow> (\<exists>sec d s. (secret_read, RObj (KSecret sec)) \<in> set u \<and> sec_data sec = Some d
     \<and> f (sget d alertmanagerConfigKey) = Inr s
     \<and> c = Update (KSecret (sec\<lparr>sec_data := Some (d(alertmanagerConfigKey \<mapsto> s))\<rparr>)))"

lemma store_config_spec:
  assumes "f (data_get (sec_data sec) alertmanagerConfigKey) = Inr s"
  shows "spec (store_config e sec s) (\<lambda>_ u. \<forall>ev \<in> set u. config_write f (fst ev)
           ((secret_read, RObj (KSecret sec)) # u))"
  unfolding store_config_def using assms by (intro io_spec) (auto simp: config_write_def)

definition secret_calls :: "(string \<Rightarrow> gerr + string) \<Rightarrow> trace \<Rightarrow> bool" where
  "secret_calls f u \<longleftrightarrow> (\<forall>c \<in> fst ` set u. c = secret_read \<or> config_write f c u)"

lemma secret_calls_read: "secret_calls f [(secret_read, r)]"
  by (simp add: secret_calls_def)

lemma secret_calls_store:
  "f (data_get (sec_data sec) alertmanagerConfigKey) = Inr s
   \<Longrightarrow> spec (store_config e sec s) (\<lambda>_ u. secret_calls f ((secret_read, RObj (KSecret sec)) # u))"
  by (rule spec_conseq [OF store_config_spec [where f = f]]) (auto simp: secret_calls_def)

lemma reconcile_secret_calls:
  "spec (reconcileAlertManagerReceiver Y e url)
     (\<lambda>_ u. secret_calls (\<lambda>raw. upsertWebhookReceiver Y raw alertReceiverName url) u)"
  unfolding reconcileAlertManagerReceiver_def secret_read_def [symmetric]
  by (intro io_spec)
    (auto simp: secret_calls_read as_secret_Inr intro: spec_conseq [OF secret_calls_store] simp flip: secret_read_def)

lemma remove_secret_calls:
  "spec (removeAlertManagerReceiver Y e)
     (\<lambda>_ u. secret_calls (\<lambda>raw. deleteWebhookReceiver Y raw alertReceiverName) u)"
  unfolding removeAlertManagerReceiver_def secret_read_def [symmetric]
  by (intro io_spec)
    (auto simp: secret_calls_read as_secret_Inr intro: spec_conseq [OF secret_calls_store] simp flip: secret_read_def)

text \<open>
  Registration and removal touch one key of one Secret: every call is the read of the Secret
  or an update of the Secret just read in which only the configuration text is replaced, by the
  text the merge (or the removal) computes from the text that was read.
\<close>

theorem secret_touched_minimally:
  "(\<exists>u. snd (run_state (reconcileAlertManagerReceiver Y e url) t) = t @ u
      \<and> secret_calls (\<lambda>raw. upsertWebhookReceiver Y raw alertReceiverName url) u)
   \<and> (\<exists>u. snd (run_state (removeAlertManagerReceiver Y e) t) = t @ u
      \<and> secret_calls (\<lambda>raw. deleteWebhookReceiver Y raw alertReceiverName) u)"
  using reconcile_secret_calls [of Y e url] remove_secret_calls [of Y e] unfolding spec_def by blast

text \<open>
  Removal on deletion panics exactly if the Secret exists without data and the YAML codec
  accepts the empty text: the write to the nil map is not guarded.
\<close>

theorem removal_panics_iff:
  "fst (run_state (removeAlertManagerReceiver Y e) t) = Panicked \<longleftrightarrow>
   (\<exists>sec s. e t secret_read = RObj (KSecret sec) \<and> sec_data sec = None
      \<and> deleteWebhookReceiver Y [] alertReceiverName = Inr s)"
proof (cases "as_secret (e t secret_read)")
  case (Inl er)
  then have "e t secret_read \<noteq> RObj (KSecret sec)" for sec by auto
  with Inl show ?thesis by (simp add: removeAlertManagerReceiver_def api_get_def secret_read_def)
next
  case (Inr sec)
  then have r: "e t secret_read = RObj (KSecret sec)" by (simp add: as_secret_Inr)
  show ?thesis
  proof (cases "sec_data sec")
    case None
    with r show ?thesis
      by (auto simp: removeAlertManagerReceiver_def api_get_def store_config_def secret_read_def split: sum.splits)
  next
    case (Some d)
    with r show ?thesis
      by (auto simp: removeAlertManagerReceiver_def api_get_def api_do_def store_config_def secret_read_def
          split_beta split: sum.splits)
  qed
qed

end
