(* ===== verification/Reconciler.thy ===== *)
theory Reconciler
  imports Managed_Resources Alertmanager_Config Periodic_Runs
begin

text \<open>
  \<open>internal/controller/telcohealthcheck_controller.go\<close>: the main reconciliation of the singleton
  configuration, its deletion, and the mapping of events to it. The component operations come from
  the theories imported here; a panic of one of them ends the pass.
\<close>

section \<open>The reconciler and its libraries\<close>

record telcoHealthcheckReconciler =
  r_operatorNamespace :: string
  r_alertReceiverSvcURL :: string
  r_logLevel :: bool  \<comment> \<open>whether \<open>LogLevel\<close> is not nil\<close>

text \<open>\<open>controllerutil\<close>'s functions on the list of finalizers.\<close>

record finalizerlib =
  containsFinalizer :: "string list \<Rightarrow> string \<Rightarrow> bool"
  addFinalizer :: "string list \<Rightarrow> string \<Rightarrow> string list"
  removeFinalizer :: "string list \<Rightarrow> string \<Rightarrow> string list"

record libs =
  lib_retry :: nat
  lib_lower :: "string \<Rightarrow> string"
  lib_ulib :: ulib
  lib_json :: json
  lib_yaml :: yaml
  lib_configMap :: decoder
  lib_manifests :: manifests
  lib_cronJob :: "string \<Rightarrow> gerr + cronJob"
  lib_finalizers :: finalizerlib

definition telcoHealthcheckFinalizer :: string where
  "telcoHealthcheckFinalizer = ''ran.openshift.io/telcohealthcheck-finalizer''"

definition alertReceiverURL :: "telcoHealthcheckReconciler \<Rightarrow> string" where
  "alertReceiverURL R =
     (if r_alertReceiverSvcURL R \<noteq> '''' then r_alertReceiverSvcURL R
      else ''http://telco-anomaly-alert-receiver.'' @ r_operatorNamespace R @ ''.svc.cluster.local:8080/webhook'')"

section \<open>Sequences of operations\<close>

type_synonym operation = "gerr option outcome io"

definition then_do :: "'a outcome io \<Rightarrow> ('a \<Rightarrow> 'b outcome io) \<Rightarrow> 'b outcome io" where
  "then_do m f = do { x \<leftarrow> m; (case x of Panicked \<Rightarrow> ret Panicked | Done a \<Rightarrow> f a) }"

definition plain :: "'a io \<Rightarrow> 'a outcome io" where
  "plain m = do { x \<leftarrow> m; ret (Done x) }"

text \<open>Operations whose error ends the pass, and operations that are all attempted.\<close>

fun until_error :: "operation list \<Rightarrow> operation" where
  "until_error [] = ret (Done None)"
| "until_error (m # ms) = then_do m (\<lambda>r. case r of Some er \<Rightarrow> ret (Done (Some er)) | None \<Rightarrow> until_error ms)"

fun attempt_all :: "gerr option \<Rightarrow> operation list \<Rightarrow> operation" where
  "attempt_all firstErr [] = ret (Done firstErr)"
| "attempt_all firstErr (m # ms) = then_do m (\<lambda>r. attempt_all (first_err firstErr r) ms)"

section \<open>Deletion\<close>

definition cleanup_operations :: "libs \<Rightarrow> telcoHealthcheckReconciler \<Rightarrow> env \<Rightarrow> operation list" where
  "cleanup_operations S R e =
     [removeAlertManagerReceiver (lib_yaml S) e,
      plain (cleanupAlertRules e),
      plain (cleanupKubeCompareMCP (lib_manifests S) e (r_operatorNamespace R)),
      plain (cleanupObservabilityMetrics e),
      plain (cleanupSystemAlertConfigMaps (lib_configMap S) e (r_operatorNamespace R)),
      plain (cleanupSystemPeriodicConfigMaps (lib_configMap S) e (r_operatorNamespace R)),
      plain (cleanupPurgeCronJob e (r_operatorNamespace R))]"

definition cleanupResources :: "libs \<Rightarrow> telcoHealthcheckReconciler \<Rightarrow> env \<Rightarrow> operation" where
  "cleanupResources S R e = attempt_all None (cleanup_operations S R e)"

definition without_finalizer :: "libs \<Rightarrow> telcoHealthcheck \<Rightarrow> telcoHealthcheck" where
  "without_finalizer S thc =
     thc\<lparr>om_finalizers := removeFinalizer (lib_finalizers S) (om_finalizers thc) telcoHealthcheckFinalizer\<rparr>"

definition handleDeletion ::
  "libs \<Rightarrow> telcoHealthcheckReconciler \<Rightarrow> env \<Rightarrow> telcoHealthcheck \<Rightarrow> (ctrl_result \<times> gerr option) outcome io" where
  "handleDeletion S R e thc = then_do (cleanupResources S R e) (\<lambda>_. do {
     r \<leftarrow> api_do e (Update (KTHC (without_finalizer S thc)));
     ret (Done (no_result, map_option (Wrap ''removing finalizer'') r)) })"

section \<open>A pass over a live configuration\<close>

definition sync_log_level :: "telcoHealthcheckReconciler \<Rightarrow> env \<Rightarrow> telcoHealthcheck \<Rightarrow> unit io" where
  "sync_log_level R e thc =
     (if r_logLevel R then do {
        _ \<leftarrow> invoke e (SetLevel (if sp_logLevel (thc_spec thc) = LogLevelDebug then DebugLevel else InfoLevel));
        ret () }
      else ret ())"

text \<open>An error of one of the first ends the pass; errors of the others are logged.\<close>

definition managed_operations :: "libs \<Rightarrow> telcoHealthcheckReconciler \<Rightarrow> env \<Rightarrow> telcoHealthcheck \<Rightarrow> operation list" where
  "managed_operations S R e thc =
     [plain (reconcileSystemAlertConfigMaps (lib_configMap S) e (r_operatorNamespace R) (sp_alerts (thc_spec thc))),
      plain (reconcileSystemPeriodicConfigMaps (lib_configMap S) e (r_operatorNamespace R) (sp_periodic (thc_spec thc))),
      plain (reconcileKubeCompareMCP (lib_manifests S) e (r_operatorNamespace R)
        (rds_enabled (ph_rdsCompliance (sp_periodic (thc_spec thc))))),
      reconcilePurgeCronJob (lib_cronJob S) e (r_operatorNamespace R) thc]"

definition optional_operations :: "libs \<Rightarrow> telcoHealthcheckReconciler \<Rightarrow> env \<Rightarrow> telcoHealthcheck \<Rightarrow> operation list" where
  "optional_operations S R e thc =
     [reconcileAlertRules (lib_lower S) (lib_json S) e (r_operatorNamespace R) (al_userAlerts (sp_alerts (thc_spec thc))),
      plain (reconcileObservabilityMetrics (lib_json S) e (r_operatorNamespace R) (al_userAlerts (sp_alerts (thc_spec thc)))),
      reconcileAlertManagerReceiver (lib_yaml S) e (alertReceiverURL R)]"

text \<open>The end of a pass: the schedule, the requeue for pending runs and the status.\<close>

definition next_pass :: "bool \<Rightarrow> duration \<Rightarrow> duration" where
  "next_pass pendingRuns requeueAfter =
     (if pendingRuns \<and> (requeueAfter = 0 \<or> requeueAfter > minute) then minute else requeueAfter)"

definition finish_pass ::
  "libs \<Rightarrow> env \<Rightarrow> telcoHealthcheck \<Rightarrow> string list \<Rightarrow> bool \<Rightarrow> (ctrl_result \<times> gerr option) io" where
  "finish_pass S e thc monitoredClusters pendingRuns = do {
     x \<leftarrow> runPeriodicChecks (lib_retry S) (lib_ulib S) (lib_json S) e thc monitoredClusters;
     (case x of ((requeueAfter, persisted, err), thc') \<Rightarrow>
        (case err of
           Some er \<Rightarrow> ret (no_result, Some er)
         | None \<Rightarrow>
             if persisted then ret (requeue_after (next_pass pendingRuns requeueAfter), None)
             else do {
               r \<leftarrow> api_do e (StatusUpdate (KTHC thc'));
               ret (case r of
                  Some er \<Rightarrow> (no_result, Some er)
                | None \<Rightarrow> (requeue_after (next_pass pendingRuns requeueAfter), None)) })) }"

definition with_clusters :: "string list \<Rightarrow> telcoHealthcheck \<Rightarrow> telcoHealthcheck" where
  "with_clusters clusters thc = thc\<lparr>thc_status := (thc_status thc)\<lparr>st_monitoredClusters := clusters\<rparr>\<rparr>"

definition reconcile_live ::
  "libs \<Rightarrow> telcoHealthcheckReconciler \<Rightarrow> env \<Rightarrow> telcoHealthcheck \<Rightarrow> (ctrl_result \<times> gerr option) outcome io" where
  "reconcile_live S R e thc0 = do {
     _ \<leftarrow> sync_log_level R e thc0;
     m \<leftarrow> getMonitoredClusters e (sp_managedClusters (thc_spec thc0));
     (case m of
        Inl er \<Rightarrow> ret (Done (no_result, Some (Wrap ''resolving monitored clusters'' er)))
      | Inr monitoredClusters \<Rightarrow> do {
          let thc = with_clusters monitoredClusters thc0;
          p \<leftarrow> recoverPendingRuns (lib_retry S) (lib_ulib S) e (r_operatorNamespace R);
          (case p of
             Inl er \<Rightarrow> ret (Done (no_result, Some er))
           | Inr pendingRuns \<Rightarrow>
               then_do (until_error (managed_operations S R e thc)) (\<lambda>r.
                 case r of
                   Some er \<Rightarrow> ret (Done (no_result, Some er))
                 | None \<Rightarrow>
                     then_do (attempt_all None (optional_operations S R e thc)) (\<lambda>_.
                       plain (finish_pass S e thc monitoredClusters pendingRuns)))) }) }"

definition with_finalizer :: "libs \<Rightarrow> telcoHealthcheck \<Rightarrow> telcoHealthcheck" where
  "with_finalizer S thc =
     thc\<lparr>om_finalizers := addFinalizer (lib_finalizers S) (om_finalizers thc) telcoHealthcheckFinalizer\<rparr>"

definition has_finalizer :: "libs \<Rightarrow> telcoHealthcheck \<Rightarrow> bool" where
  "has_finalizer S thc \<longleftrightarrow> containsFinalizer (lib_finalizers S) (om_finalizers thc) telcoHealthcheckFinalizer"

definition thc_Reconcile ::
  "libs \<Rightarrow> telcoHealthcheckReconciler \<Rightarrow> env \<Rightarrow> string \<Rightarrow> string \<Rightarrow> (ctrl_result \<times> gerr option) outcome io" where
  "thc_Reconcile S R e reqNs reqName = do {
     g \<leftarrow> api_get as_thc e Cached ThcKind reqNs reqName;
     (case g of
        Inl er \<Rightarrow> ret (Done (not_found_result er))
      | Inr thc \<Rightarrow>
          if om_deletion thc \<noteq> None then handleDeletion S R e thc
          else if \<not> has_finalizer S thc then do {
            r \<leftarrow> api_do e (Update (KTHC (with_finalizer S thc)));
            ret (Done (no_result, map_option (Wrap ''adding finalizer'') r)) }
          else reconcile_live S R e thc) }"

section \<open>Events\<close>

text \<open>Cluster, record and ConfigMap events all ask for the singleton.\<close>

definition mapManagedClusterToTelcoHealthchecks :: "kobj \<Rightarrow> (string \<times> string) list" where
  "mapManagedClusterToTelcoHealthchecks obj = [('''', TelcoHealthcheckCanonicalName)]"

definition mapUserAlertCMToTHC :: "kobj \<Rightarrow> (string \<times> string) list" where
  "mapUserAlertCMToTHC obj = [('''', TelcoHealthcheckCanonicalName)]"

lemmas [io_run] = then_do_def plain_def cleanupResources_def handleDeletion_def sync_log_level_def
  finish_pass_def reconcile_live_def thc_Reconcile_def

section \<open>Rules for sequences\<close>

lemma spec_then_do:
  assumes "spec m (\<lambda>x u. (x = Panicked \<longrightarrow> Q Panicked u) \<and> (\<forall>a. x = Done a \<longrightarrow> spec (f a) (\<lambda>y v. Q y (u @ v))))"
  shows "spec (then_do m f) Q"
  unfolding then_do_def
proof (rule spec_bind, rule spec_conseq [OF assms])
  fix x :: "'a outcome" and u :: trace
  assume "(x = Panicked \<longrightarrow> Q Panicked u) \<and> (\<forall>a. x = Done a \<longrightarrow> spec (f a) (\<lambda>y v. Q y (u @ v)))"
  then show "spec (case x of Panicked \<Rightarrow> ret Panicked | Done a \<Rightarrow> f a) (\<lambda>y v. Q y (u @ v))"
    by (cases x) (auto intro: spec_ret)
qed

lemma spec_plain: "spec m (\<lambda>x u. Q (Done x) u) \<Longrightarrow> spec (plain m) Q"
  unfolding plain_def by (intro spec_bind) (auto elim!: spec_conseq intro: spec_ret)

lemma emits_outcome [io_emits]:
  "(x = Panicked \<Longrightarrow> emits P m) \<Longrightarrow> (\<And>y. x = Done y \<Longrightarrow> emits P (f y))
   \<Longrightarrow> emits P (case x of Panicked \<Rightarrow> m | Done y \<Rightarrow> f y)"
  by (cases x) simp_all

lemma emits_then_do [io_emits]: "emits P m \<Longrightarrow> (\<And>a. emits P (f a)) \<Longrightarrow> emits P (then_do m f)"
  unfolding then_do_def by (intro io_emits)

lemma emits_plain [io_emits]: "emits P m \<Longrightarrow> emits P (plain m)"
  unfolding plain_def by (intro io_emits)

lemma emits_until_error: "(\<And>m. m \<in> set ms \<Longrightarrow> emits P m) \<Longrightarrow> emits P (until_error ms)"
  by (induction ms) (auto intro!: io_emits)

lemma emits_attempt_all: "(\<And>m. m \<in> set ms \<Longrightarrow> emits P m) \<Longrightarrow> emits P (attempt_all er ms)"
  by (induction ms arbitrary: er) (auto intro!: io_emits)

section \<open>What the resource operations may call\<close>

text \<open>
  Everything but the schedule: no run, no record and no delayed run is created, and neither the
  configuration nor its status is written.
\<close>

definition resource_call :: "call \<Rightarrow> bool" where
  "resource_call c \<longleftrightarrow> (case c of
       Create x \<Rightarrow> (case x of KConfigMap _ \<Rightarrow> True | KSecret _ \<Rightarrow> True | KCronJob _ \<Rightarrow> True | _ \<Rightarrow> False)
     | Update x \<Rightarrow> (case x of KTHC _ \<Rightarrow> False | _ \<Rightarrow> True)
     | StatusUpdate x \<Rightarrow> (case x of KRecord _ \<Rightarrow> True | _ \<Rightarrow> False)
     | StatusPatch _ _ \<Rightarrow> False
     | HttpDo _ \<Rightarrow> False
     | Spawn _ _ _ _ \<Rightarrow> False
     | _ \<Rightarrow> True)"

lemma resource_call_simps [simp]:
  "resource_call (Get s k ns n)" "resource_call (ListObjs s k ns ls)" "resource_call Now"
  "resource_call (Delete x)" "resource_call (ApplyPatch p)" "resource_call (SetLevel l)"
  "resource_call (Create (KConfigMap c))" "resource_call (Create (KSecret sec))" "resource_call (Create (KCronJob j))"
  "resource_call (Update (KConfigMap c))" "resource_call (Update (KSecret sec))" "resource_call (Update (KCronJob j))"
  "resource_call (Update (KRecord r))" "resource_call (StatusUpdate (KRecord r))"
  by (simp_all add: resource_call_def)

text \<open>The operations on the managed resources do not even touch the records.\<close>

definition managed_call :: "call \<Rightarrow> bool" where
  "managed_call c \<longleftrightarrow> resource_call c \<and> (case c of
       Update (KRecord _) \<Rightarrow> False
     | StatusUpdate _ \<Rightarrow> False
     | _ \<Rightarrow> True)"

lemma managed_call_simps [simp]:
  "managed_call (Get s k ns n)" "managed_call (ListObjs s k ns ls)" "managed_call (Delete x)" "managed_call (ApplyPatch p)"
  "managed_call (Create (KConfigMap c))" "managed_call (Create (KSecret sec))" "managed_call (Create (KCronJob j))"
  "managed_call (Update (KConfigMap c))" "managed_call (Update (KSecret sec))" "managed_call (Update (KCronJob j))"
  by (simp_all add: managed_call_def)

named_theorems managed_ops \<comment> \<open>the operations that only make calls for managed resources\<close>

lemma asset_managed [managed_ops]:
  "emits managed_call (ensure_asset what e cm)" "emits managed_call (delete_asset what suffix e cm)"
  unfolding ensure_asset_def delete_asset_def by (intro io_emits; simp)+

lemma systemAlerts_managed [managed_ops]:
  "emits managed_call (reconcileSystemAlertConfigMaps D e ns alerts)"
  "emits managed_call (cleanupSystemAlertConfigMaps D e ns)"
proof -
  have "emits managed_call (reconcileSystemAlerts_loop D e ns alerts as)" for as
    by (induction as) (auto simp: Let_def intro!: io_emits managed_ops)
  moreover have "emits managed_call (cleanupSystemAlerts_loop D e ns as)" for as
    by (induction as) (auto simp: Let_def intro!: io_emits managed_ops)
  ultimately show "emits managed_call (reconcileSystemAlertConfigMaps D e ns alerts)"
    "emits managed_call (cleanupSystemAlertConfigMaps D e ns)"
    by (simp_all add: reconcileSystemAlertConfigMaps_def cleanupSystemAlertConfigMaps_def)
qed

lemma systemPeriodic_managed [managed_ops]:
  "emits managed_call (reconcileSystemPeriodicConfigMaps D e ns periodic)"
  "emits managed_call (cleanupSystemPeriodicConfigMaps D e ns)"
proof -
  have "emits managed_call (reconcileSystemPeriodic_loop D e ns periodic as)" for as
    by (induction as) (auto simp: Let_def intro!: io_emits managed_ops)
  moreover have "emits managed_call (cleanupSystemPeriodic_loop D e ns as)" for as
    by (induction as) (auto simp: Let_def intro!: io_emits managed_ops)
  ultimately show "emits managed_call (reconcileSystemPeriodicConfigMaps D e ns periodic)"
    "emits managed_call (cleanupSystemPeriodicConfigMaps D e ns)"
    by (simp_all add: reconcileSystemPeriodicConfigMaps_def cleanupSystemPeriodicConfigMaps_def)
qed

lemma emits_forEachObject:
  "(\<And>obj. emits P (fn obj)) \<Longrightarrow> emits P (forEachObject DM data fn)"
proof -
  assume fn: "\<And>obj. emits P (fn obj)"
  have "emits P (forEachObject_loop fin fn docs)" for fin docs
  proof (induction docs)
    case Nil
    show ?case by (auto intro!: io_emits)
  next
    case (Cons d docs)
    then show ?case by (cases d) (auto intro!: io_emits fn)
  qed
  then show ?thesis by (simp add: forEachObject_def)
qed

lemma kubeCompare_managed [managed_ops]:
  "emits managed_call (reconcileKubeCompareMCP DM e ns enabled)"
  "emits managed_call (cleanupKubeCompareMCP DM e ns)"
proof -
  have "emits managed_call (apply_files DM e fs)" for fs
    by (induction fs) (auto simp: applyManifests_def intro!: io_emits emits_forEachObject)
  then have ensure: "emits managed_call (ensureKubeCompareMCP DM e ns)"
    unfolding ensureKubeCompareMCP_def ensureRegistryCredentials_def
    by (auto intro!: io_emits simp del: apply_files.simps)
  have "emits managed_call (delete_files DM e er fs)" for er fs
    by (induction fs arbitrary: er)
      (auto simp: deleteManifests_def delete_ignoring_def intro!: io_emits emits_forEachObject)
  then have remove: "emits managed_call (removeKubeCompareMCP DM e ns)"
    unfolding removeKubeCompareMCP_def delete_ignoring_def
    by (auto intro!: io_emits simp del: delete_files.simps)
  show "emits managed_call (reconcileKubeCompareMCP DM e ns enabled)"
    "emits managed_call (cleanupKubeCompareMCP DM e ns)"
    using ensure remove by (simp_all add: reconcileKubeCompareMCP_def cleanupKubeCompareMCP_def)
qed

lemma purge_managed [managed_ops]:
  "emits managed_call (reconcilePurgeCronJob DJ e ns thc)" "emits managed_call (cleanupPurgeCronJob e ns)"
  unfolding reconcilePurgeCronJob_def cleanupPurgeCronJob_def store_purge_job_def
  by (intro io_emits; simp)+

lemma rules_managed [managed_ops]:
  "emits managed_call (reconcileAlertRules ul J e ns user)" "emits managed_call (cleanupAlertRules e)"
  "emits managed_call (reconcileObservabilityMetrics J e ns user)" "emits managed_call (cleanupObservabilityMetrics e)"
  unfolding reconcileAlertRules_def listAllAlertConfigs_def store_rules_def cleanupAlertRules_def delete_configMap_def
    reconcileObservabilityMetrics_def cleanupObservabilityMetrics_def Let_def
  by (intro io_emits; auto intro!: io_emits)+

lemma alertmanager_managed [managed_ops]:
  "emits managed_call (reconcileAlertManagerReceiver Y e url)" "emits managed_call (removeAlertManagerReceiver Y e)"
  unfolding reconcileAlertManagerReceiver_def removeAlertManagerReceiver_def store_config_def
  by (intro io_emits; simp)+

named_theorems resource_ops \<comment> \<open>the operations that only make resource calls\<close>

lemma managed_emits: "emits managed_call m \<Longrightarrow> emits resource_call m"
  by (erule emits_mono) (simp add: managed_call_def)

lemmas all_managed [resource_ops] = managed_ops [THEN managed_emits]

section \<open>Deletion is never blocked by a cleanup error\<close>

text \<open>\<open>u\<close> is what some run of \<open>m\<close> did.\<close>

definition produced :: "'a io \<Rightarrow> trace \<Rightarrow> bool" where
  "produced m u \<longleftrightarrow> (\<exists>t. snd (run_state m t) = t @ u)"

lemma spec_produced: "spec m Q \<Longrightarrow> spec m (\<lambda>x u. Q x u \<and> produced m u)"
  unfolding spec_def produced_def by metis

text \<open>A reason for a panic that cannot go away.\<close>

definition persistent :: "(trace \<Rightarrow> bool) \<Rightarrow> bool" where
  "persistent P \<longleftrightarrow> (\<forall>u v. P u \<or> P v \<longrightarrow> P (u @ v))"

definition panics_only :: "(trace \<Rightarrow> bool) \<Rightarrow> 'a outcome io \<Rightarrow> bool" where
  "panics_only P m \<longleftrightarrow> spec m (\<lambda>x u. x = Panicked \<longrightarrow> P u)"

lemma panics_only_plain: "spec m (\<lambda>_ _. True) \<Longrightarrow> panics_only P (plain m)"
  unfolding panics_only_def by (rule spec_plain) simp

lemma panics_only_then_do:
  assumes "persistent P" "panics_only P m" "\<And>a. panics_only P (f a)"
  shows "panics_only P (then_do m f)"
  unfolding panics_only_def
proof (rule spec_then_do, rule spec_conseq [OF assms(2) [unfolded panics_only_def]], intro conjI allI impI)
  fix x :: "'a outcome" and u :: trace and a
  assume "x = Panicked \<longrightarrow> P u"
  then show "P u" if "x = Panicked" using that by simp
  show "spec (f a) (\<lambda>y v. y = Panicked \<longrightarrow> P (u @ v))"
    using assms(1) by (intro spec_conseq [OF assms(3) [unfolded panics_only_def]]) (auto simp: persistent_def)
qed

lemma panics_only_until_error:
  "persistent P \<Longrightarrow> (\<And>m. m \<in> set ms \<Longrightarrow> panics_only P m) \<Longrightarrow> panics_only P (until_error ms)"
proof (induction ms)
  case Nil
  show ?case by (simp add: panics_only_def spec_ret)
next
  case (Cons m ms)
  then show ?case
    by (auto intro!: panics_only_then_do split: option.split) (simp add: panics_only_def spec_ret)
qed

lemma attempt_all_spec:
  assumes "persistent P" "\<And>m. m \<in> set ms \<Longrightarrow> panics_only P m"
  shows "spec (attempt_all er ms) (\<lambda>x u. if x = Panicked then P u
           else (\<exists>vs. u = concat vs \<and> list_all2 produced ms vs))"
  using assms(2)
proof (induction ms arbitrary: er)
  case Nil
  show ?case by (auto intro!: spec_ret)
next
  case (Cons m ms)
  have m: "spec m (\<lambda>x u. (x = Panicked \<longrightarrow> P u) \<and> produced m u)"
    using Cons.prems [of m] by (intro spec_produced) (simp add: panics_only_def)
  show ?case
    unfolding attempt_all.simps
  proof (rule spec_then_do, rule spec_conseq [OF m], intro conjI allI impI)
    fix x and u :: trace and a
    assume *: "(x = Panicked \<longrightarrow> P u) \<and> produced m u"
    show "if Panicked = Panicked then P u else \<exists>vs. u = concat vs \<and> list_all2 produced (m # ms) vs"
      if "x = Panicked" using * that by simp
    have "spec (attempt_all (first_err er a) ms) (\<lambda>x u. if x = Panicked then P u
           else (\<exists>vs. u = concat vs \<and> list_all2 produced ms vs))"
      using Cons.prems by (intro Cons.IH) simp
    then show "spec (attempt_all (first_err er a) ms) (\<lambda>y v. if y = Panicked then P (u @ v)
        else \<exists>vs. u @ v = concat vs \<and> list_all2 produced (m # ms) vs)"
    proof (rule spec_conseq)
      fix y :: "gerr option outcome" and v
      assume y: "if y = Panicked then P v else \<exists>vs. v = concat vs \<and> list_all2 produced ms vs"
      show "if y = Panicked then P (u @ v) else \<exists>vs. u @ v = concat vs \<and> list_all2 produced (m # ms) vs"
      proof (cases "y = Panicked")
        case True
        then show ?thesis using y assms(1) by (simp add: persistent_def)
      next
        case False
        then obtain vs where "v = concat vs" "list_all2 produced ms vs" using y by auto
        then show ?thesis using False * by (auto intro!: exI [of _ "u # vs"])
      qed
    qed
  qed
qed

definition nil_secret :: "trace \<Rightarrow> bool" where
  "nil_secret u \<longleftrightarrow> (\<exists>sec. (secret_read, RObj (KSecret sec)) \<in> set u \<and> sec_data sec = None)"

lemma persistent_nil: "persistent nil_secret" "persistent (\<lambda>u. nil_secret u \<or> nil_rules u \<or> b)"
  by (auto simp: persistent_def nil_secret_def nil_rules_def)

lemma store_config_panics: "spec (store_config e sec s) (\<lambda>x _. x = Panicked \<longrightarrow> sec_data sec = None)"
  unfolding store_config_def by (intro io_spec) simp_all

lemma alertmanager_panics:
  "panics_only nil_secret (removeAlertManagerReceiver Y e)"
  "panics_only nil_secret (reconcileAlertManagerReceiver Y e url)"
  unfolding panics_only_def removeAlertManagerReceiver_def reconcileAlertManagerReceiver_def
  by (intro spec_bind spec_api_get spec_sum spec_ret spec_conseq [OF store_config_panics];
      auto simp: nil_secret_def secret_read_def as_secret_Inr)+

lemma spec_any: "emits P m \<Longrightarrow> spec m (\<lambda>_ _. True)"
  by (erule spec_of_emits) simp

lemma cleanup_panics: "m \<in> set (cleanup_operations S R e) \<Longrightarrow> panics_only nil_secret m"
  by (auto simp: cleanup_operations_def alertmanager_panics intro: panics_only_plain
      spec_any resource_ops)

text \<open>
  C26. Deletion goes through: when the configuration is being deleted, every cleanup operation is
  run to its end, in the order of the code, and then the finalizer is removed, whatever errors the
  cleanup met; only that last update can make the deletion fail. The one exception is a panic,
  which happens only if the Alertmanager Secret was read without data.
\<close>

theorem deletion_unblocked:
  "\<exists>u. snd (run_state (handleDeletion S R e thc) t) = t @ u \<and>
     (case fst (run_state (handleDeletion S R e thc) t) of
        Panicked \<Rightarrow> nil_secret u
      | Done (res, err) \<Rightarrow> res = no_result \<and>
          (\<exists>vs a. u = concat vs @ [(Update (KTHC (without_finalizer S thc)), a)]
             \<and> list_all2 produced (cleanup_operations S R e) vs
             \<and> err = map_option (Wrap ''removing finalizer'') (ack a)))"
proof -
  have "spec (handleDeletion S R e thc) (\<lambda>x u. case x of
        Panicked \<Rightarrow> nil_secret u
      | Done (res, err) \<Rightarrow> res = no_result \<and>
          (\<exists>vs a. u = concat vs @ [(Update (KTHC (without_finalizer S thc)), a)]
             \<and> list_all2 produced (cleanup_operations S R e) vs
             \<and> err = map_option (Wrap ''removing finalizer'') (ack a)))"
    unfolding handleDeletion_def cleanupResources_def
    by (rule spec_then_do, rule spec_conseq [OF attempt_all_spec [OF persistent_nil(1) cleanup_panics]])
      (auto intro!: io_spec simp del: ack_def)
  then show ?thesis unfolding spec_def by blast
qed

section \<open>A whole pass\<close>

text \<open>The panics of a pass: unguarded writes to nil maps, and a purge manifest without environment.\<close>

definition purge_asset_broken :: "libs \<Rightarrow> bool" where
  "purge_asset_broken S \<longleftrightarrow> (\<exists>asset. lib_cronJob S ''assets/purge-cronjob.yaml'' = Inr asset
     \<and> (\<nexists>cname ename old envs cs. cj_containers asset = (cname, (ename, old) # envs) # cs))"

definition panic_reason :: "libs \<Rightarrow> trace \<Rightarrow> bool" where
  "panic_reason S u \<longleftrightarrow> nil_secret u \<or> nil_rules u \<or> purge_asset_broken S"

lemma persistent_panic_reason: "persistent (panic_reason S)"
  using persistent_nil(2) [of "purge_asset_broken S"] by (simp add: panic_reason_def [abs_def])

lemma panics_only_mono: "panics_only P m \<Longrightarrow> (\<And>u. P u \<Longrightarrow> P' u) \<Longrightarrow> panics_only P' m"
  unfolding panics_only_def by (erule spec_conseq) simp

lemma set_purge_env_panics: "set_purge_env v job = Panicked \<Longrightarrow>
    \<nexists>cname ename old envs cs. cj_containers job = (cname, (ename, old) # envs) # cs"
  by (auto simp: set_purge_env_def)

lemma purge_panics: "panics_only (panic_reason S) (reconcilePurgeCronJob (lib_cronJob S) e ns thc)"
  unfolding panics_only_def reconcilePurgeCronJob_def
proof (intro spec_option spec_if spec_sum spec_ret)
  show "spec (do { r \<leftarrow> cleanupPurgeCronJob e ns; ret (Done r) }) (\<lambda>x u. x = Panicked \<longrightarrow> panic_reason S u)"
    by (intro spec_bind spec_conseq [OF spec_any [OF purge_managed(2)]] spec_ret) simp
  fix i asset assume "lib_cronJob S ''assets/purge-cronjob.yaml'' = Inr asset"
  then show "spec (case set_purge_env (dec_int (i div second)) (asset\<lparr>om_namespace := ns\<rparr>) of
      Panicked \<Rightarrow> ret Panicked
    | Done job \<Rightarrow> do { r \<leftarrow> store_purge_job e ns (job\<lparr>om_owners := purge_owner thc\<rparr>); ret (Done r) })
    (\<lambda>x u. x = Panicked \<longrightarrow> panic_reason S u)"
    using set_purge_env_panics [of "dec_int (i div second)" "asset\<lparr>om_namespace := ns\<rparr>"]
    by (auto simp: panic_reason_def purge_asset_broken_def store_purge_job_def intro!: io_spec split: outcome.split)
qed simp_all

lemma managed_panics: "m \<in> set (managed_operations S R e thc) \<Longrightarrow> panics_only (panic_reason S) m"
  by (auto simp: managed_operations_def purge_panics intro: panics_only_plain spec_any resource_ops)

lemma rules_panics: "panics_only (panic_reason S) (reconcileAlertRules ul J e ns user)"
  unfolding panics_only_def by (rule spec_conseq [OF reconcileAlertRules_spec])
    (auto simp: panic_reason_def reconciled_rules_def rules_outcome_def)

lemma receiver_panics: "panics_only (panic_reason S) (reconcileAlertManagerReceiver Y e url)"
  by (rule panics_only_mono [OF alertmanager_panics(2)]) (simp add: panic_reason_def)

lemma optional_panics: "m \<in> set (optional_operations S R e thc) \<Longrightarrow> panics_only (panic_reason S) m"
  by (auto simp: optional_operations_def rules_panics receiver_panics
      intro: panics_only_plain spec_any resource_ops)

lemma managed_resource: "m \<in> set (managed_operations S R e thc) \<Longrightarrow> emits resource_call m"
  by (auto simp: managed_operations_def intro!: io_emits resource_ops)

lemma optional_resource: "m \<in> set (optional_operations S R e thc) \<Longrightarrow> emits resource_call m"
  by (auto simp: optional_operations_def intro!: io_emits resource_ops)

lemma recovery_call_resource: "recovery_call r c \<Longrightarrow> resource_call c"
  by (auto simp: recovery_call_def resource_call_def split: call.splits kobj.splits)

lemma recoverPendingRuns_resource: "emits resource_call (recoverPendingRuns k L e ns)"
  unfolding recoverPendingRuns_def
  by (intro io_emits emits_mono [OF recover_loop_calls]) (auto intro: recovery_call_resource)

lemma getMonitoredClusters_resource: "emits resource_call (getMonitoredClusters e sp)"
  unfolding getMonitoredClusters_def by (intro io_emits) simp

lemma sync_log_level_resource: "emits resource_call (sync_log_level R e thc)"
  unfolding sync_log_level_def by (intro io_emits) simp

text \<open>
  The shape of a pass: first only resource calls, then at most one scheduling pass, whose
  creations are claimed and audited, then at most the update of the status.
\<close>

definition resources_only :: "trace \<Rightarrow> bool" where
  "resources_only v \<longleftrightarrow> (\<forall>ev \<in> set v. resource_call (fst ev))"

definition scheduling :: "ulib \<Rightarrow> trace \<Rightarrow> bool" where
  "scheduling L w \<longleftrightarrow> (\<exists>r w'. w = (Now, r) # w' \<and> schedule_trace L (as_time r) w')"

definition pass_trace :: "ulib \<Rightarrow> trace \<Rightarrow> bool" where
  "pass_trace L u \<longleftrightarrow> resources_only u \<or>
     (\<exists>v w z. u = v @ w @ z \<and> resources_only v \<and> scheduling L w
        \<and> (z = [] \<or> (\<exists>x a. z = [(StatusUpdate (KTHC x), a)])))"

lemma resources_only_append [simp]: "resources_only (u @ v) \<longleftrightarrow> resources_only u \<and> resources_only v"
  "resources_only []"
  by (auto simp: resources_only_def)

lemma resource_spec: "emits resource_call m \<Longrightarrow> spec m (\<lambda>_ u. resources_only u)"
  by (erule spec_of_emits) (simp add: resources_only_def)

lemma pass_trace_prepend: "resources_only u \<Longrightarrow> pass_trace L v \<Longrightarrow> pass_trace L (u @ v)"
  unfolding pass_trace_def
proof (elim disjE exE conjE)
  fix v' w z x a
  assume "resources_only u" "v = v' @ w @ z" "resources_only v'" "scheduling L w" "z = [(StatusUpdate (KTHC x), a)]"
  then show "resources_only (u @ v) \<or> (\<exists>v' w z. u @ v = v' @ w @ z \<and> resources_only v' \<and> scheduling L w
      \<and> (z = [] \<or> (\<exists>x a. z = [(StatusUpdate (KTHC x), a)])))"
    by (intro disjI2 exI [of _ "u @ v'"] exI [of _ w] exI [of _ z]) simp
next
  fix v' w z
  assume "resources_only u" "v = v' @ w @ z" "resources_only v'" "scheduling L w" "z = []"
  then show "resources_only (u @ v) \<or> (\<exists>v' w z. u @ v = v' @ w @ z \<and> resources_only v' \<and> scheduling L w
      \<and> (z = [] \<or> (\<exists>x a. z = [(StatusUpdate (KTHC x), a)])))"
    by (intro disjI2 exI [of _ "u @ v'"] exI [of _ w] exI [of _ "[]"]) simp
qed simp

text \<open>The requeue a finished pass asks for.\<close>

definition requeue_bound :: "duration \<Rightarrow> bool \<Rightarrow> ctrl_result \<Rightarrow> bool" where
  "requeue_bound period pending res \<longleftrightarrow> \<not> res_requeue res
     \<and> (if period > 0 then 0 < res_after res \<and> res_after res \<le> (if pending then min period minute else period)
        else if period = 0 then res_after res = (if pending then minute else 0)
        else res_after res = period)"

lemma runPeriodicChecks_spec:
  "spec (runPeriodicChecks k L J e thc cl) (\<lambda>x u. scheduling L u
     \<and> requeue_ok (ph_period (sp_periodic (thc_spec thc))) (fst (fst x)))"
  unfolding runPeriodicChecks_def Let_def
proof (intro spec_bind spec_now spec_if spec_ret)
  fix r
  let ?p = "ph_period (sp_periodic (thc_spec thc))"
  show "spec (periodic_loop k L J e (as_time r) ?p cl (configuredPeriodicChecks thc) thc ?p False)
     (\<lambda>y v. scheduling L ([(Now, r)] @ v) \<and> requeue_ok ?p (fst (fst y)))"
    by (rule spec_conseq [OF periodic_loop_spec [OF configured_names]])
      (auto simp: scheduling_def simp del: as_time_def)
qed (auto simp: requeue_ok_def scheduling_def schedule_trace_def audit_before_create_no_runs)

lemma next_pass_bound:
  "requeue_ok p d \<Longrightarrow> requeue_bound p b (requeue_after (next_pass b d))"
  by (auto simp: requeue_ok_def requeue_bound_def requeue_after_def next_pass_def)

lemma finish_pass_spec:
  "spec (finish_pass S e thc cl b) (\<lambda>x u. pass_trace (lib_ulib S) u
     \<and> (snd x = None \<longrightarrow> requeue_bound (ph_period (sp_periodic (thc_spec thc))) b (fst x)))"
  unfolding finish_pass_def
proof (rule spec_bind, rule spec_conseq [OF runPeriodicChecks_spec])
  fix x :: periodic_result and u :: trace
  let ?p = "ph_period (sp_periodic (thc_spec thc))"
  assume u: "scheduling (lib_ulib S) u \<and> requeue_ok ?p (fst (fst x))"
  have t: "pass_trace (lib_ulib S) u" "pass_trace (lib_ulib S) (u @ [(StatusUpdate (KTHC y), a)])" for y a
    unfolding pass_trace_def using u
    by (intro disjI2 exI [of _ "[]"] exI [of _ u] exI [of _ "[]"], simp)
      (intro disjI2 exI [of _ "[]"] exI [of _ u] exI [of _ "[(StatusUpdate (KTHC y), a)]"], use u in simp)
  have b: "requeue_bound ?p b (requeue_after (next_pass b (fst (fst x))))"
    using u by (intro next_pass_bound) auto
  show "spec (case x of ((requeueAfter, persisted, err), thc') \<Rightarrow>
        (case err of
           Some er \<Rightarrow> ret (no_result, Some er)
         | None \<Rightarrow>
             if persisted then ret (requeue_after (next_pass b requeueAfter), None)
             else do {
               r \<leftarrow> api_do e (StatusUpdate (KTHC thc'));
               ret (case r of
                  Some er \<Rightarrow> (no_result, Some er)
                | None \<Rightarrow> (requeue_after (next_pass b requeueAfter), None)) }))
      (\<lambda>x v. pass_trace (lib_ulib S) (u @ v) \<and> (snd x = None \<longrightarrow> requeue_bound ?p b (fst x)))"
    using t b by (intro io_spec) (auto split: option.splits)
qed

definition pending_listed :: "string \<Rightarrow> trace \<Rightarrow> bool \<Rightarrow> bool" where
  "pending_listed ns u p \<longleftrightarrow> (\<exists>g rs. (ListObjs Cached RecordKind ns [], g) \<in> set u \<and> list_of kRecord g = Inr rs
     \<and> (p \<longleftrightarrow> (\<exists>r \<in> set rs. counts_as_pending r)))"

lemma pending_listed_append: "pending_listed ns u p \<or> pending_listed ns v p \<Longrightarrow> pending_listed ns (u @ v) p"
  unfolding pending_listed_def by (metis Un_iff set_append)

lemma recoverPendingRuns_listed:
  "spec (recoverPendingRuns k L e ns) (\<lambda>x u. \<forall>p. x = Inr p \<longrightarrow> pending_listed ns u p)"
  unfolding recoverPendingRuns_def
  by (intro spec_bind spec_api_list spec_sum spec_ret spec_conseq [OF recover_loop_result])
    (auto simp: pending_listed_def simp del: list_of_def)

text \<open>What a pass over a live configuration guarantees.\<close>

definition pass_ok ::
  "libs \<Rightarrow> telcoHealthcheckReconciler \<Rightarrow> telcoHealthcheck \<Rightarrow> (ctrl_result \<times> gerr option) outcome \<Rightarrow> trace \<Rightarrow> bool" where
  "pass_ok S R thc x u \<longleftrightarrow> pass_trace (lib_ulib S) u \<and> (x = Panicked \<longrightarrow> panic_reason S u)
     \<and> (\<forall>res. x = Done (res, None) \<longrightarrow> (\<exists>p. pending_listed (r_operatorNamespace R) u p
          \<and> requeue_bound (ph_period (sp_periodic (thc_spec thc))) p res))"

lemma pass_ok_failed: "resources_only u \<Longrightarrow> pass_ok S R thc (Done (res, Some er)) u"
  by (simp add: pass_ok_def pass_trace_def)

lemma until_error_resource: "spec (until_error (managed_operations S R e thc))
    (\<lambda>x u. resources_only u \<and> (x = Panicked \<longrightarrow> panic_reason S u))"
  by (rule spec_conj [OF resource_spec [OF emits_until_error [OF managed_resource]]
        panics_only_until_error [OF persistent_panic_reason managed_panics, unfolded panics_only_def]])

lemma attempt_all_resource: "spec (attempt_all er (optional_operations S R e thc))
    (\<lambda>x u. resources_only u \<and> (x = Panicked \<longrightarrow> panic_reason S u))"
  by (rule spec_conj [OF resource_spec [OF emits_attempt_all [OF optional_resource]]
        spec_conseq [OF attempt_all_spec [OF persistent_panic_reason optional_panics]]]) auto

lemma finish_pass_ok:
  assumes "resources_only h" "pending_listed (r_operatorNamespace R) h p"
    and "ph_period (sp_periodic (thc_spec thc)) = ph_period (sp_periodic (thc_spec thc0))"
  shows "spec (plain (finish_pass S e thc cl p)) (\<lambda>x u. pass_ok S R thc0 x (h @ u))"
  using assms
  by (intro spec_plain spec_conseq [OF finish_pass_spec])
    (auto simp: pass_ok_def intro: pass_trace_prepend pending_listed_append)

lemma operations_ok:
  assumes h: "resources_only h" "pending_listed (r_operatorNamespace R) h p"
    and thc: "ph_period (sp_periodic (thc_spec thc)) = ph_period (sp_periodic (thc_spec thc0))"
  shows "spec (then_do (until_error (managed_operations S R e thc)) (\<lambda>r.
      case r of
        Some er \<Rightarrow> ret (Done (no_result, Some er))
      | None \<Rightarrow> then_do (attempt_all None (optional_operations S R e thc)) (\<lambda>_. plain (finish_pass S e thc cl p))))
    (\<lambda>x u. pass_ok S R thc0 x (h @ u))"
proof (rule spec_then_do, rule spec_conseq [OF until_error_resource], intro conjI allI impI)
  fix x :: "gerr option outcome" and u :: trace and a
  assume u: "resources_only u \<and> (x = Panicked \<longrightarrow> panic_reason S u)"
  show "pass_ok S R thc0 Panicked (h @ u)" if "x = Panicked"
    using u h(1) that persistent_panic_reason [of S] by (auto simp: pass_ok_def pass_trace_def persistent_def)
  show "spec (case a of Some er \<Rightarrow> ret (Done (no_result, Some er))
      | None \<Rightarrow> then_do (attempt_all None (optional_operations S R e thc)) (\<lambda>_. plain (finish_pass S e thc cl p)))
    (\<lambda>x v. pass_ok S R thc0 x (h @ u @ v))"
  proof (rule spec_option, rule_tac [2] spec_ret)
    show "spec (then_do (attempt_all None (optional_operations S R e thc)) (\<lambda>_. plain (finish_pass S e thc cl p)))
        (\<lambda>x v. pass_ok S R thc0 x (h @ u @ v))"
    proof (rule spec_then_do, rule spec_conseq [OF attempt_all_resource], intro conjI allI impI)
      fix y :: "gerr option outcome" and v :: trace
      assume v: "resources_only v \<and> (y = Panicked \<longrightarrow> panic_reason S v)"
      show "pass_ok S R thc0 Panicked (h @ u @ v)" if "y = Panicked"
        using u v h(1) that persistent_panic_reason [of S] by (auto simp: pass_ok_def pass_trace_def persistent_def)
      show "spec (plain (finish_pass S e thc cl p)) (\<lambda>x w. pass_ok S R thc0 x (h @ u @ v @ w))"
        using finish_pass_ok [of "h @ u @ v" R p thc thc0 S e cl] h u v thc
        by (auto intro: pending_listed_append)
    qed
    show "pass_ok S R thc0 (Done (no_result, Some er)) (h @ u @ [])" for er
      using u h(1) by (intro pass_ok_failed) simp
  qed
qed

lemma reconcile_live_ok: "spec (reconcile_live S R e thc) (\<lambda>x u. pass_ok S R thc x u)"
proof -
  have rec: "spec (recoverPendingRuns (lib_retry S) (lib_ulib S) e (r_operatorNamespace R))
      (\<lambda>x u. resources_only u \<and> (\<forall>p. x = Inr p \<longrightarrow> pending_listed (r_operatorNamespace R) u p))"
    by (rule spec_conj [OF resource_spec [OF recoverPendingRuns_resource] recoverPendingRuns_listed])
  have same: "ph_period (sp_periodic (thc_spec (with_clusters cl thc))) = ph_period (sp_periodic (thc_spec thc))" for cl
    by (simp add: with_clusters_def)
  show ?thesis
    unfolding reconcile_live_def Let_def
  proof (rule spec_bind, rule spec_conseq [OF resource_spec [OF sync_log_level_resource]],
      rule spec_bind, rule spec_conseq [OF resource_spec [OF getMonitoredClusters_resource]], rule spec_sum)
    fix x and u v :: trace and m and er
    assume u: "resources_only u" "resources_only v"
    show "spec (ret (Done (no_result, Some (Wrap ''resolving monitored clusters'' er))))
       (\<lambda>y w. pass_ok S R thc y (u @ v @ w))"
      using u by (intro spec_ret pass_ok_failed) simp
    fix cl
    show "spec (do {
        p \<leftarrow> recoverPendingRuns (lib_retry S) (lib_ulib S) e (r_operatorNamespace R);
        (case p of
           Inl er \<Rightarrow> ret (Done (no_result, Some er))
         | Inr pendingRuns \<Rightarrow>
             then_do (until_error (managed_operations S R e (with_clusters cl thc))) (\<lambda>r.
               case r of
                 Some er \<Rightarrow> ret (Done (no_result, Some er))
               | None \<Rightarrow>
                   then_do (attempt_all None (optional_operations S R e (with_clusters cl thc))) (\<lambda>_.
                     plain (finish_pass S e (with_clusters cl thc) cl pendingRuns)))) })
      (\<lambda>y w. pass_ok S R thc y (u @ v @ w))"
    proof (rule spec_bind, rule spec_conseq [OF rec], rule spec_sum)
      fix p and w :: trace and er'
      assume w: "resources_only w \<and> (\<forall>q. p = Inr q \<longrightarrow> pending_listed (r_operatorNamespace R) w q)"
      show "spec (ret (Done (no_result, Some er'))) (\<lambda>y z. pass_ok S R thc y (u @ v @ w @ z))"
        using u w by (intro spec_ret pass_ok_failed) simp
      fix q assume "p = Inr q"
      then show "spec (then_do (until_error (managed_operations S R e (with_clusters cl thc))) (\<lambda>r.
               case r of
                 Some er \<Rightarrow> ret (Done (no_result, Some er))
               | None \<Rightarrow>
                   then_do (attempt_all None (optional_operations S R e (with_clusters cl thc))) (\<lambda>_.
                     plain (finish_pass S e (with_clusters cl thc) cl q))))
         (\<lambda>y z. pass_ok S R thc y (u @ v @ w @ z))"
        using operations_ok [OF _ _ same, of "u @ v @ w" R q S e cl] u w
        by (simp add: pending_listed_append)
    qed
  qed
qed

section \<open>Properties of reconciliation\<close>

definition reconcile_ok ::
  "libs \<Rightarrow> (ctrl_result \<times> gerr option) outcome \<Rightarrow> trace \<Rightarrow> bool" where
  "reconcile_ok S x u \<longleftrightarrow> (no_effects u \<or> (\<exists>v w z. u = v @ w @ z \<and> no_effects v \<and> scheduling (lib_ulib S) w \<and> no_effects z))
     \<and> (x = Panicked \<longrightarrow> panic_reason S u)"

lemma resource_call_no_effect: "resource_call c \<Longrightarrow> \<not> run_effect c"
  by (auto simp: resource_call_def run_effect_def)

lemma resource_no_effects: "resources_only u \<Longrightarrow> no_effects u"
  by (auto simp: resources_only_def no_effects_def dest: resource_call_no_effect)

lemma pass_trace_effects:
  assumes "pass_trace L u"
  shows "no_effects u \<or> (\<exists>v w z. u = v @ w @ z \<and> no_effects v \<and> scheduling L w \<and> no_effects z)"
  using assms unfolding pass_trace_def
proof (elim disjE exE conjE)
  assume "resources_only u"
  then show ?thesis by (simp add: resource_no_effects)
next
  fix v w z assume "u = v @ w @ z" "resources_only v" "scheduling L w" "z = []"
  then show ?thesis
    by (intro disjI2 exI [of _ v] exI [of _ w] exI [of _ "[]"]) (simp add: resource_no_effects)
next
  fix v w z x a assume "u = v @ w @ z" "resources_only v" "scheduling L w" "z = [(StatusUpdate (KTHC x), a)]"
  then show ?thesis
    by (intro disjI2 exI [of _ v] exI [of _ w] exI [of _ z]) (simp add: resource_no_effects run_effect_def)
qed

lemma reconcile_ok_prepend:
  assumes "no_effects h" "reconcile_ok S x u" shows "reconcile_ok S x (h @ u)"
  unfolding reconcile_ok_def
proof (intro conjI impI)
  show "panic_reason S (h @ u)" if "x = Panicked"
    using assms(2) that persistent_panic_reason [of S] by (auto simp: reconcile_ok_def persistent_def)
  consider "no_effects u" | v w z where "u = v @ w @ z" "no_effects v" "scheduling (lib_ulib S) w" "no_effects z"
    using assms(2) by (auto simp: reconcile_ok_def)
  then show "no_effects (h @ u) \<or> (\<exists>v w z. h @ u = v @ w @ z \<and> no_effects v \<and> scheduling (lib_ulib S) w \<and> no_effects z)"
  proof cases
    case 1
    then show ?thesis using assms(1) by simp
  next
    case 2
    then show ?thesis using assms(1)
      by (intro disjI2 exI [of _ "h @ v"] exI [of _ w] exI [of _ z]) simp
  qed
qed

lemma cleanup_resource: "m \<in> set (cleanup_operations S R e) \<Longrightarrow> emits resource_call m"
  by (auto simp: cleanup_operations_def intro!: io_emits resource_ops)

lemma cleanup_ok: "spec (cleanupResources S R e) (\<lambda>x u. resources_only u \<and> (x = Panicked \<longrightarrow> nil_secret u))"
  unfolding cleanupResources_def
  by (rule spec_conj [OF resource_spec [OF emits_attempt_all [OF cleanup_resource]]
        spec_conseq [OF attempt_all_spec [OF persistent_nil(1) cleanup_panics]]]) auto

lemma handleDeletion_ok: "spec (handleDeletion S R e thc) (\<lambda>x u. reconcile_ok S x u)"
  unfolding handleDeletion_def
proof (rule spec_then_do, rule spec_conseq [OF cleanup_ok], intro conjI allI impI)
  fix x :: "gerr option outcome" and u :: trace and a
  assume u: "resources_only u \<and> (x = Panicked \<longrightarrow> nil_secret u)"
  show "reconcile_ok S Panicked u" if "x = Panicked"
    using u that by (auto simp: reconcile_ok_def panic_reason_def resource_no_effects)
  show "spec (do {
      r \<leftarrow> api_do e (Update (KTHC (without_finalizer S thc)));
      ret (Done (no_result, map_option (Wrap ''removing finalizer'') r)) }) (\<lambda>y v. reconcile_ok S y (u @ v))"
    using u by (intro io_spec) (simp add: reconcile_ok_def resource_no_effects run_effect_def)
qed

lemma thc_Reconcile_ok: "spec (thc_Reconcile S R e reqNs reqName) (\<lambda>x u. reconcile_ok S x u)"
proof -
  have get: "no_effects [(Get Cached ThcKind reqNs reqName, r)]" for r by (simp add: run_effect_def)
  have live: "spec (reconcile_live S R e thc) (\<lambda>x u. reconcile_ok S x u)" for thc
    by (rule spec_conseq [OF reconcile_live_ok]) (simp add: pass_ok_def reconcile_ok_def pass_trace_effects)
  have fin: "spec (do {
      r \<leftarrow> api_do e (Update (KTHC (with_finalizer S thc)));
      ret (Done (no_result, map_option (Wrap ''adding finalizer'') r)) }) (\<lambda>x u. reconcile_ok S x u)" for thc
    by (intro io_spec) (simp add: reconcile_ok_def run_effect_def)
  have "spec (if om_deletion thc \<noteq> None then handleDeletion S R e thc
      else if \<not> has_finalizer S thc then do {
        r \<leftarrow> api_do e (Update (KTHC (with_finalizer S thc)));
        ret (Done (no_result, map_option (Wrap ''adding finalizer'') r)) }
      else reconcile_live S R e thc) (\<lambda>x u. reconcile_ok S x ([(Get Cached ThcKind reqNs reqName, r)] @ u))" for thc r
    by (rule spec_if, rule spec_conseq [OF handleDeletion_ok reconcile_ok_prepend [OF get]], assumption,
        rule spec_if, rule spec_conseq [OF fin reconcile_ok_prepend [OF get]], assumption,
        rule spec_conseq [OF live reconcile_ok_prepend [OF get]], assumption)
  note rest = this
  show ?thesis
    unfolding thc_Reconcile_def
    by (rule spec_bind, rule spec_api_get, rule spec_sum, rule spec_ret,
        simp add: reconcile_ok_def run_effect_def, rule rest)
qed

text \<open>The first read of a pass shows a configuration that is not being deleted and has the finalizer.\<close>

definition live_read :: "libs \<Rightarrow> string \<Rightarrow> string \<Rightarrow> trace \<Rightarrow> bool" where
  "live_read S reqNs reqName u \<longleftrightarrow> (case u of
       (Get Cached ThcKind ns n, RObj (KTHC thc)) # v \<Rightarrow>
         ns = reqNs \<and> n = reqName \<and> om_deletion thc = None \<and> has_finalizer S thc
     | _ \<Rightarrow> False)"

lemma handleDeletion_quiet: "spec (handleDeletion S R e thc) (\<lambda>_ u. no_effects u)"
  unfolding handleDeletion_def
proof (rule spec_then_do, rule spec_conseq [OF cleanup_ok], intro conjI allI impI)
  fix x :: "gerr option outcome" and u :: trace
  assume "resources_only u \<and> (x = Panicked \<longrightarrow> nil_secret u)"
  then show u: "no_effects u" by (simp add: resource_no_effects)
  show "spec (do {
      r \<leftarrow> api_do e (Update (KTHC (without_finalizer S thc)));
      ret (Done (no_result, map_option (Wrap ''removing finalizer'') r)) }) (\<lambda>y v. no_effects (u @ v))"
    using u by (intro io_spec) (simp add: run_effect_def)
qed

lemma thc_Reconcile_live:
  "spec (thc_Reconcile S R e reqNs reqName) (\<lambda>_ u. no_effects u \<or> live_read S reqNs reqName u)"
  unfolding thc_Reconcile_def
proof (rule spec_bind, rule spec_api_get, rule spec_sum)
  fix r thc assume "as_thc r = Inr thc"
  then have r: "r = RObj (KTHC thc)" by (simp add: as_thc_Inr)
  show "spec (if om_deletion thc \<noteq> None then handleDeletion S R e thc
      else if \<not> has_finalizer S thc then do {
        r \<leftarrow> api_do e (Update (KTHC (with_finalizer S thc)));
        ret (Done (no_result, map_option (Wrap ''adding finalizer'') r)) }
      else reconcile_live S R e thc)
    (\<lambda>_ v. no_effects ([(Get Cached ThcKind reqNs reqName, r)] @ v)
       \<or> live_read S reqNs reqName ([(Get Cached ThcKind reqNs reqName, r)] @ v))"
    by (intro spec_if spec_bind spec_api_do spec_ret spec_conseq [OF handleDeletion_quiet] spec_conseq [OF reconcile_live_ok])
      (auto simp: r run_effect_def live_read_def)
qed (auto intro!: spec_ret simp: run_effect_def)

text \<open>
  C3. Runs come from the schedule only: in a whole reconciliation, creations of records and runs
  and delayed runs occur only in one scheduling pass, where each of them is preceded by an accepted
  claim of the interval and each run by its audit record; nothing before it or after it creates
  any. There is such a pass only if the configuration that was read is not being deleted and has
  the finalizer: a deletion, the registration of the finalizer and a failed read create none at all.
\<close>

theorem reconcile_runs_audited:
  "\<exists>u. snd (run_state (thc_Reconcile S R e reqNs reqName) t) = t @ u
     \<and> (no_effects u \<or> live_read S reqNs reqName u
         \<and> (\<exists>v w z. u = v @ w @ z \<and> no_effects v \<and> scheduling (lib_ulib S) w \<and> no_effects z))"
proof -
  obtain u where "snd (run_state (thc_Reconcile S R e reqNs reqName) t) = t @ u"
    "reconcile_ok S (fst (run_state (thc_Reconcile S R e reqNs reqName) t)) u
     \<and> (no_effects u \<or> live_read S reqNs reqName u)"
    by (rule specD [OF spec_conj [OF thc_Reconcile_ok thc_Reconcile_live]])
  then show ?thesis by (intro exI [of _ u] conjI) (auto simp: reconcile_ok_def)
qed

text \<open>
  C31. The only panics of a reconciliation are a write into the Alertmanager Secret or the rules
  ConfigMap when it was read without data, and a purge manifest whose first container has no
  environment variable.
\<close>

theorem reconcile_panics_only:
  "\<exists>u. snd (run_state (thc_Reconcile S R e reqNs reqName) t) = t @ u
     \<and> (case fst (run_state (thc_Reconcile S R e reqNs reqName) t) of
          Done x \<Rightarrow> True
        | Panicked \<Rightarrow> panic_reason S u)"
proof -
  obtain u where "snd (run_state (thc_Reconcile S R e reqNs reqName) t) = t @ u"
    "reconcile_ok S (fst (run_state (thc_Reconcile S R e reqNs reqName) t)) u"
    by (rule specD [OF thc_Reconcile_ok])
  then show ?thesis by (intro exI [of _ u]) (simp add: reconcile_ok_def split: outcome.split)
qed

text \<open>
  C32. The next pass that a pass without error asks for, exactly as far as the period decides it:
  with a positive period the delay is positive, at most the period and, while a listed record is
  pending, at most a minute; with period zero it is a minute while a record is pending, and
  otherwise no further pass is asked for; a negative period, which nothing refuses, comes back as
  the delay, so no pass is asked for even while a record is pending.
\<close>

theorem pass_requeues:
  "\<exists>u. snd (run_state (reconcile_live S R e thc) t) = t @ u
     \<and> (case fst (run_state (reconcile_live S R e thc) t) of
          Panicked \<Rightarrow> True
        | Done (res, Some er) \<Rightarrow> True
        | Done (res, None) \<Rightarrow> \<exists>p. pending_listed (r_operatorNamespace R) u p
            \<and> requeue_bound (ph_period (sp_periodic (thc_spec thc))) p res)"
proof -
  obtain u where "snd (run_state (reconcile_live S R e thc) t) = t @ u"
    "pass_ok S R thc (fst (run_state (reconcile_live S R e thc) t)) u"
    by (rule specD [OF reconcile_live_ok])
  then show ?thesis
    by (intro exI [of _ u]) (auto simp: pass_ok_def split: outcome.split prod.split option.split)
qed

text \<open>The finalizer is registered before anything is done for the configuration.\<close>

definition finalizer_guard :: "libs \<Rightarrow> string \<Rightarrow> string \<Rightarrow> trace \<Rightarrow> call \<Rightarrow> bool" where
  "finalizer_guard S reqNs reqName v c \<longleftrightarrow> c = Get Cached ThcKind reqNs reqName \<and> v = []
     \<or> (\<exists>thc. (Get Cached ThcKind reqNs reqName, RObj (KTHC thc)) \<in> set v
          \<and> (om_deletion thc \<noteq> None \<or> has_finalizer S thc
             \<or> c = Update (KTHC (with_finalizer S thc)) \<and> length v = 1))"

text \<open>
  C13. Finalizer first: apart from reading the configuration, a reconciliation makes a call only if
  the configuration it read is being deleted or carries the finalizer; otherwise its one and only
  other call is the update that adds the finalizer. So nothing is created that a later deletion
  would not clean up.
\<close>

theorem finalizer_first:
  "\<exists>u. snd (run_state (thc_Reconcile S R e reqNs reqName) t) = t @ u \<and> guarded (finalizer_guard S reqNs reqName) u"
proof -
  let ?get = "\<lambda>thc. (Get Cached ThcKind reqNs reqName, RObj (KTHC thc))"
  have rest: "guarded (\<lambda>v. finalizer_guard S reqNs reqName (?get thc # v)) u"
    if "om_deletion thc \<noteq> None \<or> has_finalizer S thc" for thc u
    using that by (intro guarded_all) (auto simp: finalizer_guard_def)
  have "spec (thc_Reconcile S R e reqNs reqName) (\<lambda>_ u. guarded (finalizer_guard S reqNs reqName) u)"
    unfolding thc_Reconcile_def
    by (intro spec_bind spec_api_get spec_sum spec_ret spec_if spec_api_do
        spec_conseq [OF handleDeletion_ok] spec_conseq [OF reconcile_live_ok])
      (auto simp: as_thc_Inr rest finalizer_guard_def)
  then show ?thesis unfolding spec_def by blast
qed

end
