(* ===== verification/Config_Schema.thy ===== *)
theory Config_Schema
  imports Reconciler Run_Alerts
begin

text \<open>
  The validation rules that \<open>api/v1alpha1/telcohealthcheck_types.go\<close> attaches to the configuration
  (\<open>+kubebuilder:validation\<close> and \<open>+kubebuilder:default\<close> markers, with rules in CEL). The API server
  applies them to what a user writes; the controller checks the same conditions again when it runs.
  The theorems compare the two.
\<close>

section \<open>The schedule as it is written\<close>

text \<open>
  In the stored form the two checks may be absent (\<open>has(self.rdsCompliance)\<close>); the decoder then
  leaves the zero value. Durations are already parsed.
\<close>

record written_schedule =
  ws_period :: duration
  ws_minJitter :: "duration option"
  ws_maxJitter :: "duration option"
  ws_rdsCompliance :: "rdsComplianceSpec option"
  ws_lowLatencyCheck :: "lowLatencyCheckSpec option"

definition zero_rds :: rdsComplianceSpec where
  "zero_rds = \<lparr>rds_period = None, rds_enabled = False, rds_minJitter = None, rds_maxJitter = None\<rparr>"
definition zero_lowLatency :: lowLatencyCheckSpec where
  "zero_lowLatency = \<lparr>ll_period = None, ll_enabled = False, ll_minJitter = None, ll_maxJitter = None\<rparr>"

definition decode_schedule :: "written_schedule \<Rightarrow> periodicHealthChecksSpec" where
  "decode_schedule w = \<lparr>ph_period = ws_period w, ph_minJitter = ws_minJitter w, ph_maxJitter = ws_maxJitter w,
     ph_rdsCompliance = from_opt zero_rds (ws_rdsCompliance w),
     ph_lowLatencyCheck = from_opt zero_lowLatency (ws_lowLatencyCheck w)\<rparr>"

section \<open>The rules\<close>

text \<open>\<open>duration(self) >= duration('0s')\<close>, on a field that is present.\<close>

definition non_negative :: "duration option \<Rightarrow> bool" where
  "non_negative d = (case d of None \<Rightarrow> True | Some x \<Rightarrow> x \<ge> 0)"

text \<open>The rules of \<open>RDSComplianceSpec\<close> and \<open>LowLatencyCheckSpec\<close>.\<close>

definition rds_rules :: "rdsComplianceSpec \<Rightarrow> bool" where
  "rds_rules r \<longleftrightarrow> non_negative (rds_minJitter r) \<and> non_negative (rds_maxJitter r)"

definition lowLatency_rules :: "lowLatencyCheckSpec \<Rightarrow> bool" where
  "lowLatency_rules r \<longleftrightarrow> non_negative (ll_minJitter r) \<and> non_negative (ll_maxJitter r)"

text \<open>\<open>has(self.x) ? self.x : d\<close>.\<close>

definition has_or :: "duration option \<Rightarrow> duration \<Rightarrow> duration" where
  "has_or x d = (case x of None \<Rightarrow> d | Some y \<Rightarrow> y)"

definition schedule_rules :: "written_schedule \<Rightarrow> bool" where
  "schedule_rules w \<longleftrightarrow>
     non_negative (ws_minJitter w) \<and> non_negative (ws_maxJitter w)
     \<and> has_or (ws_minJitter w) (30 * second) \<le> has_or (ws_maxJitter w) (5 * minute)
     \<and> (case ws_rdsCompliance w of None \<Rightarrow> True | Some r \<Rightarrow> rds_rules r
          \<and> has_or (rds_minJitter r) (has_or (ws_minJitter w) (30 * second))
              \<le> has_or (rds_maxJitter r) (has_or (ws_maxJitter w) (5 * minute)))
     \<and> (case ws_lowLatencyCheck w of None \<Rightarrow> True | Some r \<Rightarrow> lowLatency_rules r
          \<and> has_or (ll_minJitter r) (has_or (ws_minJitter w) (30 * second))
              \<le> has_or (ll_maxJitter r) (has_or (ws_maxJitter w) (5 * minute)))"

text \<open>The rules on the Alertmanager, after the default of \<open>authType\<close> was filled in.\<close>

definition default_authType :: "alertManagerSpec \<Rightarrow> alertManagerSpec" where
  "default_authType c = (if am_authType c = '''' then c\<lparr>am_authType := ''none''\<rparr> else c)"

definition alertManager_rules :: "alertManagerSpec \<Rightarrow> bool" where
  "alertManager_rules c \<longleftrightarrow> am_url c \<noteq> '''' \<and> am_authType c \<in> {''none'', ''bearer'', ''basic''}
     \<and> (case am_credentialsSecret c of None \<Rightarrow> True | Some s \<Rightarrow> cs_name s \<noteq> '''')
     \<and> (am_authType c = ''none'') = (am_credentialsSecret c = None)"

text \<open>The rule on the selection of clusters.\<close>

definition clusters_rules :: "managedClustersSpec \<Rightarrow> bool" where
  "clusters_rules m \<longleftrightarrow> \<not> (length (mc_include m) > 0 \<and> length (mc_exclude m) > 0)"

section \<open>The schedule is checked twice, with one outcome\<close>

text \<open>What the controller makes of the jitter windows of the configured checks.\<close>

definition window_of :: "periodicHealthChecksSpec \<Rightarrow> periodicCheck \<Rightarrow> gerr + duration \<times> duration" where
  "window_of p check = resolvePeriodicJitter p (pc_name check) (pc_minJitter check) (pc_maxJitter check)"

definition with_schedule :: "periodicHealthChecksSpec \<Rightarrow> telcoHealthcheck \<Rightarrow> telcoHealthcheck" where
  "with_schedule p thc = thc\<lparr>thc_spec := (thc_spec thc)\<lparr>sp_periodic := p\<rparr>\<rparr>"

definition windows_accepted :: "telcoHealthcheck \<Rightarrow> bool" where
  "windows_accepted thc \<longleftrightarrow> list_all (\<lambda>check. case window_of (sp_periodic (thc_spec thc)) check of
       Inl er \<Rightarrow> False
     | Inr (mn, mx) \<Rightarrow> 0 \<le> mn \<and> mn \<le> mx) (configuredPeriodicChecks thc)"

lemma resolve_accepts:
  "(case resolvePeriodicJitter p name mn mx of Inl er \<Rightarrow> False | Inr (a, b) \<Rightarrow> 0 \<le> a \<and> a \<le> b) \<longleftrightarrow>
     0 \<le> from_opt (30 * second) (ph_minJitter p)
     \<and> from_opt (30 * second) (ph_minJitter p) \<le> from_opt (5 * minute) (ph_maxJitter p)
     \<and> 0 \<le> from_opt (from_opt (30 * second) (ph_minJitter p)) mn
     \<and> from_opt (from_opt (30 * second) (ph_minJitter p)) mn \<le> from_opt (from_opt (5 * minute) (ph_maxJitter p)) mx"
  by (auto simp: resolvePeriodicJitter_def Let_def)

text \<open>
  C33. The schema and the controller agree on the jitter windows: a schedule passes the CEL rules of
  the custom resource exactly if the controller finds a window from a non-negative minimum to a
  maximum that is not smaller for both checks, the defaults and the overrides included. So an
  admitted configuration never makes a pass fail on its windows, and the rules reject none that
  would work.
\<close>

theorem schedule_rules_exact:
  "schedule_rules w = windows_accepted (with_schedule (decode_schedule w) thc)"
proof -
  have "(0::int) \<le> 30 * second" "30 * second \<le> 5 * minute" "0 \<le> 5 * minute"
    by simp_all
  then show ?thesis
    unfolding windows_accepted_def window_of_def configuredPeriodicChecks_def Let_def list.pred_inject periodicCheck.simps resolve_accepts
    by (cases "ws_minJitter w"; cases "ws_maxJitter w"; cases "ws_rdsCompliance w"; cases "ws_lowLatencyCheck w")
      (auto simp: schedule_rules_def with_schedule_def decode_schedule_def zero_rds_def zero_lowLatency_def
        rds_rules_def lowLatency_rules_def non_negative_def has_or_def from_opt_def split: option.splits)
qed

section \<open>Credentials\<close>

text \<open>A Secret that holds what the way of authentication reads.\<close>

definition complete_secret :: "string \<Rightarrow> secret \<Rightarrow> bool" where
  "complete_secret authType s \<longleftrightarrow>
     (if authType = ''bearer'' then data_get (sec_data s) ''token'' \<noteq> ''''
      else data_get (sec_data s) ''username'' \<noteq> '''' \<and> CHR '':'' \<notin> set (data_get (sec_data s) ''username'')
        \<and> data_get (sec_data s) ''password'' \<noteq> '''')"

lemma secret_authorization_complete:
  assumes "authType = ''bearer'' \<or> authType = ''basic''"
  shows "(case secret_authorization authType ns name s of
      Inl er \<Rightarrow> \<not> complete_secret authType s
    | Inr h \<Rightarrow> h \<noteq> None \<and> complete_secret authType s)"
  using assms by (auto simp: secret_authorization_def complete_secret_def Let_def AlertManagerAuthBearer_def)

text \<open>
  C34. With a configuration that the schema admits, authorization fails for two reasons only: the
  address is not HTTPS, or the named Secret cannot be read or lacks what it has to hold. Without
  authentication nothing is read; with it a header is produced exactly if the one Secret that is
  read is complete. The other errors of the code (an unknown type, a missing or a superfluous
  Secret) do not occur.
\<close>

theorem admitted_authorization:
  assumes "alertManager_rules config"
  shows "case run_state (authorize e ns reqURL config) t of (x, t') \<Rightarrow>
     (if am_authType config = ''none'' then x = Inr None \<and> t' = t
      else if url_scheme reqURL \<noteq> ''https'' then x = Inl (Msg ''Alertmanager authentication requires HTTPS'') \<and> t' = t
      else (case am_credentialsSecret config of
          None \<Rightarrow> False
        | Some cs \<Rightarrow> \<exists>g. t' = t @ [(Get Live SecretKind ns (cs_name cs), g)]
            \<and> (case as_secret g of
                 Inl er \<Rightarrow> x = Inl (Wrap (''reading Alertmanager credentials Secret '' @ ns @ ''/'' @ cs_name cs) er)
               | Inr s \<Rightarrow> (case x of
                     Inl er \<Rightarrow> \<not> complete_secret (am_authType config) s
                   | Inr h \<Rightarrow> h \<noteq> None \<and> complete_secret (am_authType config) s))))"
proof -
  note auth = AlertManagerAuthNone_def AlertManagerAuthBearer_def AlertManagerAuthBasic_def
  consider (none) "am_authType config = ''none''" "am_credentialsSecret config = None"
    | (some) cs where "am_authType config \<noteq> ''none''" "am_credentialsSecret config = Some cs" "cs_name cs \<noteq> ''''"
        "am_authType config = ''bearer'' \<or> am_authType config = ''basic''"
    using assms by (auto simp: alertManager_rules_def split: option.splits)
  then show ?thesis
  proof cases
    case none
    then show ?thesis by (simp add: authorize_def auth)
  next
    case some
    then have name: "am_authType config \<noteq> ''''" by auto
    let ?g = "e t (Get Live SecretKind ns (cs_name cs))"
    have "run_state (authorize e ns reqURL config) t =
        (if url_scheme reqURL \<noteq> ''https'' then (Inl (Msg ''Alertmanager authentication requires HTTPS''), t)
         else (case as_secret ?g of
             Inl er \<Rightarrow> Inl (Wrap (''reading Alertmanager credentials Secret '' @ ns @ ''/'' @ cs_name cs) er)
           | Inr s \<Rightarrow> secret_authorization (am_authType config) ns (cs_name cs) s,
           t @ [(Get Live SecretKind ns (cs_name cs), ?g)]))"
      using some name by (auto simp: authorize_def Let_def auth io_run)
    with some secret_authorization_complete [OF some(4)] show ?thesis
      by (auto split: sum.splits)
  qed
qed

definition sample_bearer :: alertManagerSpec where
  "sample_bearer = \<lparr>am_url = ''https://am.example'', am_authType = ''bearer'',
     am_credentialsSecret = Some \<lparr>cs_name = ''am-token''\<rparr>\<rparr>"

definition sample_url :: go_url where
  "sample_url = \<lparr>url_scheme = ''http'', url_host = ''am.example'', url_user = False, url_rawQuery = '''',
     url_fragment = '''', url_opaque = ''''\<rparr>"

theorem admitted_authorization_witness:
  "fst (run_state (authorize (\<lambda>t c. RErr (ApiErr NotFound)) ''ns'' sample_url sample_bearer) [])
     = Inl (Msg ''Alertmanager authentication requires HTTPS'')"
proof -
  have "alertManager_rules sample_bearer" by (simp add: alertManager_rules_def sample_bearer_def)
  from admitted_authorization [OF this, where e = "\<lambda>t c. RErr (ApiErr NotFound)" and ns = "''ns''"
      and reqURL = sample_url and t = "[]"]
  show ?thesis by (simp add: sample_bearer_def sample_url_def split_beta)
qed

text \<open>The code treats a missing way of authentication as the schema's default does.\<close>

lemma authorize_default: "authorize e ns reqURL (default_authType c) = authorize e ns reqURL c"
  by (auto simp: default_authType_def authorize_def Let_def AlertManagerAuthNone_def AlertManagerAuthBearer_def
      AlertManagerAuthBasic_def)

section \<open>Clusters\<close>

text \<open>
  With an admitted selection the precedence of the include list never hides an exclusion: the
  monitored clusters are those that both lists leave.
\<close>

theorem admitted_selection:
  assumes "clusters_rules m"
  shows "select_clusters m clusters =
     filter (\<lambda>n. n \<notin> set (mc_exclude m) \<and> (mc_include m = [] \<or> n \<in> set (mc_include m))) (map om_name clusters)"
  using assms by (auto simp: select_clusters_filter clusters_rules_def intro!: filter_cong)

section \<open>Periods\<close>

text \<open>
  No rule looks at a period, and the controller only treats a global period of zero as special. An
  override of zero or less is admitted, and a check with it is due again whenever its last run is
  not in the future: every reconciliation, also the one that its own status claim causes, starts
  its runs again.
\<close>

lemma periods_unconstrained:
  "schedule_rules (w\<lparr>ws_period := p\<rparr>) = schedule_rules w"
  "rds_rules (r\<lparr>rds_period := q\<rparr>) = rds_rules r" "lowLatency_rules (l\<lparr>ll_period := q\<rparr>) = lowLatency_rules l"
  by (simp_all add: schedule_rules_def rds_rules_def lowLatency_rules_def cong: option.case_cong)

lemma always_due:
  assumes "period \<le> 0" "lastRun \<le> as_time (e t Now)"
  shows "fst (run_state (shouldRunCheck e (Some lastRun) period) t)"
  using assms by (simp add: shouldRunCheck_def time_sub_def now_def del: as_time_def)

end
