(* ===== verification/Go_Heap.thy ===== *)
theory Go_Heap
  imports Hub_Client "HOL-Library.Sublist"
begin

text \<open>
  A store for the pointers and slices behind the API types, and what it means for a routine to make
  a deep copy. Everywhere else the development works with values; here objects hold addresses, so
  that two of them can share memory, and copying routines can be wrong.
\<close>

section \<open>Pointers and slices\<close>

type_synonym ref = "nat option"  \<comment> \<open>\<open>None\<close> is the nil pointer\<close>

text \<open>A slice that is not nil: a window of a backing array. What follows it in the array is its capacity.\<close>

record slice =
  sl_base :: nat
  sl_off :: nat
  sl_len :: nat

text \<open>
  A heap is the list of its cells, and an address an index into it. Allocation appends a cell, so
  the cells of a later heap are those of the earlier one, possibly overwritten, and new ones.
\<close>

type_synonym ('c, 'a) hp = "('c list, 'a) state"

definition alloc :: "'c \<Rightarrow> ('c, nat) hp" where
  "alloc c = State (\<lambda>h. (length h, h @ [c]))"

definition load :: "nat \<Rightarrow> ('c, 'c option) hp" where
  "load a = State (\<lambda>h. (if a < length h then Some (h ! a) else None, h))"

definition store :: "nat \<Rightarrow> 'c \<Rightarrow> ('c, unit) hp" where
  "store a c = State (\<lambda>h. ((), h[a := c]))"

abbreviation hret :: "'a \<Rightarrow> ('c, 'a) hp" where "hret \<equiv> State_Monad.return"

lemma run_heap [simp]:
  "run_state (alloc c) h = (length h, h @ [c])"
  "run_state (load a) h = (if a < length h then Some (h ! a) else None, h)"
  "run_state (store a c) h = ((), h[a := c])"
  by (simp_all add: alloc_def load_def store_def)

definition elements :: "slice \<Rightarrow> 'e list \<Rightarrow> 'e list" where
  "elements s arr = take (sl_len s) (drop (sl_off s) arr)"

section \<open>The two patterns of a generated copy\<close>

text \<open>
  A pointer: nil stays nil; otherwise a new object is made (\<open>new(T)\<close>) and filled from the old one.
  \<open>un\<close> and \<open>mk\<close> take a cell of the right type apart and make it.
\<close>

definition new_copy :: "('c \<Rightarrow> 'g option) \<Rightarrow> ('g \<Rightarrow> 'c) \<Rightarrow> ('g \<Rightarrow> ('c, 'g) hp) \<Rightarrow> ref \<Rightarrow> ('c, ref) hp" where
  "new_copy un mk into r =
     (case r of
        None \<Rightarrow> hret None
      | Some a \<Rightarrow> do {
          c \<leftarrow> load a;
          (case Option.bind c un of
             None \<Rightarrow> hret None
           | Some x \<Rightarrow> do { y \<leftarrow> into x; b \<leftarrow> alloc (mk y); hret (Some b) }) })"

text \<open>A slice: nil stays nil; otherwise a new array of its length is made and filled element by element.\<close>

fun copy_all :: "('e \<Rightarrow> ('c, 'e) hp) \<Rightarrow> 'e list \<Rightarrow> ('c, 'e list) hp" where
  "copy_all into [] = hret []"
| "copy_all into (x # xs) = do { y \<leftarrow> into x; ys \<leftarrow> copy_all into xs; hret (y # ys) }"

definition copy_slice ::
  "('c \<Rightarrow> 'e list option) \<Rightarrow> ('e list \<Rightarrow> 'c) \<Rightarrow> ('e \<Rightarrow> ('c, 'e) hp) \<Rightarrow> slice option \<Rightarrow> ('c, slice option) hp" where
  "copy_slice un mk into s =
     (case s of
        None \<Rightarrow> hret None
      | Some w \<Rightarrow> do {
          c \<leftarrow> load (sl_base w);
          (case Option.bind c un of
             None \<Rightarrow> hret None
           | Some arr \<Rightarrow> do {
               ys \<leftarrow> copy_all into (elements w arr);
               b \<leftarrow> alloc (mk ys);
               hret (Some \<lparr>sl_base = b, sl_off = 0, sl_len = length ys\<rparr>) }) })"

section \<open>What an object is worth\<close>

text \<open>
  An abstraction reads the value of an object off the heap, and fails if an address is dangling or
  of the wrong type. \<open>plain\<close> is the abstraction of objects without addresses.
\<close>

type_synonym ('c, 'g, 'v) abstraction = "'c list \<Rightarrow> 'g \<Rightarrow> 'v option"

definition plain :: "('c, 'g, 'g) abstraction" where "plain h x = Some x"

definition target :: "('c \<Rightarrow> 'g option) \<Rightarrow> 'c list \<Rightarrow> nat \<Rightarrow> 'g option" where
  "target un h a = (if a < length h then un (h ! a) else None)"

definition pointee :: "('c \<Rightarrow> 'g option) \<Rightarrow> ('c, 'g, 'v) abstraction \<Rightarrow> ('c, ref, 'v option) abstraction" where
  "pointee un A h r = (case r of
       None \<Rightarrow> Some None
     | Some a \<Rightarrow> (case target un h a of None \<Rightarrow> None | Some x \<Rightarrow> map_option Some (A h x)))"

definition contents :: "('c \<Rightarrow> 'e list option) \<Rightarrow> ('c, 'e, 'v) abstraction \<Rightarrow> ('c, slice option, 'v list) abstraction" where
  "contents un A h s = (case s of
       None \<Rightarrow> Some []
     | Some w \<Rightarrow> (case target un h (sl_base w) of
           None \<Rightarrow> None
         | Some arr \<Rightarrow> if sl_off w + sl_len w \<le> length arr then those (map (A h) (elements w arr)) else None))"

text \<open>New cells do not matter to an object that can be read.\<close>

definition stable_abs :: "('c, 'g, 'v) abstraction \<Rightarrow> bool" where
  "stable_abs A \<longleftrightarrow> (\<forall>h x v z. A h x = Some v \<longrightarrow> A (h @ z) x = Some v)"

named_theorems stable_abs \<comment> \<open>the abstractions that are stable\<close>

lemma stable_plain [stable_abs]: "stable_abs plain"
  by (simp add: stable_abs_def plain_def)

lemma target_append: "target un h a = Some x \<Longrightarrow> target un (h @ z) a = Some x"
  by (auto simp: target_def nth_append split: if_splits)

lemma those_map_mono:
  "those (map f xs) = Some vs \<Longrightarrow> (\<And>x v. x \<in> set xs \<Longrightarrow> f x = Some v \<Longrightarrow> g x = Some v) \<Longrightarrow> those (map g xs) = Some vs"
proof (induction xs arbitrary: vs)
  case (Cons x xs)
  then obtain v ws where "f x = Some v" "those (map f xs) = Some ws" "vs = v # ws"
    by (auto split: option.splits)
  with Cons.IH [OF this(2)] Cons.prems(2) show ?case by auto
qed simp

lemma stable_absD: "stable_abs A \<Longrightarrow> A h x = Some v \<Longrightarrow> A (h @ z) x = Some v"
  by (simp add: stable_abs_def)

lemma pointeeI: "target un h a = Some x \<Longrightarrow> A h x = Some v \<Longrightarrow> pointee un A h (Some a) = Some (Some v)"
  by (simp add: pointee_def)

lemma pointeeE:
  assumes "pointee un A h r = Some v"
  obtains "r = None" "v = None" | a x w where "r = Some a" "target un h a = Some x" "A h x = Some w" "v = Some w"
  using assms by (auto simp: pointee_def split: option.splits)

lemma contentsI:
  "target un h (sl_base w) = Some arr \<Longrightarrow> sl_off w + sl_len w \<le> length arr
   \<Longrightarrow> those (map (A h) (elements w arr)) = Some vs \<Longrightarrow> contents un A h (Some w) = Some vs"
  by (simp add: contents_def)

lemma contentsE:
  assumes "contents un A h s = Some vs"
  obtains "s = None" "vs = []"
  | w arr where "s = Some w" "target un h (sl_base w) = Some arr" "sl_off w + sl_len w \<le> length arr"
      "those (map (A h) (elements w arr)) = Some vs"
  using assms by (auto simp: contents_def split: option.splits if_splits)

lemma stable_pointee [stable_abs]: "stable_abs A \<Longrightarrow> stable_abs (pointee un A)"
  unfolding stable_abs_def [of "pointee un A"]
  by (auto elim!: pointeeE intro: pointeeI target_append stable_absD simp: pointee_def [of _ _ _ None])

lemma stable_contents [stable_abs]: "stable_abs A \<Longrightarrow> stable_abs (contents un A)"
  unfolding stable_abs_def [of "contents un A"]
  by (auto elim!: contentsE intro!: contentsI elim: those_map_mono dest: target_append stable_absD
      simp: contents_def [of _ _ _ None])

section \<open>Deep copies\<close>

text \<open>
  \<open>isolated A l n y v\<close>: the object \<open>y\<close> lives in the cells \<open>n\<close> that follow the first \<open>l\<close> cells. It is
  worth \<open>v\<close> whatever those first cells hold, and whatever comes after \<open>n\<close>.
\<close>

definition isolated :: "('c, 'g, 'v) abstraction \<Rightarrow> nat \<Rightarrow> 'c list \<Rightarrow> 'g \<Rightarrow> 'v \<Rightarrow> bool" where
  "isolated A l n y v \<longleftrightarrow> (\<forall>g z. length g = l \<longrightarrow> A (g @ n @ z) y = Some v)"

text \<open>
  \<open>adds l n m Q\<close>: a run of \<open>m\<close> on a heap of \<open>l\<close> old cells and the new ones \<open>n\<close> overwrites nothing; it
  only adds cells, and its result and all new cells satisfy \<open>Q\<close>.
\<close>

definition adds :: "'c list \<Rightarrow> 'c list \<Rightarrow> ('c, 'a) hp \<Rightarrow> ('c list \<Rightarrow> 'a \<Rightarrow> bool) \<Rightarrow> bool" where
  "adds h n m Q \<longleftrightarrow> (\<exists>k. snd (run_state m (h @ n)) = h @ n @ k \<and> Q (n @ k) (fst (run_state m (h @ n))))"

definition deep_copy :: "('c, 'g, 'v) abstraction \<Rightarrow> ('g \<Rightarrow> ('c, 'g) hp) \<Rightarrow> bool" where
  "deep_copy A C \<longleftrightarrow> (\<forall>h n x v. A (h @ n) x = Some v \<longrightarrow> adds h n (C x) (\<lambda>n' y. isolated A (length h) n' y v))"

lemma deep_copyD: "deep_copy A C \<Longrightarrow> A (h @ n) x = Some v \<Longrightarrow> adds h n (C x) (\<lambda>n' y. isolated A (length h) n' y v)"
  by (simp add: deep_copy_def)

lemma isolated_mono: "isolated A l n y v \<Longrightarrow> isolated A l (n @ k) y v"
  by (simp add: isolated_def)

lemma isolated_at: "isolated A l n y v \<Longrightarrow> prefix n n' \<Longrightarrow> length g = l \<Longrightarrow> A (g @ n' @ z) y = Some v"
  by (auto simp: isolated_def prefix_def)

lemma adds_ret: "Q n x \<Longrightarrow> adds h n (hret x) Q"
  by (simp add: adds_def)

lemma adds_alloc: "adds h n (alloc c) (\<lambda>n' b. n' = n @ [c] \<and> b = length h + length n)"
  by (simp add: adds_def)

lemma adds_bind:
  assumes "adds h n m Q" "\<And>n' y. prefix n n' \<Longrightarrow> Q n' y \<Longrightarrow> adds h n' (f y) R"
  shows "adds h n (State_Monad.bind m f) R"
proof -
  obtain k where k: "snd (run_state m (h @ n)) = h @ n @ k" "Q (n @ k) (fst (run_state m (h @ n)))"
    using assms(1) by (auto simp: adds_def)
  then have "adds h (n @ k) (f (fst (run_state m (h @ n)))) R" by (intro assms(2)) simp
  with k show ?thesis by (auto simp: adds_def split_beta)
qed

lemma adds_conseq: "adds h n m Q \<Longrightarrow> (\<And>n' y. prefix n n' \<Longrightarrow> Q n' y \<Longrightarrow> R n' y) \<Longrightarrow> adds h n m R"
  unfolding adds_def by fastforce

text \<open>Objects without addresses are copied by assignment.\<close>

lemma deep_plain: "deep_copy plain hret"
  by (simp add: deep_copy_def adds_ret isolated_def plain_def)

lemma target_new: "length g = l \<Longrightarrow> target un (g @ n @ c # z) (l + length n) = un c"
  by (simp add: target_def nth_append)

lemma target_load: "target un h a = Some x \<Longrightarrow> Option.bind (if a < length h then Some (h ! a) else None) un = Some x"
  by (auto simp: target_def split: if_splits)

lemma adds_load:
  "target un (h @ n) a = Some x \<Longrightarrow> adds h n (f x) Q
   \<Longrightarrow> adds h n (do { c \<leftarrow> load a; (case Option.bind c un of None \<Rightarrow> d | Some x \<Rightarrow> f x) }) Q"
  using target_load [of un "h @ n" a x] by (simp add: adds_def)

lemma deep_pointee:
  fixes un :: "'c \<Rightarrow> 'g option"
  assumes "\<And>x. un (mk x) = Some x" "deep_copy A into" "stable_abs A"
  shows "deep_copy (pointee un A) (new_copy un mk into)"
  unfolding deep_copy_def
proof (intro allI impI)
  fix h n r v assume "pointee un A (h @ n) r = Some v"
  then show "adds h n (new_copy un mk into r) (\<lambda>n' y. isolated (pointee un A) (length h) n' y v)"
  proof (cases rule: pointeeE)
    case 1
    then show ?thesis by (simp add: new_copy_def adds_ret isolated_def pointee_def)
  next
    case (2 a x w)
    have "adds h n (do { y \<leftarrow> into x; b \<leftarrow> alloc (mk y); hret (Some b) })
       (\<lambda>n' y. isolated (pointee un A) (length h) n' y v)"
    proof (rule adds_bind [OF deep_copyD [OF assms(2) 2(3)]], rule adds_bind [OF adds_alloc], rule adds_ret)
      fix n1 y n2 b
      assume y: "isolated A (length h) n1 y w" and b: "n2 = n1 @ [mk y] \<and> b = length h + length n1"
      show "isolated (pointee un A) (length h) n2 (Some b) v"
        unfolding isolated_def
      proof (intro allI impI)
        fix g z :: "'c list" assume g: "length g = length h"
        have "target un (g @ n2 @ z) b = Some y" using target_new [OF g, of un n1 "mk y" z] assms(1) b by simp
        moreover have "A (g @ n2 @ z) y = Some w" using isolated_at [OF y _ g, of n2] b by simp
        ultimately show "pointee un A (g @ n2 @ z) (Some b) = Some v" using 2(4) by (simp add: pointeeI)
      qed
    qed
    then show ?thesis
      unfolding new_copy_def 2(1) option.case
      by (rule adds_load [OF 2(2)])
  qed
qed

lemma copy_all_adds:
  fixes into :: "'e \<Rightarrow> ('c, 'e) hp"
  assumes "deep_copy A into" "stable_abs A"
  shows "those (map (A (h @ n)) xs) = Some vs \<Longrightarrow>
    adds h n (copy_all into xs) (\<lambda>n' ys. length ys = length xs
      \<and> (\<forall>g z. length g = length h \<longrightarrow> those (map (A (g @ n' @ z)) ys) = Some vs))"
proof (induction xs arbitrary: n vs)
  case Nil
  then show ?case by (simp add: adds_ret)
next
  case (Cons x xs)
  then obtain v ws where v: "A (h @ n) x = Some v" "those (map (A (h @ n)) xs) = Some ws" "vs = v # ws"
    by (auto split: option.splits)
  show ?case
    unfolding copy_all.simps
  proof (rule adds_bind [OF deep_copyD [OF assms(1) v(1)]])
    fix n1 y assume n1: "prefix n n1" and y: "isolated A (length h) n1 y v"
    then obtain k where k: "n1 = n @ k" by (auto simp: prefix_def)
    have "those (map (A (h @ n1)) xs) = Some ws"
      by (rule those_map_mono [OF v(2)]) (use stable_absD [OF assms(2), of "h @ n" _ _ k] k in simp)
    from Cons.IH [OF this]
    show "adds h n1 (do { ys \<leftarrow> copy_all into xs; hret (y # ys) }) (\<lambda>n' ys. length ys = length (x # xs)
      \<and> (\<forall>g z. length g = length h \<longrightarrow> those (map (A (g @ n' @ z)) ys) = Some vs))"
    proof (rule adds_bind, intro adds_ret conjI allI impI)
      fix n2 ys assume "prefix n1 n2" and ys: "length ys = length xs
        \<and> (\<forall>g z. length g = length h \<longrightarrow> those (map (A (g @ n2 @ z)) ys) = Some ws)"
      then show "length (y # ys) = length (x # xs)" by simp
      fix g z :: "'c list" assume "length g = length h"
      with isolated_at [OF y \<open>prefix n1 n2\<close>] ys v(3)
      show "those (map (A (g @ n2 @ z)) (y # ys)) = Some vs" by simp
    qed
  qed
qed

lemma deep_contents:
  fixes un :: "'c \<Rightarrow> 'e list option"
  assumes "\<And>xs. un (mk xs) = Some xs" "deep_copy A into" "stable_abs A"
  shows "deep_copy (contents un A) (copy_slice un mk into)"
  unfolding deep_copy_def
proof (intro allI impI)
  fix h n s vs assume "contents un A (h @ n) s = Some vs"
  then show "adds h n (copy_slice un mk into s) (\<lambda>n' y. isolated (contents un A) (length h) n' y vs)"
  proof (cases rule: contentsE)
    case 1
    then show ?thesis by (simp add: copy_slice_def adds_ret isolated_def contents_def)
  next
    case (2 w arr)
    have "adds h n (do { ys \<leftarrow> copy_all into (elements w arr); b \<leftarrow> alloc (mk ys);
          hret (Some \<lparr>sl_base = b, sl_off = 0, sl_len = length ys\<rparr>) })
       (\<lambda>n' y. isolated (contents un A) (length h) n' y vs)"
    proof (rule adds_bind [OF copy_all_adds [OF assms(2,3) 2(4)]], rule adds_bind [OF adds_alloc], rule adds_ret)
      fix n1 ys n2 b
      assume ys: "length ys = length (elements w arr)
          \<and> (\<forall>g z. length g = length h \<longrightarrow> those (map (A (g @ n1 @ z)) ys) = Some vs)"
        and b: "n2 = n1 @ [mk ys] \<and> b = length h + length n1"
      show "isolated (contents un A) (length h) n2 (Some \<lparr>sl_base = b, sl_off = 0, sl_len = length ys\<rparr>) vs"
        unfolding isolated_def
      proof (intro allI impI)
        fix g z :: "'c list" assume g: "length g = length h"
        have "target un (g @ n2 @ z) b = Some ys" using target_new [OF g, of un n1 "mk ys" z] assms(1) b by simp
        moreover have "those (map (A (g @ n2 @ z)) ys) = Some vs" using ys g b by simp
        ultimately show "contents un A (g @ n2 @ z) (Some \<lparr>sl_base = b, sl_off = 0, sl_len = length ys\<rparr>) = Some vs"
          by (intro contentsI) (auto simp: elements_def)
      qed
    qed
    then show ?thesis
      unfolding copy_slice_def 2(1) option.case
      by (rule adds_load [OF 2(2)])
  qed
qed

text \<open>What a deep copy of an object gives, stated over the whole run.\<close>

lemma deep_copy_run:
  assumes "deep_copy A C" "stable_abs A" "A h x = Some v" "run_state (C x) h = (y, h')"
  obtains n where "h' = h @ n" "isolated A (length h) n y v" "\<And>z. A (h @ z) x = Some v"
proof -
  have "adds h [] (C x) (\<lambda>n' y. isolated A (length h) n' y v)"
    by (rule deep_copyD [OF assms(1)]) (simp add: assms(3))
  then obtain k where "h' = h @ k" "isolated A (length h) k y v" using assms(4) by (auto simp: adds_def)
  then show ?thesis using that stable_absD [OF assms(2,3)] by blast
qed

section \<open>Structs\<close>

text \<open>
  A struct is read field by field. The abstractions that do so are stable, and a routine that
  assigns the struct and then copies its pointer fields one by one makes a deep copy.
\<close>

lemma stable_field: "stable_abs A \<Longrightarrow> stable_abs (\<lambda>h x. A h (f x))"
  by (simp add: stable_abs_def)

lemma stable_const: "stable_abs (\<lambda>h x. Some (f x))"
  by (simp add: stable_abs_def)

lemma stable_bind:
  "stable_abs A \<Longrightarrow> (\<And>a. stable_abs (B a)) \<Longrightarrow> stable_abs (\<lambda>h x. Option.bind (A h x) (\<lambda>a. B a h x))"
  by (auto simp: stable_abs_def Option.bind_eq_Some_conv)

lemmas stable_struct = stable_bind stable_const stable_field [OF stable_pointee] stable_field [OF stable_contents]

lemma keep: "stable_abs A \<Longrightarrow> A (h @ n) y = Some v \<Longrightarrow> A (h @ n @ z) y = Some v"
  using stable_absD [of A "h @ n"] by simp

lemma copy_field:
  assumes "deep_copy A C" "A (h @ n) y = Some v"
    and "\<And>k p. (\<forall>g z. length g = length h \<longrightarrow> A (g @ n @ k @ z) p = Some v) \<Longrightarrow> adds h (n @ k) (f p) Q"
  shows "adds h n (State_Monad.bind (C y) f) Q"
proof (rule adds_bind [OF deep_copyD [OF assms(1,2)]])
  fix n' p assume "prefix n n'" and p: "isolated A (length h) n' p v"
  then obtain k where "n' = n @ k" by (auto simp: prefix_def)
  with p show "adds h n' (f p) Q" by (auto simp: isolated_def intro: assms(3))
qed

end
