(* ===== verification/Deep_Copy.thy ===== *)
theory Deep_Copy
  imports Go_Heap Run_Alerts
begin

text \<open>
  The deep copies of the API types, \<open>api/v1alpha1/zz_generated.deepcopy.go\<close>, over the structs as they
  lie in memory. The rest of the development takes \<open>DeepCopy\<close> for the identity on values; this theory
  proves that it is, and that an object and its copy share no memory, for which the record
  reconciler relies on it when it keeps the state \<open>before\<close> a change as the base of a patch.
\<close>

section \<open>The structs with their pointers and slices\<close>

record p_managedClustersSpec =
  pmc_include :: "slice option"
  pmc_exclude :: "slice option"

record p_rdsComplianceSpec =
  prds_period :: ref
  prds_enabled :: bool
  prds_minJitter :: ref
  prds_maxJitter :: ref

record p_lowLatencyCheckSpec =
  pll_period :: ref
  pll_enabled :: bool
  pll_minJitter :: ref
  pll_maxJitter :: ref

record p_periodicHealthChecksSpec =
  pph_period :: duration
  pph_minJitter :: ref
  pph_maxJitter :: ref
  pph_rdsCompliance :: p_rdsComplianceSpec
  pph_lowLatencyCheck :: p_lowLatencyCheckSpec

record p_alertManagerSpec =
  pam_url :: string
  pam_authType :: string
  pam_credentialsSecret :: ref

record p_telcoHealthcheckSpec =
  psp_alertManager :: ref
  psp_managedClusters :: p_managedClustersSpec
  psp_managedNamespaces :: "slice option"
  psp_alerts :: alertsSpec
  psp_periodic :: p_periodicHealthChecksSpec
  psp_logLevel :: string
  psp_purgeInterval :: ref

text \<open>\<open>metav1.Condition\<close> and \<open>metav1.TypeMeta\<close> hold no address.\<close>

record condition =
  cond_type :: string
  cond_status :: string
  cond_observedGeneration :: int
  cond_lastTransitionTime :: instant
  cond_reason :: string
  cond_message :: string

type_synonym type_meta = "string \<times> string"

record p_telcoHealthcheckStatus =
  pst_conditions :: "slice option"
  pst_monitoredClusters :: "slice option"
  pst_lastPeriodicRunTime :: ref
  pst_lastRDSComplianceRunTime :: ref
  pst_lastLowLatencyCheckRunTime :: ref

record p_objectMeta =
  pom_name :: string
  pom_namespace :: string
  pom_uid :: string
  pom_resourceVersion :: string
  pom_labels :: ref
  pom_annotations :: ref
  pom_finalizers :: "slice option"
  pom_owners :: "slice option"
  pom_creation :: "instant option"
  pom_deletion :: ref

record p_listMeta =
  plm_resourceVersion :: string
  plm_continue :: string
  plm_remainingItemCount :: ref

record p_telcoHealthcheck =
  pthc_type :: type_meta
  pthc_meta :: p_objectMeta
  pthc_spec :: p_telcoHealthcheckSpec
  pthc_status :: p_telcoHealthcheckStatus

record p_telcoHealthcheckList =
  pthcs_type :: type_meta
  pthcs_meta :: p_listMeta
  pthcs_items :: "slice option"

record p_alertNotification =
  pan_firing :: bool
  pan_startsAt :: instant
  pan_endsAt :: ref
  pan_summary :: string

record p_telcoHealthCheckRunStatus =
  prr_agenticRunName :: string
  prr_clusterName :: string
  prr_triggeredBy :: string
  prr_trigger :: string
  prr_agenticRunStatus :: ref
  prr_actionRequired :: string
  prr_notifications :: "slice option"
  prr_alertStartsAt :: ref
  prr_lastAlertSentTime :: ref

record p_telcoHealthCheckRun =
  prec_type :: type_meta
  prec_meta :: p_objectMeta
  prec_spec :: unit
  prec_status :: p_telcoHealthCheckRunStatus

record p_telcoHealthCheckRunList =
  precs_type :: type_meta
  precs_meta :: p_listMeta
  precs_items :: "slice option"

text \<open>What a cell of memory can hold: the target of a pointer, or the backing array of a slice.\<close>

datatype cell =
    CDuration duration | CTime instant | CInt int | CMap smap
  | CStrings "string list" | COwners "owner_ref list" | CConditions "condition list"
  | CRunStatus agenticRunStatus | CSecretRef alertManagerCredentialsSecret | CAlertManager p_alertManagerSpec
  | CNotification p_alertNotification | CNotifications "p_alertNotification list"
  | CAlerts alertsSpec | CLowLatency p_lowLatencyCheckSpec | CClusters p_managedClustersSpec
  | CPeriodic p_periodicHealthChecksSpec | CRDS p_rdsComplianceSpec
  | CRecord p_telcoHealthCheckRun | CRecords "p_telcoHealthCheckRun list" | CRecordList p_telcoHealthCheckRunList
  | CRunSpec unit | CRecordStatus p_telcoHealthCheckRunStatus
  | CTHC p_telcoHealthcheck | CTHCs "p_telcoHealthcheck list" | CTHCList p_telcoHealthcheckList
  | CSpec p_telcoHealthcheckSpec | CStatus p_telcoHealthcheckStatus

type_synonym heap = "cell list"

text \<open>The content of a cell of the expected type.\<close>

fun un_duration :: "cell \<Rightarrow> duration option" where "un_duration (CDuration x) = Some x" | "un_duration c = None"
fun un_time :: "cell \<Rightarrow> instant option" where "un_time (CTime x) = Some x" | "un_time c = None"
fun un_int :: "cell \<Rightarrow> int option" where "un_int (CInt x) = Some x" | "un_int c = None"
fun un_map :: "cell \<Rightarrow> smap option" where "un_map (CMap x) = Some x" | "un_map c = None"
fun un_strings :: "cell \<Rightarrow> (string list) option" where "un_strings (CStrings x) = Some x" | "un_strings c = None"
fun un_owners :: "cell \<Rightarrow> (owner_ref list) option" where "un_owners (COwners x) = Some x" | "un_owners c = None"
fun un_conditions :: "cell \<Rightarrow> (condition list) option" where "un_conditions (CConditions x) = Some x" | "un_conditions c = None"
fun un_runStatus :: "cell \<Rightarrow> agenticRunStatus option" where "un_runStatus (CRunStatus x) = Some x" | "un_runStatus c = None"
fun un_secretRef :: "cell \<Rightarrow> alertManagerCredentialsSecret option" where "un_secretRef (CSecretRef x) = Some x" | "un_secretRef c = None"
fun un_alertManager :: "cell \<Rightarrow> p_alertManagerSpec option" where "un_alertManager (CAlertManager x) = Some x" | "un_alertManager c = None"
fun un_notification :: "cell \<Rightarrow> p_alertNotification option" where "un_notification (CNotification x) = Some x" | "un_notification c = None"
fun un_notifications :: "cell \<Rightarrow> (p_alertNotification list) option" where "un_notifications (CNotifications x) = Some x" | "un_notifications c = None"
fun un_alerts :: "cell \<Rightarrow> alertsSpec option" where "un_alerts (CAlerts x) = Some x" | "un_alerts c = None"
fun un_lowLatency :: "cell \<Rightarrow> p_lowLatencyCheckSpec option" where "un_lowLatency (CLowLatency x) = Some x" | "un_lowLatency c = None"
fun un_clusters :: "cell \<Rightarrow> p_managedClustersSpec option" where "un_clusters (CClusters x) = Some x" | "un_clusters c = None"
fun un_periodic :: "cell \<Rightarrow> p_periodicHealthChecksSpec option" where "un_periodic (CPeriodic x) = Some x" | "un_periodic c = None"
fun un_rds :: "cell \<Rightarrow> p_rdsComplianceSpec option" where "un_rds (CRDS x) = Some x" | "un_rds c = None"
fun un_record :: "cell \<Rightarrow> p_telcoHealthCheckRun option" where "un_record (CRecord x) = Some x" | "un_record c = None"
fun un_records :: "cell \<Rightarrow> (p_telcoHealthCheckRun list) option" where "un_records (CRecords x) = Some x" | "un_records c = None"
fun un_recordList :: "cell \<Rightarrow> p_telcoHealthCheckRunList option" where "un_recordList (CRecordList x) = Some x" | "un_recordList c = None"
fun un_runSpec :: "cell \<Rightarrow> unit option" where "un_runSpec (CRunSpec x) = Some x" | "un_runSpec c = None"
fun un_recordStatus :: "cell \<Rightarrow> p_telcoHealthCheckRunStatus option" where "un_recordStatus (CRecordStatus x) = Some x" | "un_recordStatus c = None"
fun un_thc :: "cell \<Rightarrow> p_telcoHealthcheck option" where "un_thc (CTHC x) = Some x" | "un_thc c = None"
fun un_thcs :: "cell \<Rightarrow> (p_telcoHealthcheck list) option" where "un_thcs (CTHCs x) = Some x" | "un_thcs c = None"
fun un_thcList :: "cell \<Rightarrow> p_telcoHealthcheckList option" where "un_thcList (CTHCList x) = Some x" | "un_thcList c = None"
fun un_spec :: "cell \<Rightarrow> p_telcoHealthcheckSpec option" where "un_spec (CSpec x) = Some x" | "un_spec c = None"
fun un_status :: "cell \<Rightarrow> p_telcoHealthcheckStatus option" where "un_status (CStatus x) = Some x" | "un_status c = None"

section \<open>The values of the structs\<close>

definition abs_managedClusters :: "heap \<Rightarrow> p_managedClustersSpec \<Rightarrow> managedClustersSpec option" where
  "abs_managedClusters h x = do {
     a \<leftarrow> contents un_strings plain h (pmc_include x);
     b \<leftarrow> contents un_strings plain h (pmc_exclude x);
     Some \<lparr>mc_include = a, mc_exclude = b\<rparr> }"

definition abs_rds :: "heap \<Rightarrow> p_rdsComplianceSpec \<Rightarrow> rdsComplianceSpec option" where
  "abs_rds h x = do {
     p \<leftarrow> pointee un_duration plain h (prds_period x);
     a \<leftarrow> pointee un_duration plain h (prds_minJitter x);
     b \<leftarrow> pointee un_duration plain h (prds_maxJitter x);
     Some \<lparr>rds_period = p, rds_enabled = prds_enabled x, rds_minJitter = a, rds_maxJitter = b\<rparr> }"

definition abs_lowLatency :: "heap \<Rightarrow> p_lowLatencyCheckSpec \<Rightarrow> lowLatencyCheckSpec option" where
  "abs_lowLatency h x = do {
     p \<leftarrow> pointee un_duration plain h (pll_period x);
     a \<leftarrow> pointee un_duration plain h (pll_minJitter x);
     b \<leftarrow> pointee un_duration plain h (pll_maxJitter x);
     Some \<lparr>ll_period = p, ll_enabled = pll_enabled x, ll_minJitter = a, ll_maxJitter = b\<rparr> }"

definition abs_periodic :: "heap \<Rightarrow> p_periodicHealthChecksSpec \<Rightarrow> periodicHealthChecksSpec option" where
  "abs_periodic h x = do {
     a \<leftarrow> pointee un_duration plain h (pph_minJitter x);
     b \<leftarrow> pointee un_duration plain h (pph_maxJitter x);
     r \<leftarrow> abs_rds h (pph_rdsCompliance x);
     l \<leftarrow> abs_lowLatency h (pph_lowLatencyCheck x);
     Some \<lparr>ph_period = pph_period x, ph_minJitter = a, ph_maxJitter = b, ph_rdsCompliance = r,
       ph_lowLatencyCheck = l\<rparr> }"

definition abs_alertManager :: "heap \<Rightarrow> p_alertManagerSpec \<Rightarrow> alertManagerSpec option" where
  "abs_alertManager h x = do {
     s \<leftarrow> pointee un_secretRef plain h (pam_credentialsSecret x);
     Some \<lparr>am_url = pam_url x, am_authType = pam_authType x, am_credentialsSecret = s\<rparr> }"

definition abs_spec :: "heap \<Rightarrow> p_telcoHealthcheckSpec \<Rightarrow> telcoHealthcheckSpec option" where
  "abs_spec h x = do {
     a \<leftarrow> pointee un_alertManager abs_alertManager h (psp_alertManager x);
     m \<leftarrow> abs_managedClusters h (psp_managedClusters x);
     n \<leftarrow> contents un_strings plain h (psp_managedNamespaces x);
     p \<leftarrow> abs_periodic h (psp_periodic x);
     d \<leftarrow> pointee un_duration plain h (psp_purgeInterval x);
     Some \<lparr>sp_alertManager = a, sp_managedClusters = m, sp_managedNamespaces = n, sp_alerts = psp_alerts x,
       sp_periodic = p, sp_logLevel = psp_logLevel x, sp_purgeInterval = d\<rparr> }"

text \<open>The conditions are not part of the model's status; their value is kept beside it.\<close>

definition abs_status :: "heap \<Rightarrow> p_telcoHealthcheckStatus \<Rightarrow> (condition list \<times> telcoHealthcheckStatus) option" where
  "abs_status h x = do {
     c \<leftarrow> contents un_conditions plain h (pst_conditions x);
     m \<leftarrow> contents un_strings plain h (pst_monitoredClusters x);
     a \<leftarrow> pointee un_time plain h (pst_lastPeriodicRunTime x);
     b \<leftarrow> pointee un_time plain h (pst_lastRDSComplianceRunTime x);
     l \<leftarrow> pointee un_time plain h (pst_lastLowLatencyCheckRunTime x);
     Some (c, \<lparr>st_monitoredClusters = m, st_lastPeriodicRunTime = a, st_lastRDSComplianceRunTime = b,
       st_lastLowLatencyCheckRunTime = l\<rparr>) }"

definition map_value :: "smap option \<Rightarrow> smap" where
  "map_value m = (case m of None \<Rightarrow> Map.empty | Some x \<Rightarrow> x)"

definition abs_objectMeta :: "heap \<Rightarrow> p_objectMeta \<Rightarrow> object_meta option" where
  "abs_objectMeta h x = do {
     l \<leftarrow> pointee un_map plain h (pom_labels x);
     a \<leftarrow> pointee un_map plain h (pom_annotations x);
     f \<leftarrow> contents un_strings plain h (pom_finalizers x);
     w \<leftarrow> contents un_owners plain h (pom_owners x);
     d \<leftarrow> pointee un_time plain h (pom_deletion x);
     Some \<lparr>om_name = pom_name x, om_namespace = pom_namespace x, om_uid = pom_uid x,
       om_resourceVersion = pom_resourceVersion x, om_labels = map_value l, om_annotations = map_value a,
       om_finalizers = f, om_owners = w, om_creation = pom_creation x, om_deletion = d\<rparr> }"

definition abs_listMeta :: "heap \<Rightarrow> p_listMeta \<Rightarrow> (string \<times> string \<times> int option) option" where
  "abs_listMeta h x = do {
     r \<leftarrow> pointee un_int plain h (plm_remainingItemCount x);
     Some (plm_resourceVersion x, plm_continue x, r) }"

definition abs_thc :: "heap \<Rightarrow> p_telcoHealthcheck \<Rightarrow> (type_meta \<times> condition list \<times> telcoHealthcheck) option" where
  "abs_thc h x = do {
     m \<leftarrow> abs_objectMeta h (pthc_meta x);
     sp \<leftarrow> abs_spec h (pthc_spec x);
     st \<leftarrow> abs_status h (pthc_status x);
     Some (pthc_type x, fst st, object_meta.extend m (telcoHealthcheck.fields sp (snd st))) }"

definition abs_thcList where
  "abs_thcList h x = do {
     m \<leftarrow> abs_listMeta h (pthcs_meta x);
     i \<leftarrow> contents un_thcs abs_thc h (pthcs_items x);
     Some (pthcs_type x, m, i) }"

definition abs_notification :: "heap \<Rightarrow> p_alertNotification \<Rightarrow> alertNotification option" where
  "abs_notification h x = do {
     e \<leftarrow> pointee un_time plain h (pan_endsAt x);
     Some \<lparr>an_firing = pan_firing x, an_startsAt = pan_startsAt x, an_endsAt = e, an_summary = pan_summary x\<rparr> }"

definition abs_recordStatus :: "heap \<Rightarrow> p_telcoHealthCheckRunStatus \<Rightarrow> telcoHealthCheckRunStatus option" where
  "abs_recordStatus h x = do {
     s \<leftarrow> pointee un_runStatus plain h (prr_agenticRunStatus x);
     n \<leftarrow> contents un_notifications abs_notification h (prr_notifications x);
     a \<leftarrow> pointee un_time plain h (prr_alertStartsAt x);
     l \<leftarrow> pointee un_time plain h (prr_lastAlertSentTime x);
     Some \<lparr>rr_agenticRunName = prr_agenticRunName x, rr_clusterName = prr_clusterName x,
       rr_triggeredBy = prr_triggeredBy x, rr_trigger = prr_trigger x, rr_agenticRunStatus = s,
       rr_actionRequired = prr_actionRequired x, rr_notifications = n, rr_alertStartsAt = a,
       rr_lastAlertSentTime = l\<rparr> }"

definition abs_record :: "heap \<Rightarrow> p_telcoHealthCheckRun \<Rightarrow> (type_meta \<times> telcoHealthCheckRun) option" where
  "abs_record h x = do {
     m \<leftarrow> abs_objectMeta h (prec_meta x);
     st \<leftarrow> abs_recordStatus h (prec_status x);
     Some (prec_type x, object_meta.extend m (telcoHealthCheckRun.fields st)) }"

definition abs_recordList where
  "abs_recordList h x = do {
     m \<leftarrow> abs_listMeta h (precs_meta x);
     i \<leftarrow> contents un_records abs_record h (precs_items x);
     Some (precs_type x, m, i) }"

lemma stable_values [stable_abs]:
  "stable_abs abs_managedClusters" "stable_abs abs_rds" "stable_abs abs_lowLatency"
  "stable_abs abs_alertManager" "stable_abs abs_status" "stable_abs abs_objectMeta" "stable_abs abs_listMeta"
  "stable_abs abs_notification"
  unfolding abs_managedClusters_def [abs_def] abs_rds_def [abs_def] abs_lowLatency_def [abs_def]
    abs_alertManager_def [abs_def] abs_status_def [abs_def] abs_objectMeta_def [abs_def] abs_listMeta_def [abs_def]
    abs_notification_def [abs_def]
  by (intro stable_struct stable_plain)+

lemma stable_nested [stable_abs]: "stable_abs abs_periodic" "stable_abs abs_recordStatus"
  unfolding abs_periodic_def [abs_def] abs_recordStatus_def [abs_def]
  by (intro stable_struct stable_plain stable_field [OF stable_values(2)] stable_field [OF stable_values(3)]
      stable_values)+

lemma stable_spec [stable_abs]: "stable_abs abs_spec"
  unfolding abs_spec_def [abs_def]
  by (intro stable_struct stable_plain stable_field [OF stable_values(1)] stable_field [OF stable_nested(1)] stable_values)

lemma stable_objects [stable_abs]: "stable_abs abs_thc" "stable_abs abs_record"
  unfolding abs_thc_def [abs_def] abs_record_def [abs_def]
  by (intro stable_bind stable_const stable_field [OF stable_values(6)] stable_field [OF stable_spec]
      stable_field [OF stable_values(5)] stable_field [OF stable_nested(2)])+

lemma stable_lists [stable_abs]: "stable_abs abs_thcList" "stable_abs abs_recordList"
  unfolding abs_thcList_def [abs_def] abs_recordList_def [abs_def]
  by (intro stable_struct stable_field [OF stable_values(7)] stable_objects)+

section \<open>The routines\<close>

text \<open>
  The copying routines of the Kubernetes library that the generated ones call: those of
  \<open>metav1.Time\<close> (by pointer and in place), \<open>metav1.Condition\<close>, \<open>metav1.ObjectMeta\<close> and \<open>metav1.ListMeta\<close>.
\<close>

record copylib =
  time_DeepCopy :: "ref \<Rightarrow> (cell, ref) hp"
  time_DeepCopyInto :: "instant \<Rightarrow> (cell, instant) hp"
  condition_DeepCopyInto :: "condition \<Rightarrow> (cell, condition) hp"
  objectMeta_DeepCopyInto :: "p_objectMeta \<Rightarrow> (cell, p_objectMeta) hp"
  listMeta_DeepCopyInto :: "p_listMeta \<Rightarrow> (cell, p_listMeta) hp"

text \<open>
  \<open>in.DeepCopyInto(out)\<close> gives the object that it writes to \<open>*out\<close>. Its first statement \<open>*out = *in\<close>
  is the struct \<open>x\<close> that the last line updates. A new object is allocated when its content is known:
  nothing can refer to it earlier.
\<close>

definition AgenticRunStatus_DeepCopyInto :: "agenticRunStatus \<Rightarrow> (cell, agenticRunStatus) hp" where
  "AgenticRunStatus_DeepCopyInto x = hret x"

definition AgenticRunStatus_DeepCopy :: "ref \<Rightarrow> (cell, ref) hp" where
  "AgenticRunStatus_DeepCopy = new_copy un_runStatus CRunStatus AgenticRunStatus_DeepCopyInto"

definition AlertManagerCredentialsSecret_DeepCopyInto ::
  "alertManagerCredentialsSecret \<Rightarrow> (cell, alertManagerCredentialsSecret) hp" where
  "AlertManagerCredentialsSecret_DeepCopyInto x = hret x"

definition AlertManagerCredentialsSecret_DeepCopy :: "ref \<Rightarrow> (cell, ref) hp" where
  "AlertManagerCredentialsSecret_DeepCopy =
     new_copy un_secretRef CSecretRef AlertManagerCredentialsSecret_DeepCopyInto"

definition AlertManagerSpec_DeepCopyInto :: "p_alertManagerSpec \<Rightarrow> (cell, p_alertManagerSpec) hp" where
  "AlertManagerSpec_DeepCopyInto x = do {
     s \<leftarrow> new_copy un_secretRef CSecretRef hret (pam_credentialsSecret x);
     hret (x\<lparr>pam_credentialsSecret := s\<rparr>) }"

definition AlertManagerSpec_DeepCopy :: "ref \<Rightarrow> (cell, ref) hp" where
  "AlertManagerSpec_DeepCopy = new_copy un_alertManager CAlertManager AlertManagerSpec_DeepCopyInto"

text \<open>A time behind a pointer is copied by its own method, which the caller only calls if it is not nil.\<close>

definition copy_time :: "copylib \<Rightarrow> ref \<Rightarrow> (cell, ref) hp" where
  "copy_time C r = (case r of None \<Rightarrow> hret None | Some a \<Rightarrow> time_DeepCopy C (Some a))"

definition AlertNotification_DeepCopyInto ::
  "copylib \<Rightarrow> p_alertNotification \<Rightarrow> (cell, p_alertNotification) hp" where
  "AlertNotification_DeepCopyInto C x = do {
     s \<leftarrow> time_DeepCopyInto C (pan_startsAt x);
     e \<leftarrow> copy_time C (pan_endsAt x);
     hret (x\<lparr>pan_startsAt := s, pan_endsAt := e\<rparr>) }"

definition AlertNotification_DeepCopy :: "copylib \<Rightarrow> ref \<Rightarrow> (cell, ref) hp" where
  "AlertNotification_DeepCopy C = new_copy un_notification CNotification (AlertNotification_DeepCopyInto C)"

definition AlertsSpec_DeepCopyInto :: "alertsSpec \<Rightarrow> (cell, alertsSpec) hp" where
  "AlertsSpec_DeepCopyInto x = hret x"

definition AlertsSpec_DeepCopy :: "ref \<Rightarrow> (cell, ref) hp" where
  "AlertsSpec_DeepCopy = new_copy un_alerts CAlerts AlertsSpec_DeepCopyInto"

definition LowLatencyCheckSpec_DeepCopyInto :: "p_lowLatencyCheckSpec \<Rightarrow> (cell, p_lowLatencyCheckSpec) hp" where
  "LowLatencyCheckSpec_DeepCopyInto x = do {
     p \<leftarrow> new_copy un_duration CDuration hret (pll_period x);
     a \<leftarrow> new_copy un_duration CDuration hret (pll_minJitter x);
     b \<leftarrow> new_copy un_duration CDuration hret (pll_maxJitter x);
     hret (x\<lparr>pll_period := p, pll_minJitter := a, pll_maxJitter := b\<rparr>) }"

definition LowLatencyCheckSpec_DeepCopy :: "ref \<Rightarrow> (cell, ref) hp" where
  "LowLatencyCheckSpec_DeepCopy = new_copy un_lowLatency CLowLatency LowLatencyCheckSpec_DeepCopyInto"

definition ManagedClustersSpec_DeepCopyInto :: "p_managedClustersSpec \<Rightarrow> (cell, p_managedClustersSpec) hp" where
  "ManagedClustersSpec_DeepCopyInto x = do {
     a \<leftarrow> copy_slice un_strings CStrings hret (pmc_include x);
     b \<leftarrow> copy_slice un_strings CStrings hret (pmc_exclude x);
     hret (x\<lparr>pmc_include := a, pmc_exclude := b\<rparr>) }"

definition ManagedClustersSpec_DeepCopy :: "ref \<Rightarrow> (cell, ref) hp" where
  "ManagedClustersSpec_DeepCopy = new_copy un_clusters CClusters ManagedClustersSpec_DeepCopyInto"

definition RDSComplianceSpec_DeepCopyInto :: "p_rdsComplianceSpec \<Rightarrow> (cell, p_rdsComplianceSpec) hp" where
  "RDSComplianceSpec_DeepCopyInto x = do {
     p \<leftarrow> new_copy un_duration CDuration hret (prds_period x);
     a \<leftarrow> new_copy un_duration CDuration hret (prds_minJitter x);
     b \<leftarrow> new_copy un_duration CDuration hret (prds_maxJitter x);
     hret (x\<lparr>prds_period := p, prds_minJitter := a, prds_maxJitter := b\<rparr>) }"

definition RDSComplianceSpec_DeepCopy :: "ref \<Rightarrow> (cell, ref) hp" where
  "RDSComplianceSpec_DeepCopy = new_copy un_rds CRDS RDSComplianceSpec_DeepCopyInto"

definition PeriodicHealthChecksSpec_DeepCopyInto ::
  "p_periodicHealthChecksSpec \<Rightarrow> (cell, p_periodicHealthChecksSpec) hp" where
  "PeriodicHealthChecksSpec_DeepCopyInto x = do {
     a \<leftarrow> new_copy un_duration CDuration hret (pph_minJitter x);
     b \<leftarrow> new_copy un_duration CDuration hret (pph_maxJitter x);
     r \<leftarrow> RDSComplianceSpec_DeepCopyInto (pph_rdsCompliance x);
     l \<leftarrow> LowLatencyCheckSpec_DeepCopyInto (pph_lowLatencyCheck x);
     hret (x\<lparr>pph_minJitter := a, pph_maxJitter := b, pph_rdsCompliance := r, pph_lowLatencyCheck := l\<rparr>) }"

definition PeriodicHealthChecksSpec_DeepCopy :: "ref \<Rightarrow> (cell, ref) hp" where
  "PeriodicHealthChecksSpec_DeepCopy = new_copy un_periodic CPeriodic PeriodicHealthChecksSpec_DeepCopyInto"

definition TelcoHealthcheckSpec_DeepCopyInto ::
  "p_telcoHealthcheckSpec \<Rightarrow> (cell, p_telcoHealthcheckSpec) hp" where
  "TelcoHealthcheckSpec_DeepCopyInto x = do {
     a \<leftarrow> new_copy un_alertManager CAlertManager AlertManagerSpec_DeepCopyInto (psp_alertManager x);
     m \<leftarrow> ManagedClustersSpec_DeepCopyInto (psp_managedClusters x);
     n \<leftarrow> copy_slice un_strings CStrings hret (psp_managedNamespaces x);
     p \<leftarrow> PeriodicHealthChecksSpec_DeepCopyInto (psp_periodic x);
     d \<leftarrow> new_copy un_duration CDuration hret (psp_purgeInterval x);
     hret (x\<lparr>psp_alertManager := a, psp_managedClusters := m, psp_managedNamespaces := n, psp_periodic := p,
       psp_purgeInterval := d\<rparr>) }"

definition TelcoHealthcheckSpec_DeepCopy :: "ref \<Rightarrow> (cell, ref) hp" where
  "TelcoHealthcheckSpec_DeepCopy = new_copy un_spec CSpec TelcoHealthcheckSpec_DeepCopyInto"

definition TelcoHealthcheckStatus_DeepCopyInto ::
  "copylib \<Rightarrow> p_telcoHealthcheckStatus \<Rightarrow> (cell, p_telcoHealthcheckStatus) hp" where
  "TelcoHealthcheckStatus_DeepCopyInto C x = do {
     c \<leftarrow> copy_slice un_conditions CConditions (condition_DeepCopyInto C) (pst_conditions x);
     m \<leftarrow> copy_slice un_strings CStrings hret (pst_monitoredClusters x);
     a \<leftarrow> copy_time C (pst_lastPeriodicRunTime x);
     b \<leftarrow> copy_time C (pst_lastRDSComplianceRunTime x);
     l \<leftarrow> copy_time C (pst_lastLowLatencyCheckRunTime x);
     hret (x\<lparr>pst_conditions := c, pst_monitoredClusters := m, pst_lastPeriodicRunTime := a,
       pst_lastRDSComplianceRunTime := b, pst_lastLowLatencyCheckRunTime := l\<rparr>) }"

definition TelcoHealthcheckStatus_DeepCopy :: "copylib \<Rightarrow> ref \<Rightarrow> (cell, ref) hp" where
  "TelcoHealthcheckStatus_DeepCopy C = new_copy un_status CStatus (TelcoHealthcheckStatus_DeepCopyInto C)"

definition TelcoHealthcheck_DeepCopyInto :: "copylib \<Rightarrow> p_telcoHealthcheck \<Rightarrow> (cell, p_telcoHealthcheck) hp" where
  "TelcoHealthcheck_DeepCopyInto C x = do {
     m \<leftarrow> objectMeta_DeepCopyInto C (pthc_meta x);
     sp \<leftarrow> TelcoHealthcheckSpec_DeepCopyInto (pthc_spec x);
     st \<leftarrow> TelcoHealthcheckStatus_DeepCopyInto C (pthc_status x);
     hret (x\<lparr>pthc_meta := m, pthc_spec := sp, pthc_status := st\<rparr>) }"

definition TelcoHealthcheck_DeepCopy :: "copylib \<Rightarrow> ref \<Rightarrow> (cell, ref) hp" where
  "TelcoHealthcheck_DeepCopy C = new_copy un_thc CTHC (TelcoHealthcheck_DeepCopyInto C)"

definition TelcoHealthcheckList_DeepCopyInto ::
  "copylib \<Rightarrow> p_telcoHealthcheckList \<Rightarrow> (cell, p_telcoHealthcheckList) hp" where
  "TelcoHealthcheckList_DeepCopyInto C x = do {
     m \<leftarrow> listMeta_DeepCopyInto C (pthcs_meta x);
     i \<leftarrow> copy_slice un_thcs CTHCs (TelcoHealthcheck_DeepCopyInto C) (pthcs_items x);
     hret (x\<lparr>pthcs_meta := m, pthcs_items := i\<rparr>) }"

definition TelcoHealthcheckList_DeepCopy :: "copylib \<Rightarrow> ref \<Rightarrow> (cell, ref) hp" where
  "TelcoHealthcheckList_DeepCopy C = new_copy un_thcList CTHCList (TelcoHealthcheckList_DeepCopyInto C)"

definition TelcoHealthCheckRunSpec_DeepCopyInto :: "unit \<Rightarrow> (cell, unit) hp" where
  "TelcoHealthCheckRunSpec_DeepCopyInto x = hret x"

definition TelcoHealthCheckRunSpec_DeepCopy :: "ref \<Rightarrow> (cell, ref) hp" where
  "TelcoHealthCheckRunSpec_DeepCopy = new_copy un_runSpec CRunSpec TelcoHealthCheckRunSpec_DeepCopyInto"

definition TelcoHealthCheckRunStatus_DeepCopyInto ::
  "copylib \<Rightarrow> p_telcoHealthCheckRunStatus \<Rightarrow> (cell, p_telcoHealthCheckRunStatus) hp" where
  "TelcoHealthCheckRunStatus_DeepCopyInto C x = do {
     s \<leftarrow> new_copy un_runStatus CRunStatus hret (prr_agenticRunStatus x);
     n \<leftarrow> copy_slice un_notifications CNotifications (AlertNotification_DeepCopyInto C) (prr_notifications x);
     a \<leftarrow> copy_time C (prr_alertStartsAt x);
     l \<leftarrow> copy_time C (prr_lastAlertSentTime x);
     hret (x\<lparr>prr_agenticRunStatus := s, prr_notifications := n, prr_alertStartsAt := a,
       prr_lastAlertSentTime := l\<rparr>) }"

definition TelcoHealthCheckRunStatus_DeepCopy :: "copylib \<Rightarrow> ref \<Rightarrow> (cell, ref) hp" where
  "TelcoHealthCheckRunStatus_DeepCopy C =
     new_copy un_recordStatus CRecordStatus (TelcoHealthCheckRunStatus_DeepCopyInto C)"

definition TelcoHealthCheckRun_DeepCopyInto ::
  "copylib \<Rightarrow> p_telcoHealthCheckRun \<Rightarrow> (cell, p_telcoHealthCheckRun) hp" where
  "TelcoHealthCheckRun_DeepCopyInto C x = do {
     m \<leftarrow> objectMeta_DeepCopyInto C (prec_meta x);
     st \<leftarrow> TelcoHealthCheckRunStatus_DeepCopyInto C (prec_status x);
     hret (x\<lparr>prec_meta := m, prec_status := st\<rparr>) }"

definition TelcoHealthCheckRun_DeepCopy :: "copylib \<Rightarrow> ref \<Rightarrow> (cell, ref) hp" where
  "TelcoHealthCheckRun_DeepCopy C = new_copy un_record CRecord (TelcoHealthCheckRun_DeepCopyInto C)"

definition TelcoHealthCheckRunList_DeepCopyInto ::
  "copylib \<Rightarrow> p_telcoHealthCheckRunList \<Rightarrow> (cell, p_telcoHealthCheckRunList) hp" where
  "TelcoHealthCheckRunList_DeepCopyInto C x = do {
     m \<leftarrow> listMeta_DeepCopyInto C (precs_meta x);
     i \<leftarrow> copy_slice un_records CRecords (TelcoHealthCheckRun_DeepCopyInto C) (precs_items x);
     hret (x\<lparr>precs_meta := m, precs_items := i\<rparr>) }"

definition TelcoHealthCheckRunList_DeepCopy :: "copylib \<Rightarrow> ref \<Rightarrow> (cell, ref) hp" where
  "TelcoHealthCheckRunList_DeepCopy C = new_copy un_recordList CRecordList (TelcoHealthCheckRunList_DeepCopyInto C)"

text \<open>
  \<open>runtime.Object\<close> is an interface: a value of it is nil, or a type with a pointer, which may itself
  be nil. \<open>DeepCopyObject\<close> makes the nil interface of a nil pointer.
\<close>

datatype api_type = THC_Type | THC_List_Type | Record_Type | Record_List_Type

type_synonym runtime_object = "(api_type \<times> ref) option"

definition as_object :: "api_type \<Rightarrow> ref \<Rightarrow> runtime_object" where
  "as_object t c = (if c \<noteq> None then Some (t, c) else None)"

definition TelcoHealthcheck_DeepCopyObject :: "copylib \<Rightarrow> ref \<Rightarrow> (cell, runtime_object) hp" where
  "TelcoHealthcheck_DeepCopyObject C r = do { c \<leftarrow> TelcoHealthcheck_DeepCopy C r; hret (as_object THC_Type c) }"

definition TelcoHealthcheckList_DeepCopyObject :: "copylib \<Rightarrow> ref \<Rightarrow> (cell, runtime_object) hp" where
  "TelcoHealthcheckList_DeepCopyObject C r =
     do { c \<leftarrow> TelcoHealthcheckList_DeepCopy C r; hret (as_object THC_List_Type c) }"

definition TelcoHealthCheckRun_DeepCopyObject :: "copylib \<Rightarrow> ref \<Rightarrow> (cell, runtime_object) hp" where
  "TelcoHealthCheckRun_DeepCopyObject C r =
     do { c \<leftarrow> TelcoHealthCheckRun_DeepCopy C r; hret (as_object Record_Type c) }"

definition TelcoHealthCheckRunList_DeepCopyObject :: "copylib \<Rightarrow> ref \<Rightarrow> (cell, runtime_object) hp" where
  "TelcoHealthCheckRunList_DeepCopyObject C r =
     do { c \<leftarrow> TelcoHealthCheckRunList_DeepCopy C r; hret (as_object Record_List_Type c) }"

section \<open>Every routine makes a deep copy\<close>

text \<open>What the library's routines promise.\<close>

locale deep_copies =
  fixes C :: copylib
  assumes time_ptr: "deep_copy (pointee un_time plain) (time_DeepCopy C)"
    and time_value: "deep_copy plain (time_DeepCopyInto C)"
    and condition_value: "deep_copy plain (condition_DeepCopyInto C)"
    and objectMeta_value: "deep_copy abs_objectMeta (objectMeta_DeepCopyInto C)"
    and listMeta_value: "deep_copy abs_listMeta (listMeta_DeepCopyInto C)"

text \<open>
  One lemma per struct: what its abstraction says field by field, and that its routine makes a deep
  copy. The proofs copy field after field; \<open>deep\<close> collects what is known of the routines called.
\<close>

named_theorems deep \<comment> \<open>the routines that make deep copies\<close>

lemma deep_leaves [deep]:
  "deep_copy (pointee un_duration plain) (new_copy un_duration CDuration hret)"
  "deep_copy (pointee un_secretRef plain) (new_copy un_secretRef CSecretRef hret)"
  "deep_copy (pointee un_runStatus plain) (new_copy un_runStatus CRunStatus hret)"
  "deep_copy (contents un_strings plain) (copy_slice un_strings CStrings hret)"
  by (rule deep_pointee deep_contents; simp add: deep_plain stable_plain)+

lemmas kept = stable_plain [THEN stable_pointee, THEN keep] stable_plain [THEN stable_contents, THEN keep]
  stable_values [THEN keep] stable_nested [THEN keep] stable_spec [THEN keep]
  stable_values [THEN stable_pointee, THEN keep] stable_values [THEN stable_contents, THEN keep]
  stable_objects [THEN stable_contents, THEN keep]

lemma deep_copyI:
  "(\<And>h n x v. A (h @ n) x = Some v \<Longrightarrow> adds h n (C x) (\<lambda>n' y. \<forall>g z. length g = length h \<longrightarrow> A (g @ n' @ z) y = Some v))
   \<Longrightarrow> deep_copy A C"
  by (simp add: deep_copy_def isolated_def)

lemma rds_fields:
  "abs_rds h x = Some v \<longleftrightarrow> pointee un_duration plain h (prds_period x) = Some (rds_period v)
    \<and> prds_enabled x = rds_enabled v
    \<and> pointee un_duration plain h (prds_minJitter x) = Some (rds_minJitter v)
    \<and> pointee un_duration plain h (prds_maxJitter x) = Some (rds_maxJitter v)"
  by (cases v) (auto simp: abs_rds_def Option.bind_eq_Some_conv)

lemma deep_rds [deep]: "deep_copy abs_rds RDSComplianceSpec_DeepCopyInto"
  unfolding RDSComplianceSpec_DeepCopyInto_def [abs_def]
  by (rule deep_copyI, (rule copy_field, rule deep, simp add: rds_fields kept)+, rule adds_ret, simp add: rds_fields)

lemma lowLatency_fields:
  "abs_lowLatency h x = Some v \<longleftrightarrow> pointee un_duration plain h (pll_period x) = Some (ll_period v)
    \<and> pll_enabled x = ll_enabled v
    \<and> pointee un_duration plain h (pll_minJitter x) = Some (ll_minJitter v)
    \<and> pointee un_duration plain h (pll_maxJitter x) = Some (ll_maxJitter v)"
  by (cases v) (auto simp: abs_lowLatency_def Option.bind_eq_Some_conv)

lemma deep_lowLatency [deep]: "deep_copy abs_lowLatency LowLatencyCheckSpec_DeepCopyInto"
  unfolding LowLatencyCheckSpec_DeepCopyInto_def [abs_def]
  by (rule deep_copyI, (rule copy_field, rule deep, simp add: lowLatency_fields kept)+, rule adds_ret,
      simp add: lowLatency_fields)

lemma periodic_fields:
  "abs_periodic h x = Some v \<longleftrightarrow> pph_period x = ph_period v
    \<and> pointee un_duration plain h (pph_minJitter x) = Some (ph_minJitter v)
    \<and> pointee un_duration plain h (pph_maxJitter x) = Some (ph_maxJitter v)
    \<and> abs_rds h (pph_rdsCompliance x) = Some (ph_rdsCompliance v)
    \<and> abs_lowLatency h (pph_lowLatencyCheck x) = Some (ph_lowLatencyCheck v)"
  by (cases v) (auto simp: abs_periodic_def Option.bind_eq_Some_conv)

lemma deep_periodic [deep]: "deep_copy abs_periodic PeriodicHealthChecksSpec_DeepCopyInto"
  unfolding PeriodicHealthChecksSpec_DeepCopyInto_def [abs_def]
  by (rule deep_copyI, (rule copy_field, rule deep, simp add: periodic_fields kept)+, rule adds_ret,
      simp add: periodic_fields)

lemma alertManager_fields:
  "abs_alertManager h x = Some v \<longleftrightarrow> pam_url x = am_url v \<and> pam_authType x = am_authType v
    \<and> pointee un_secretRef plain h (pam_credentialsSecret x) = Some (am_credentialsSecret v)"
  by (cases v) (auto simp: abs_alertManager_def Option.bind_eq_Some_conv)

lemma deep_alertManager [deep]:
  "deep_copy abs_alertManager AlertManagerSpec_DeepCopyInto"
  "deep_copy (pointee un_alertManager abs_alertManager)
     (new_copy un_alertManager CAlertManager AlertManagerSpec_DeepCopyInto)"
proof -
  show d: "deep_copy abs_alertManager AlertManagerSpec_DeepCopyInto"
    unfolding AlertManagerSpec_DeepCopyInto_def [abs_def]
    by (rule deep_copyI, (rule copy_field, rule deep, simp add: alertManager_fields kept)+, rule adds_ret,
        simp add: alertManager_fields)
  show "deep_copy (pointee un_alertManager abs_alertManager)
     (new_copy un_alertManager CAlertManager AlertManagerSpec_DeepCopyInto)"
    by (rule deep_pointee [OF _ d]) (simp_all add: stable_abs)
qed

lemma clusters_fields:
  "abs_managedClusters h x = Some v \<longleftrightarrow> contents un_strings plain h (pmc_include x) = Some (mc_include v)
    \<and> contents un_strings plain h (pmc_exclude x) = Some (mc_exclude v)"
  by (cases v) (auto simp: abs_managedClusters_def Option.bind_eq_Some_conv)

lemma deep_clusters [deep]: "deep_copy abs_managedClusters ManagedClustersSpec_DeepCopyInto"
  unfolding ManagedClustersSpec_DeepCopyInto_def [abs_def]
  by (rule deep_copyI, (rule copy_field, rule deep, simp add: clusters_fields kept)+, rule adds_ret,
      simp add: clusters_fields)

lemma spec_fields:
  "abs_spec h x = Some v \<longleftrightarrow> psp_alerts x = sp_alerts v \<and> psp_logLevel x = sp_logLevel v
    \<and> pointee un_alertManager abs_alertManager h (psp_alertManager x) = Some (sp_alertManager v)
    \<and> abs_managedClusters h (psp_managedClusters x) = Some (sp_managedClusters v)
    \<and> contents un_strings plain h (psp_managedNamespaces x) = Some (sp_managedNamespaces v)
    \<and> abs_periodic h (psp_periodic x) = Some (sp_periodic v)
    \<and> pointee un_duration plain h (psp_purgeInterval x) = Some (sp_purgeInterval v)"
  by (cases v) (auto simp: abs_spec_def Option.bind_eq_Some_conv)

lemma deep_spec [deep]: "deep_copy abs_spec TelcoHealthcheckSpec_DeepCopyInto"
  unfolding TelcoHealthcheckSpec_DeepCopyInto_def [abs_def]
  by (rule deep_copyI, (rule copy_field, rule deep, simp add: spec_fields kept)+, rule adds_ret,
      simp add: spec_fields)

lemma status_fields:
  "abs_status h x = Some v \<longleftrightarrow> contents un_conditions plain h (pst_conditions x) = Some (fst v)
    \<and> contents un_strings plain h (pst_monitoredClusters x) = Some (st_monitoredClusters (snd v))
    \<and> pointee un_time plain h (pst_lastPeriodicRunTime x) = Some (st_lastPeriodicRunTime (snd v))
    \<and> pointee un_time plain h (pst_lastRDSComplianceRunTime x) = Some (st_lastRDSComplianceRunTime (snd v))
    \<and> pointee un_time plain h (pst_lastLowLatencyCheckRunTime x) = Some (st_lastLowLatencyCheckRunTime (snd v))"
  by (cases v; cases "snd v") (auto simp: abs_status_def Option.bind_eq_Some_conv)

lemma thc_fields:
  "abs_thc h x = Some v \<longleftrightarrow> (\<exists>m sp st. abs_objectMeta h (pthc_meta x) = Some m
    \<and> abs_spec h (pthc_spec x) = Some sp \<and> abs_status h (pthc_status x) = Some st
    \<and> v = (pthc_type x, fst st, object_meta.extend m (telcoHealthcheck.fields sp (snd st))))"
  by (auto simp: abs_thc_def Option.bind_eq_Some_conv)

lemma thcList_fields:
  "abs_thcList h x = Some v \<longleftrightarrow> pthcs_type x = fst v \<and> abs_listMeta h (pthcs_meta x) = Some (fst (snd v))
    \<and> contents un_thcs abs_thc h (pthcs_items x) = Some (snd (snd v))"
  by (cases v) (auto simp: abs_thcList_def Option.bind_eq_Some_conv)

lemma notification_fields:
  "abs_notification h x = Some v \<longleftrightarrow> pan_firing x = an_firing v \<and> pan_startsAt x = an_startsAt v
    \<and> pointee un_time plain h (pan_endsAt x) = Some (an_endsAt v) \<and> pan_summary x = an_summary v"
  by (cases v) (auto simp: abs_notification_def Option.bind_eq_Some_conv)

lemma recordStatus_fields:
  "abs_recordStatus h x = Some v \<longleftrightarrow> prr_agenticRunName x = rr_agenticRunName v
    \<and> prr_clusterName x = rr_clusterName v \<and> prr_triggeredBy x = rr_triggeredBy v
    \<and> prr_trigger x = rr_trigger v \<and> prr_actionRequired x = rr_actionRequired v
    \<and> pointee un_runStatus plain h (prr_agenticRunStatus x) = Some (rr_agenticRunStatus v)
    \<and> contents un_notifications abs_notification h (prr_notifications x) = Some (rr_notifications v)
    \<and> pointee un_time plain h (prr_alertStartsAt x) = Some (rr_alertStartsAt v)
    \<and> pointee un_time plain h (prr_lastAlertSentTime x) = Some (rr_lastAlertSentTime v)"
  by (cases v) (auto simp: abs_recordStatus_def Option.bind_eq_Some_conv)

lemma record_fields:
  "abs_record h x = Some v \<longleftrightarrow> (\<exists>m st. abs_objectMeta h (prec_meta x) = Some m
    \<and> abs_recordStatus h (prec_status x) = Some st
    \<and> v = (prec_type x, object_meta.extend m (telcoHealthCheckRun.fields st)))"
  by (auto simp: abs_record_def Option.bind_eq_Some_conv)

lemma recordList_fields:
  "abs_recordList h x = Some v \<longleftrightarrow> precs_type x = fst v \<and> abs_listMeta h (precs_meta x) = Some (fst (snd v))
    \<and> contents un_records abs_record h (precs_items x) = Some (snd (snd v))"
  by (cases v) (auto simp: abs_recordList_def Option.bind_eq_Some_conv)

lemma deep_assigned [deep]:
  "deep_copy plain AgenticRunStatus_DeepCopyInto" "deep_copy plain AlertManagerCredentialsSecret_DeepCopyInto"
  "deep_copy plain AlertsSpec_DeepCopyInto" "deep_copy plain TelcoHealthCheckRunSpec_DeepCopyInto"
  by (simp_all add: deep_copy_def AgenticRunStatus_DeepCopyInto_def AlertManagerCredentialsSecret_DeepCopyInto_def
      AlertsSpec_DeepCopyInto_def TelcoHealthCheckRunSpec_DeepCopyInto_def adds_ret isolated_def plain_def)

context deep_copies
begin

lemma deep_time [deep]: "deep_copy (pointee un_time plain) (copy_time C)"
  unfolding deep_copy_def
proof (intro allI impI)
  fix h n r v assume v: "pointee un_time plain (h @ n) r = Some v"
  show "adds h n (copy_time C r) (\<lambda>n' y. isolated (pointee un_time plain) (length h) n' y v)"
  proof (cases r)
    case None
    with v show ?thesis by (simp add: copy_time_def adds_ret isolated_def pointee_def)
  next
    case (Some a)
    with deep_copyD [OF time_ptr v] show ?thesis by (simp add: copy_time_def)
  qed
qed

lemma deep_conditions [deep]:
  "deep_copy (contents un_conditions plain) (copy_slice un_conditions CConditions (condition_DeepCopyInto C))"
  by (rule deep_contents [OF _ condition_value]) (simp_all add: stable_abs)

lemma deep_status [deep]: "deep_copy abs_status (TelcoHealthcheckStatus_DeepCopyInto C)"
  unfolding TelcoHealthcheckStatus_DeepCopyInto_def [abs_def]
  by (rule deep_copyI, (rule copy_field, rule deep, simp add: status_fields kept)+, rule adds_ret,
      simp add: status_fields)

lemma deep_thc [deep]: "deep_copy abs_thc (TelcoHealthcheck_DeepCopyInto C)"
  unfolding TelcoHealthcheck_DeepCopyInto_def [abs_def]
  by (rule deep_copyI, clarsimp simp: thc_fields,
      (rule copy_field, rule deep objectMeta_value, simp add: kept, simp?)+, rule adds_ret, simp)

lemma deep_notification [deep]: "deep_copy abs_notification (AlertNotification_DeepCopyInto C)"
  unfolding AlertNotification_DeepCopyInto_def [abs_def]
  by (rule deep_copyI, rule copy_field [OF time_value], simp add: plain_def,
      (rule copy_field, rule deep, simp add: notification_fields kept)+, rule adds_ret,
      simp add: notification_fields plain_def)

lemma deep_notifications [deep]:
  "deep_copy (contents un_notifications abs_notification)
     (copy_slice un_notifications CNotifications (AlertNotification_DeepCopyInto C))"
  by (rule deep_contents [OF _ deep_notification]) (simp_all add: stable_abs)

lemma deep_recordStatus [deep]: "deep_copy abs_recordStatus (TelcoHealthCheckRunStatus_DeepCopyInto C)"
  unfolding TelcoHealthCheckRunStatus_DeepCopyInto_def [abs_def]
  by (rule deep_copyI, (rule copy_field, rule deep, simp add: recordStatus_fields kept)+, rule adds_ret,
      simp add: recordStatus_fields)

lemma deep_record [deep]: "deep_copy abs_record (TelcoHealthCheckRun_DeepCopyInto C)"
  unfolding TelcoHealthCheckRun_DeepCopyInto_def [abs_def]
  by (rule deep_copyI, clarsimp simp: record_fields,
      (rule copy_field, rule deep objectMeta_value, simp add: kept, simp?)+, rule adds_ret, simp)

lemma deep_lists [deep]:
  "deep_copy abs_thcList (TelcoHealthcheckList_DeepCopyInto C)"
  "deep_copy abs_recordList (TelcoHealthCheckRunList_DeepCopyInto C)"
proof -
  have [deep]: "deep_copy (contents un_thcs abs_thc) (copy_slice un_thcs CTHCs (TelcoHealthcheck_DeepCopyInto C))"
    by (rule deep_contents [OF _ deep_thc]) (simp_all add: stable_abs)
  have [deep]: "deep_copy (contents un_records abs_record)
      (copy_slice un_records CRecords (TelcoHealthCheckRun_DeepCopyInto C))"
    by (rule deep_contents [OF _ deep_record]) (simp_all add: stable_abs)
  note [deep] = listMeta_value
  show "deep_copy abs_thcList (TelcoHealthcheckList_DeepCopyInto C)"
    unfolding TelcoHealthcheckList_DeepCopyInto_def [abs_def]
    by (rule deep_copyI, (rule copy_field, rule deep, simp add: thcList_fields kept)+, rule adds_ret,
        simp add: thcList_fields)
  show "deep_copy abs_recordList (TelcoHealthCheckRunList_DeepCopyInto C)"
    unfolding TelcoHealthCheckRunList_DeepCopyInto_def [abs_def]
    by (rule deep_copyI, (rule copy_field, rule deep, simp add: recordList_fields kept)+, rule adds_ret,
        simp add: recordList_fields)
qed

end

text \<open>The same of the methods that copy an object behind a pointer.\<close>

lemmas deep_object = deep_pointee [OF _ _ stable_plain] deep_pointee [OF _ _ stable_values(1)]
  deep_pointee [OF _ _ stable_values(2)] deep_pointee [OF _ _ stable_values(3)]
  deep_pointee [OF _ _ stable_values(4)] deep_pointee [OF _ _ stable_values(5)]
  deep_pointee [OF _ _ stable_values(8)] deep_pointee [OF _ _ stable_nested(1)]
  deep_pointee [OF _ _ stable_nested(2)] deep_pointee [OF _ _ stable_spec]
  deep_pointee [OF _ _ stable_objects(1)] deep_pointee [OF _ _ stable_objects(2)]
  deep_pointee [OF _ _ stable_lists(1)] deep_pointee [OF _ _ stable_lists(2)]

definition spec_copies_deep :: bool where
  "spec_copies_deep \<longleftrightarrow>
     deep_copy (pointee un_secretRef plain) AlertManagerCredentialsSecret_DeepCopy \<and>
     deep_copy (pointee un_alertManager abs_alertManager) AlertManagerSpec_DeepCopy \<and>
     deep_copy (pointee un_alerts plain) AlertsSpec_DeepCopy \<and>
     deep_copy (pointee un_lowLatency abs_lowLatency) LowLatencyCheckSpec_DeepCopy \<and>
     deep_copy (pointee un_clusters abs_managedClusters) ManagedClustersSpec_DeepCopy \<and>
     deep_copy (pointee un_rds abs_rds) RDSComplianceSpec_DeepCopy \<and>
     deep_copy (pointee un_periodic abs_periodic) PeriodicHealthChecksSpec_DeepCopy \<and>
     deep_copy (pointee un_spec abs_spec) TelcoHealthcheckSpec_DeepCopy"

definition status_copies_deep :: "copylib \<Rightarrow> bool" where
  "status_copies_deep C \<longleftrightarrow>
     deep_copy (pointee un_runStatus plain) AgenticRunStatus_DeepCopy \<and>
     deep_copy (pointee un_notification abs_notification) (AlertNotification_DeepCopy C) \<and>
     deep_copy (pointee un_runSpec plain) TelcoHealthCheckRunSpec_DeepCopy \<and>
     deep_copy (pointee un_recordStatus abs_recordStatus) (TelcoHealthCheckRunStatus_DeepCopy C) \<and>
     deep_copy (pointee un_status abs_status) (TelcoHealthcheckStatus_DeepCopy C)"

definition object_copies_deep :: "copylib \<Rightarrow> bool" where
  "object_copies_deep C \<longleftrightarrow>
     deep_copy (pointee un_record abs_record) (TelcoHealthCheckRun_DeepCopy C) \<and>
     deep_copy (pointee un_recordList abs_recordList) (TelcoHealthCheckRunList_DeepCopy C) \<and>
     deep_copy (pointee un_thc abs_thc) (TelcoHealthcheck_DeepCopy C) \<and>
     deep_copy (pointee un_thcList abs_thcList) (TelcoHealthcheckList_DeepCopy C)"

lemma spec_copies: spec_copies_deep
  unfolding spec_copies_deep_def AlertManagerCredentialsSecret_DeepCopy_def AlertManagerSpec_DeepCopy_def
    AlertsSpec_DeepCopy_def LowLatencyCheckSpec_DeepCopy_def ManagedClustersSpec_DeepCopy_def
    RDSComplianceSpec_DeepCopy_def PeriodicHealthChecksSpec_DeepCopy_def TelcoHealthcheckSpec_DeepCopy_def
  by (intro conjI deep_object) (simp_all add: deep)

context deep_copies
begin

lemma status_copies: "status_copies_deep C"
  unfolding status_copies_deep_def AgenticRunStatus_DeepCopy_def AlertNotification_DeepCopy_def
    TelcoHealthCheckRunSpec_DeepCopy_def TelcoHealthCheckRunStatus_DeepCopy_def TelcoHealthcheckStatus_DeepCopy_def
  by (intro conjI deep_object) (simp_all add: deep)

lemma object_copies: "object_copies_deep C"
  unfolding object_copies_deep_def TelcoHealthCheckRun_DeepCopy_def TelcoHealthCheckRunList_DeepCopy_def
    TelcoHealthcheck_DeepCopy_def TelcoHealthcheckList_DeepCopy_def
  by (intro conjI deep_object) (simp_all add: deep)

end

section \<open>A library that keeps its promises\<close>

text \<open>
  The routines of a library can be written like the generated ones; a library of this kind shows
  that the promises can be kept.
\<close>

definition copy_objectMeta :: "p_objectMeta \<Rightarrow> (cell, p_objectMeta) hp" where
  "copy_objectMeta x = do {
     l \<leftarrow> new_copy un_map CMap hret (pom_labels x);
     a \<leftarrow> new_copy un_map CMap hret (pom_annotations x);
     f \<leftarrow> copy_slice un_strings CStrings hret (pom_finalizers x);
     w \<leftarrow> copy_slice un_owners COwners hret (pom_owners x);
     d \<leftarrow> new_copy un_time CTime hret (pom_deletion x);
     hret (x\<lparr>pom_labels := l, pom_annotations := a, pom_finalizers := f, pom_owners := w, pom_deletion := d\<rparr>) }"

definition copy_listMeta :: "p_listMeta \<Rightarrow> (cell, p_listMeta) hp" where
  "copy_listMeta x = do {
     r \<leftarrow> new_copy un_int CInt hret (plm_remainingItemCount x);
     hret (x\<lparr>plm_remainingItemCount := r\<rparr>) }"

definition plain_copylib :: copylib where
  "plain_copylib = \<lparr>time_DeepCopy = new_copy un_time CTime hret, time_DeepCopyInto = hret,
     condition_DeepCopyInto = hret, objectMeta_DeepCopyInto = copy_objectMeta,
     listMeta_DeepCopyInto = copy_listMeta\<rparr>"

lemma deep_library [deep]:
  "deep_copy (pointee un_time plain) (new_copy un_time CTime hret)"
  "deep_copy (pointee un_map plain) (new_copy un_map CMap hret)"
  "deep_copy (pointee un_int plain) (new_copy un_int CInt hret)"
  "deep_copy (contents un_owners plain) (copy_slice un_owners COwners hret)"
  by (rule deep_pointee deep_contents; simp add: deep_plain stable_plain)+

lemma objectMeta_fields:
  "abs_objectMeta h x = Some v \<longleftrightarrow> (\<exists>l a.
      pointee un_map plain h (pom_labels x) = Some l \<and> pointee un_map plain h (pom_annotations x) = Some a
    \<and> contents un_strings plain h (pom_finalizers x) = Some (om_finalizers v)
    \<and> contents un_owners plain h (pom_owners x) = Some (om_owners v)
    \<and> pointee un_time plain h (pom_deletion x) = Some (om_deletion v)
    \<and> v = \<lparr>om_name = pom_name x, om_namespace = pom_namespace x, om_uid = pom_uid x,
       om_resourceVersion = pom_resourceVersion x, om_labels = map_value l, om_annotations = map_value a,
       om_finalizers = om_finalizers v, om_owners = om_owners v, om_creation = pom_creation x,
       om_deletion = om_deletion v\<rparr>)"
  by (auto simp: abs_objectMeta_def Option.bind_eq_Some_conv)

lemma deep_objectMeta: "deep_copy abs_objectMeta copy_objectMeta"
  unfolding copy_objectMeta_def [abs_def]
  by (rule deep_copyI, clarsimp simp: objectMeta_fields simp del: One_nat_def,
      (rule copy_field, rule deep, simp add: kept)+, rule adds_ret, simp)

lemma listMeta_fields:
  "abs_listMeta h x = Some v \<longleftrightarrow> plm_resourceVersion x = fst v \<and> plm_continue x = fst (snd v)
    \<and> pointee un_int plain h (plm_remainingItemCount x) = Some (snd (snd v))"
  by (cases v) (auto simp: abs_listMeta_def Option.bind_eq_Some_conv)

lemma deep_listMeta: "deep_copy abs_listMeta copy_listMeta"
  unfolding copy_listMeta_def [abs_def]
  by (rule deep_copyI, (rule copy_field, rule deep, simp add: listMeta_fields)+, rule adds_ret,
      simp add: listMeta_fields)

interpretation plain_copies: deep_copies plain_copylib
  by unfold_locales (simp_all add: plain_copylib_def deep_library deep_plain deep_objectMeta deep_listMeta)

section \<open>Correctness of the generated file\<close>

text \<open>
  C17. Every \<open>DeepCopy\<close> of \<open>api/v1alpha1/zz_generated.deepcopy.go\<close> makes a deep copy: run on a heap in
  which its argument can be read, it overwrites no cell, and its result is worth what the argument is
  and stays so whatever is later written to the cells that were there before.
\<close>

theorem generated_copies_deep:
  assumes "deep_copies C"
  shows "spec_copies_deep \<and> status_copies_deep C \<and> object_copies_deep C"
  using spec_copies deep_copies.status_copies [OF assms] deep_copies.object_copies [OF assms] by blast

theorem generated_copies_deep_witness:
  "spec_copies_deep \<and> status_copies_deep plain_copylib \<and> object_copies_deep plain_copylib"
  by (rule generated_copies_deep [OF plain_copies.deep_copies_axioms])

text \<open>The interface that \<open>DeepCopyObject\<close> returns is nil only for the nil pointer.\<close>

lemma new_copy_none:
  "pointee un A h r = Some v \<Longrightarrow> fst (run_state (new_copy un mk into r) h) = None \<longleftrightarrow> r = None"
  by (auto simp: new_copy_def pointee_def target_def split_beta split: option.splits if_splits)

lemma copied_object:
  "pointee un_record abs_record h r = Some v \<Longrightarrow>
     fst (run_state (TelcoHealthCheckRun_DeepCopyObject C r) h) = None \<longleftrightarrow> r = None"
  "pointee un_thc abs_thc h r = Some w \<Longrightarrow>
     fst (run_state (TelcoHealthcheck_DeepCopyObject C r) h) = None \<longleftrightarrow> r = None"
  by (simp_all add: TelcoHealthCheckRun_DeepCopyObject_def TelcoHealthCheckRun_DeepCopy_def
      TelcoHealthcheck_DeepCopyObject_def TelcoHealthcheck_DeepCopy_def split_beta as_object_def
      new_copy_none [of un_record abs_record h r v] new_copy_none [of un_thc abs_thc h r w] del: not_None_eq)

end
