(* ===== verification/Patch_Base.thy ===== *)
theory Patch_Base
  imports Deep_Copy Hub_Run_Status
begin

text \<open>
  The changes of a record's status as the code makes them, on the object in memory: \<open>before\<close> is a deep
  copy, then fields are assigned, a struct is written through its pointer, and notifications are
  appended to a slice, possibly in place. The theorems show that these steps refine the functions on
  values that the models of \<open>hubrunstatus.go\<close> and \<open>runalerts.go\<close> use, and that \<open>before\<close> keeps the old
  value, so the patch computed from the two is the difference.
\<close>

section \<open>Go's append and slicing\<close>

text \<open>
  \<open>append(s, x)\<close> writes behind the slice if its array has room, and makes a larger array otherwise; how
  much larger is the run time's choice \<open>grow\<close>, which puts spare elements behind those it is given.
\<close>

definition go_append ::
  "('c \<Rightarrow> 'e list option) \<Rightarrow> ('e list \<Rightarrow> 'c) \<Rightarrow> ('e list \<Rightarrow> 'e list) \<Rightarrow> slice option \<Rightarrow> 'e \<Rightarrow> ('c, slice option) hp" where
  "go_append un mk grow s x =
     (case s of
        None \<Rightarrow> do { b \<leftarrow> alloc (mk (grow [x])); hret (Some \<lparr>sl_base = b, sl_off = 0, sl_len = 1\<rparr>) }
      | Some w \<Rightarrow> do {
          c \<leftarrow> load (sl_base w);
          (case Option.bind c un of
             None \<Rightarrow> hret s
           | Some arr \<Rightarrow>
               if sl_off w + sl_len w < length arr then do {
                 store (sl_base w) (mk (arr[sl_off w + sl_len w := x]));
                 hret (Some (w\<lparr>sl_len := Suc (sl_len w)\<rparr>)) }
               else do {
                 b \<leftarrow> alloc (mk (grow (elements w arr @ [x])));
                 hret (Some \<lparr>sl_base = b, sl_off = 0, sl_len = Suc (sl_len w)\<rparr>) }) })"

text \<open>\<open>s[1:]\<close> of a slice that is not empty.\<close>

definition go_tail :: "slice option \<Rightarrow> slice option" where
  "go_tail s = map_option (\<lambda>w. w\<lparr>sl_off := Suc (sl_off w), sl_len := sl_len w - 1\<rparr>) s"

section \<open>The changes in memory\<close>

text \<open>Statements that change \<open>record.Status\<close>, for the record at address \<open>a\<close>.\<close>

type_synonym change = "p_telcoHealthCheckRunStatus \<Rightarrow> (cell, p_telcoHealthCheckRunStatus) hp"

definition change_status :: "nat \<Rightarrow> change \<Rightarrow> (cell, unit) hp" where
  "change_status a f = do {
     c \<leftarrow> load a;
     (case Option.bind c un_record of
        None \<Rightarrow> hret ()
      | Some x \<Rightarrow> do { st \<leftarrow> f (prec_status x); store a (CRecord (x\<lparr>prec_status := st\<rparr>)) }) }"

text \<open>A write to \<open>Status.AgenticRunStatus\<close> through its pointer, and its summary if it is not nil.\<close>

definition change_runStatus :: "nat \<Rightarrow> (agenticRunStatus \<Rightarrow> agenticRunStatus) \<Rightarrow> (cell, unit) hp" where
  "change_runStatus b f = do {
     c \<leftarrow> load b;
     (case Option.bind c un_runStatus of None \<Rightarrow> hret () | Some s \<Rightarrow> store b (CRunStatus (f s))) }"

text \<open>A write that is made only if its condition holds.\<close>

definition write_if :: "bool \<Rightarrow> nat \<Rightarrow> (agenticRunStatus \<Rightarrow> agenticRunStatus) \<Rightarrow> (cell, unit) hp" where
  "write_if c b f = (if c then change_runStatus b f else hret ())"

definition mem_summary :: "p_telcoHealthCheckRunStatus \<Rightarrow> (cell, string) hp" where
  "mem_summary st = (case prr_agenticRunStatus st of
       None \<Rightarrow> hret ''''
     | Some b \<Rightarrow> do {
         c \<leftarrow> load b;
         hret (case Option.bind c un_runStatus of None \<Rightarrow> '''' | Some s \<Rightarrow> rs_summary s) })"

definition notify :: "(p_alertNotification list \<Rightarrow> p_alertNotification list) \<Rightarrow> p_alertNotification \<Rightarrow> change" where
  "notify grow n st = do {
     s \<leftarrow> go_append un_notifications CNotifications grow (prr_notifications st) n;
     hret (st\<lparr>prr_notifications := s\<rparr>) }"

text \<open>What \<open>syncHubRunStatus\<close> enters, and \<open>queueActionAlert\<close> at time \<open>t\<close>.\<close>

definition mem_observe :: "string \<Rightarrow> string \<Rightarrow> string \<Rightarrow> string \<Rightarrow> change" where
  "mem_observe conditionType phase summary action st = do {
     b \<leftarrow> (case prr_agenticRunStatus st of None \<Rightarrow> alloc (CRunStatus zero_agenticRunStatus) | Some b \<Rightarrow> hret b);
     write_if (conditionType \<noteq> '''') b (\<lambda>s. s\<lparr>rs_type := conditionType, rs_phase := phase\<rparr>);
     write_if (summary \<noteq> '''') b (\<lambda>s. s\<lparr>rs_summary := summary\<rparr>);
     hret (st\<lparr>prr_agenticRunStatus := Some b,
       prr_actionRequired := (if conditionType = '''' then prr_actionRequired st
         else if conditionType \<noteq> ''Analyzed'' then ''False'' else action)\<rparr>) }"

definition mem_startsAt :: "instant \<Rightarrow> p_telcoHealthCheckRunStatus \<Rightarrow> (cell, instant) hp" where
  "mem_startsAt t st = (case prr_alertStartsAt st of
       None \<Rightarrow> hret t
     | Some b \<Rightarrow> do { c \<leftarrow> load b; hret (case Option.bind c un_time of None \<Rightarrow> t | Some u \<Rightarrow> u) })"

definition mem_queue ::
  "(p_alertNotification list \<Rightarrow> p_alertNotification list) \<Rightarrow> instant \<Rightarrow> string \<Rightarrow> change" where
  "mem_queue grow t oldAction st =
     (if prr_actionRequired st = ''True'' then do {
        s \<leftarrow> mem_summary st;
        now \<leftarrow> alloc (CTime t);
        notify grow \<lparr>pan_firing = True, pan_startsAt = t, pan_endsAt = None, pan_summary = s\<rparr>
          (st\<lparr>prr_alertStartsAt := Some now, prr_lastAlertSentTime := None\<rparr>) }
      else if oldAction = ''True'' then do {
        s \<leftarrow> mem_summary st;
        startsAt \<leftarrow> mem_startsAt t st;
        now \<leftarrow> alloc (CTime (if startsAt < t then t else startsAt + second));
        st' \<leftarrow> notify grow \<lparr>pan_firing = False, pan_startsAt = startsAt, pan_endsAt = Some now, pan_summary = s\<rparr> st;
        hret (st'\<lparr>prr_alertStartsAt := None, prr_lastAlertSentTime := None\<rparr>) }
      else hret st)"

text \<open>What the record reconciler assigns: delivery stopped, started, the queue popped, the alert renewed.\<close>

definition mem_stop :: change where
  "mem_stop st = hret (st\<lparr>prr_notifications := None, prr_alertStartsAt := None, prr_lastAlertSentTime := None\<rparr>)"

definition mem_start :: "(p_alertNotification list \<Rightarrow> p_alertNotification list) \<Rightarrow> instant \<Rightarrow> change" where
  "mem_start grow t st = do {
     now \<leftarrow> alloc (CTime t);
     s \<leftarrow> mem_summary st;
     notify grow \<lparr>pan_firing = True, pan_startsAt = t, pan_endsAt = None, pan_summary = s\<rparr>
       (st\<lparr>prr_alertStartsAt := Some now\<rparr>) }"

definition mem_pop :: change where
  "mem_pop st = hret (st\<lparr>prr_notifications := go_tail (prr_notifications st)\<rparr>)"

definition mem_renew :: "instant \<Rightarrow> change" where
  "mem_renew t st = do { now \<leftarrow> alloc (CTime t); hret (st\<lparr>prr_lastAlertSentTime := Some now\<rparr>) }"

text \<open>
  What follows the delivery of \<open>event\<close>: the queue loses its head, and the alert is renewed at \<open>t\<close> if
  \<open>event\<close> is the firing notification of the alert in progress.
\<close>

definition mem_current :: "alertNotification \<Rightarrow> p_telcoHealthCheckRunStatus \<Rightarrow> (cell, bool) hp" where
  "mem_current event st =
     (if \<not> an_firing event \<or> prr_actionRequired st \<noteq> ''True'' then hret False
      else (case prr_alertStartsAt st of
          None \<Rightarrow> hret False
        | Some b \<Rightarrow> do { c \<leftarrow> load b; hret (Option.bind c un_time = Some (an_startsAt event)) }))"

definition mem_deliver :: "alertNotification \<Rightarrow> instant \<Rightarrow> change" where
  "mem_deliver event t st = do {
     st' \<leftarrow> mem_pop st;
     current \<leftarrow> mem_current event st';
     if current then mem_renew t st' else hret st' }"

text \<open>A change with the state before it kept for the patch.\<close>

definition patched :: "copylib \<Rightarrow> nat \<Rightarrow> change \<Rightarrow> (cell, ref) hp" where
  "patched C a f = do { before \<leftarrow> TelcoHealthCheckRun_DeepCopy C (Some a); change_status a f; hret before }"

text \<open>What a pointer to a record is worth; \<open>reflect.DeepEqual\<close> of two statuses compares what they are worth.\<close>

definition record_at :: "heap \<Rightarrow> ref \<Rightarrow> (type_meta \<times> telcoHealthCheckRun) option option" where
  "record_at h r = pointee un_record abs_record h r"

definition status_at :: "heap \<Rightarrow> ref \<Rightarrow> telcoHealthCheckRunStatus option" where
  "status_at h r = (case record_at h r of Some (Some v) \<Rightarrow> Some (rec_status (snd v)) | _ \<Rightarrow> None)"

definition equal_status :: "ref \<Rightarrow> ref \<Rightarrow> (cell, bool) hp" where
  "equal_status a b = State (\<lambda>h. (status_at h a = status_at h b, h))"

definition mem_action :: "ref \<Rightarrow> (cell, string) hp" where
  "mem_action r = (case r of
       None \<Rightarrow> hret ''''
     | Some a \<Rightarrow> do {
         c \<leftarrow> load a;
         hret (case Option.bind c un_record of None \<Rightarrow> '''' | Some x \<Rightarrow> prr_actionRequired (prec_status x)) })"

text \<open>
  The body of the retried function of \<open>syncHubRunStatus\<close> once the identity of the record is checked: the
  result is \<open>before\<close> and whether a patch is made.
\<close>

definition mem_sync ::
  "copylib \<Rightarrow> (p_alertNotification list \<Rightarrow> p_alertNotification list)
   \<Rightarrow> string \<Rightarrow> string \<Rightarrow> string \<Rightarrow> string \<Rightarrow> instant \<Rightarrow> nat \<Rightarrow> (cell, ref \<times> bool) hp" where
  "mem_sync C grow conditionType phase summary action t a = do {
     before \<leftarrow> TelcoHealthCheckRun_DeepCopy C (Some a);
     change_status a (mem_observe conditionType phase summary action);
     same \<leftarrow> equal_status (Some a) before;
     if same then hret (before, False)
     else do {
       oldAction \<leftarrow> mem_action before;
       newAction \<leftarrow> mem_action (Some a);
       (if oldAction = newAction then hret () else change_status a (mem_queue grow t oldAction));
       hret (before, True) } }"

text \<open>The same on values.\<close>

definition synced ::
  "string \<Rightarrow> string \<Rightarrow> string \<Rightarrow> string \<Rightarrow> instant \<Rightarrow> telcoHealthCheckRunStatus \<Rightarrow> telcoHealthCheckRunStatus" where
  "synced conditionType phase summary action t st =
     (let st' = observe conditionType phase summary action st in
      if rr_actionRequired st = rr_actionRequired st' then st' else queue_at t (rr_actionRequired st) st')"

section \<open>What a change may touch\<close>

text \<open>
  Changes overwrite only records, run statuses and arrays of notifications, never a cell of the copy
  (the \<open>k\<close> cells behind the first \<open>l\<close>), and never with another kind of content.
\<close>

fun kind_of :: "cell \<Rightarrow> nat" where
  "kind_of (CRecord x) = 1"
| "kind_of (CRunStatus x) = 2"
| "kind_of (CNotifications x) = 3"
| "kind_of c = 0"

definition same_kind :: "cell \<Rightarrow> cell \<Rightarrow> bool" where
  "same_kind c d \<longleftrightarrow> kind_of c = kind_of d \<and> kind_of c \<noteq> 0"

definition outside :: "nat \<Rightarrow> nat \<Rightarrow> nat \<Rightarrow> bool" where
  "outside l k b \<longleftrightarrow> b < l \<or> l + k \<le> b"

definition touches :: "nat \<Rightarrow> nat \<Rightarrow> heap \<Rightarrow> heap \<Rightarrow> bool" where
  "touches l k h h' \<longleftrightarrow> length h \<le> length h'
     \<and> (\<forall>b<length h. h' ! b = h ! b \<or> same_kind (h ! b) (h' ! b) \<and> outside l k b)"

lemma same_kind_trans: "same_kind c d \<Longrightarrow> same_kind d e \<Longrightarrow> same_kind c e"
  by (simp add: same_kind_def)

lemma kind_of_None:
  "kind_of c \<noteq> 0 \<Longrightarrow> un_time c = None" "kind_of c \<noteq> 0 \<Longrightarrow> un_map c = None"
  "kind_of c \<noteq> 0 \<Longrightarrow> un_strings c = None" "kind_of c \<noteq> 0 \<Longrightarrow> un_owners c = None"
  by (cases c; simp)+

lemma touches_refl [simp]: "touches l k h h"
  by (simp add: touches_def)

lemma touches_trans:
  assumes "touches l k h h1" "touches l k h1 h2"
  shows "touches l k h h2"
  unfolding touches_def
proof (intro conjI allI impI)
  show "length h \<le> length h2" using assms by (simp add: touches_def)
  fix b assume "b < length h"
  with assms have "h1 ! b = h ! b \<or> same_kind (h ! b) (h1 ! b) \<and> outside l k b"
    "h2 ! b = h1 ! b \<or> same_kind (h1 ! b) (h2 ! b) \<and> outside l k b"
    by (auto simp: touches_def)
  then show "h2 ! b = h ! b \<or> same_kind (h ! b) (h2 ! b) \<and> outside l k b"
    by (metis same_kind_trans)
qed

lemma touches_alloc [simp]: "touches l k h (h @ z)"
  by (simp add: touches_def nth_append)

lemma touches_store:
  assumes "outside l k b" "same_kind (h ! b) c"
  shows "touches l k h (h[b := c])"
  unfolding touches_def
proof (intro conjI allI impI)
  fix d assume "d < length h"
  then show "h[b := c] ! d = h ! d \<or> same_kind (h ! d) (h[b := c] ! d) \<and> outside l k d"
    using assms by (cases "d = b") simp_all
qed simp

lemma touches_isolated:
  assumes "isolated A (length h) n y v" "touches (length h) (length n) (h @ n) h'"
  shows "A h' y = Some v"
proof -
  have l: "length h + length n \<le> length h'" using assms(2) by (simp add: touches_def)
  have "h' ! b = n ! (b - length h)" if "length h \<le> b" "b < length h + length n" for b
    using assms(2) that by (auto simp: touches_def outside_def nth_append)
  then have "take (length n) (drop (length h) h') = n"
    using l by (intro nth_equalityI) auto
  then have "h' = take (length h) h' @ n @ drop (length h + length n) h'"
    by (metis add.commute append_take_drop_id drop_drop)
  with assms(1) l show ?thesis
    unfolding isolated_def by (metis add_leD1 length_take min.absorb2)
qed

definition frame :: "(cell \<Rightarrow> 'g option) \<Rightarrow> heap \<Rightarrow> heap \<Rightarrow> bool" where
  "frame un h h' \<longleftrightarrow> (\<forall>b x. target un h b = Some x \<longrightarrow> target un h' b = Some x)"

lemma frame_pointee:
  assumes "frame un h h'" "pointee un plain h r = Some v"
  shows "pointee un plain h' r = Some v"
  using assms(2)
proof (cases rule: pointeeE)
  case (2 a x w)
  with assms(1) show ?thesis by (simp add: frame_def pointeeI plain_def)
qed (simp add: pointee_def)

lemma frame_contents:
  assumes "frame un h h'" "contents un plain h s = Some vs"
  shows "contents un plain h' s = Some vs"
  using assms(2)
proof (cases rule: contentsE)
  case (2 w arr)
  have "those (map (plain h') (elements w arr)) = Some vs" using 2(4) by (simp add: plain_def [abs_def])
  with 2 show ?thesis using assms(1) by (simp add: frame_def contents_def)
qed (simp add: contents_def)

lemma touches_frame:
  assumes "touches l k h h'"
  shows "frame un_time h h'" "frame un_map h h'" "frame un_strings h h'" "frame un_owners h h'"
proof -
  have *: "frame un h h'" if un: "\<And>c. kind_of c \<noteq> 0 \<Longrightarrow> un c = None" for un :: "cell \<Rightarrow> 'g option"
    unfolding frame_def
  proof (intro allI impI)
    fix b x assume x: "target un h b = Some x"
    then have b: "b < length h" "un (h ! b) = Some x" by (auto simp: target_def split: if_splits)
    with un [of "h ! b"] assms have "h' ! b = h ! b" "b < length h'"
      by (auto simp: touches_def same_kind_def)
    with b show "target un h' b = Some x" by (simp add: target_def)
  qed
  show "frame un_time h h'" "frame un_map h h'" "frame un_strings h h'" "frame un_owners h h'"
    by (rule *; erule kind_of_None)+
qed

lemma touches_values:
  assumes "touches l k h h'"
  shows "pointee un_time plain h r = Some u \<Longrightarrow> pointee un_time plain h' r = Some u"
    and "abs_objectMeta h x = Some m \<Longrightarrow> abs_objectMeta h' x = Some m"
    and "abs_notification h y = Some n \<Longrightarrow> abs_notification h' y = Some n"
  using frame_pointee [OF touches_frame(1) [OF assms]] frame_pointee [OF touches_frame(2) [OF assms]]
    frame_contents [OF touches_frame(3) [OF assms]] frame_contents [OF touches_frame(4) [OF assms]]
  by (auto simp: notification_fields objectMeta_fields)

section \<open>The changes refine those on values\<close>

text \<open>A status in memory whose run status and array of notifications do not belong to the copy.\<close>

definition status_view :: "nat \<Rightarrow> nat \<Rightarrow> heap \<Rightarrow> p_telcoHealthCheckRunStatus \<Rightarrow> telcoHealthCheckRunStatus \<Rightarrow> bool" where
  "status_view l k h p st \<longleftrightarrow> abs_recordStatus h p = Some st
     \<and> pred_option (outside l k) (prr_agenticRunStatus p)
     \<and> pred_option (\<lambda>w. outside l k (sl_base w)) (prr_notifications p)"

definition refines ::
  "(telcoHealthCheckRunStatus \<Rightarrow> bool) \<Rightarrow> change \<Rightarrow> (telcoHealthCheckRunStatus \<Rightarrow> telcoHealthCheckRunStatus) \<Rightarrow> bool" where
  "refines P f F \<longleftrightarrow> (\<forall>l k h p st. l + k \<le> length h \<longrightarrow> status_view l k h p st \<longrightarrow> P st \<longrightarrow>
     touches l k h (snd (run_state (f p) h)) \<and>
     status_view l k (snd (run_state (f p) h)) (fst (run_state (f p) h)) (F st))"

lemma those_snoc: "those (map f xs) = Some vs \<Longrightarrow> f x = Some v \<Longrightarrow> those (map f (xs @ [x])) = Some (vs @ [v])"
proof (induction xs arbitrary: vs)
  case (Cons y ys)
  then show ?case by (auto split: option.splits)
qed simp

lemma elements_append:
  "sl_off w + sl_len w < length arr \<Longrightarrow>
     elements (w\<lparr>sl_len := Suc (sl_len w)\<rparr>) (arr[sl_off w + sl_len w := x]) = elements w arr @ [x]"
  by (simp add: elements_def take_Suc_conv_app_nth drop_update_swap)

lemma elements_grown:
  "prefix xs (grow xs) \<Longrightarrow> elements \<lparr>sl_base = b, sl_off = 0, sl_len = length xs\<rparr> (grow xs) = xs"
  by (auto simp: elements_def prefix_def)

lemma notifications_later:
  assumes "touches l k h h'" "those (map (abs_notification h) xs) = Some vs"
  shows "those (map (abs_notification h') xs) = Some vs"
  by (rule those_map_mono [OF assms(2)]) (rule touches_values(3) [OF assms(1)])

text \<open>\<open>append\<close> adds the notification, wherever it puts it, and leaves the run statuses alone.\<close>

lemma append_notification:
  assumes "contents un_notifications abs_notification h s = Some vs" "abs_notification h n = Some v"
    and "pred_option (\<lambda>w. outside l k (sl_base w)) s" "l + k \<le> length h" "\<And>xs. prefix xs (grow xs)"
    and run: "run_state (go_append un_notifications CNotifications grow s n) h = (s', h')"
  shows "touches l k h h'" "frame un_runStatus h h'"
    "contents un_notifications abs_notification h' s' = Some (vs @ [v])"
    "pred_option (\<lambda>w. outside l k (sl_base w)) s'"
proof -
  have grown: "touches l k h h1 \<and> frame un_runStatus h h1
      \<and> contents un_notifications abs_notification h1 (Some \<lparr>sl_base = length h, sl_off = 0, sl_len = length xs\<rparr>)
          = Some (vs @ [v])"
    if "those (map (abs_notification h) xs) = Some (vs @ [v])" "h1 = h @ [CNotifications (grow xs)]" for xs h1
  proof (intro conjI)
    show t: "touches l k h h1" using that by simp
    show "frame un_runStatus h h1" using that by (simp add: frame_def target_append)
    show "contents un_notifications abs_notification h1 (Some \<lparr>sl_base = length h, sl_off = 0, sl_len = length xs\<rparr>)
          = Some (vs @ [v])"
      using notifications_later [OF t that(1)] assms(5) [of xs] that(2)
      by (intro contentsI) (auto simp: target_def elements_grown prefix_length_le)
  qed
  have "touches l k h h' \<and> frame un_runStatus h h'
      \<and> contents un_notifications abs_notification h' s' = Some (vs @ [v])
      \<and> pred_option (\<lambda>w. outside l k (sl_base w)) s'"
    using assms(1)
  proof (cases rule: contentsE)
    case 1
    with run have "s' = Some \<lparr>sl_base = length h, sl_off = 0, sl_len = length [n]\<rparr>"
      "h' = h @ [CNotifications (grow [n])]" by (auto simp: go_append_def)
    with grown [of "[n]" h'] 1 assms(2,4) show ?thesis by (simp add: outside_def)
  next
    case (2 w arr)
    note vs' = those_snoc [OF 2(4) assms(2)]
    have load: "Option.bind (if sl_base w < length h then Some (h ! sl_base w) else None) un_notifications = Some arr"
      by (rule target_load [OF 2(2)])
    show ?thesis
    proof (cases "sl_off w + sl_len w < length arr")
      case True
      define c where "c = CNotifications (arr[sl_off w + sl_len w := n])"
      with True run load 2(1) have s': "s' = Some (w\<lparr>sl_len := Suc (sl_len w)\<rparr>)" "h' = h[sl_base w := c]"
        by (auto simp: go_append_def)
      have b: "sl_base w < length h" "h ! sl_base w = CNotifications arr"
        using 2(2) by (auto simp: target_def split: if_splits elim: un_notifications.elims)
      have t: "touches l k h h'" unfolding s'
        using assms(3) 2(1) b by (intro touches_store) (auto simp: same_kind_def c_def)
      moreover have "frame un_runStatus h h'"
        using b by (auto simp: frame_def target_def s' c_def nth_list_update)
      moreover have "contents un_notifications abs_notification h' s' = Some (vs @ [v])"
        unfolding s'(1) using notifications_later [OF t vs'] True b(1)
        by (intro contentsI) (auto simp: target_def s'(2) c_def elements_append [unfolded c_def])
      ultimately show ?thesis using assms(3) 2(1) by (simp add: s'(1))
    next
      case False
      have len: "length (elements w arr @ [n]) = Suc (sl_len w)" using 2(3) by (simp add: elements_def)
      with False run load 2(1) have "s' = Some \<lparr>sl_base = length h, sl_off = 0, sl_len = length (elements w arr @ [n])\<rparr>"
        "h' = h @ [CNotifications (grow (elements w arr @ [n]))]"
        by (auto simp: go_append_def)
      with grown [OF vs', of h'] assms(4) show ?thesis by (simp add: outside_def)
    qed
  qed
  then show "touches l k h h'" "frame un_runStatus h h'"
    "contents un_notifications abs_notification h' s' = Some (vs @ [v])"
    "pred_option (\<lambda>w. outside l k (sl_base w)) s'" by blast+
qed

lemma refinesD:
  "refines P f F \<Longrightarrow> l + k \<le> length h \<Longrightarrow> status_view l k h p st \<Longrightarrow> P st \<Longrightarrow> run_state (f p) h = (p', h')
   \<Longrightarrow> touches l k h h' \<and> status_view l k h' p' (F st)"
  unfolding refines_def by (metis fst_conv snd_conv)

lemma refinesI:
  "(\<And>l k h p st. l + k \<le> length h \<Longrightarrow> status_view l k h p st \<Longrightarrow> P st
     \<Longrightarrow> touches l k h (snd (run_state (f p) h))
       \<and> status_view l k (snd (run_state (f p) h)) (fst (run_state (f p) h)) (F st))
   \<Longrightarrow> refines P f F"
  by (simp add: refines_def)

text \<open>A new time, and what stays of a status when it is allocated.\<close>

lemma view_alloc: "status_view l k h p st \<Longrightarrow> status_view l k (h @ z) p st"
  by (simp add: status_view_def stable_absD [OF stable_nested(2)])

lemma time_allocated [simp]: "pointee un_time plain (h @ CTime t # z) (Some (length h)) = Some (Some t)"
  by (simp add: pointee_def target_def plain_def nth_append)

lemma summary_read:
  "status_view l k h p st \<Longrightarrow> run_state (mem_summary p) h = (status_summary st, h)"
  by (auto simp: status_view_def recordStatus_fields mem_summary_def status_summary_def plain_def
      dest!: target_load elim!: pointeeE)

text \<open>Appending a notification to a status.\<close>

lemma firing_notification:
  "abs_notification h \<lparr>pan_firing = True, pan_startsAt = t, pan_endsAt = None, pan_summary = s\<rparr> =
     Some \<lparr>an_firing = True, an_startsAt = t, an_endsAt = None, an_summary = s\<rparr>"
  by (simp add: abs_notification_def pointee_def)

lemma notify_view:
  assumes "status_view l k h p st" "abs_notification h n = Some v" "l + k \<le> length h" "\<And>xs. prefix xs (grow xs)"
    and "run_state (notify grow n p) h = (p', h')"
  shows "touches l k h h' \<and> status_view l k h' p' (st\<lparr>rr_notifications := rr_notifications st @ [v]\<rparr>)"
proof -
  note view = assms(1) [unfolded status_view_def recordStatus_fields]
  obtain s' where run: "run_state (go_append un_notifications CNotifications grow (prr_notifications p) n) h = (s', h')"
    and p': "p' = p\<lparr>prr_notifications := s'\<rparr>"
    using assms(5) by (auto simp: notify_def split: prod.splits)
  note a = append_notification [OF _ assms(2) _ assms(3,4) run, of "rr_notifications st"]
  have t: "touches l k h h'" and f: "frame un_runStatus h h'"
    and c: "contents un_notifications abs_notification h' s' = Some (rr_notifications st @ [v])"
    and o: "pred_option (\<lambda>w. outside l k (sl_base w)) s'"
    using a view by blast+
  show ?thesis
    using view c o t frame_pointee [OF f] touches_values(1) [OF t]
    by (simp add: p' status_view_def recordStatus_fields)
qed

lemma refines_stop: "refines P mem_stop stopped"
  by (rule refinesI) (simp add: mem_stop_def stopped_def status_view_def recordStatus_fields contents_def pointee_def)

lemma refines_renew: "refines P (mem_renew t) (renewed t)"
  by (rule refinesI) (simp add: mem_renew_def renewed_def status_view_def recordStatus_fields kept
      stable_absD stable_abs)

lemma tail_elements: "0 < sl_len w \<Longrightarrow>
   elements (w\<lparr>sl_off := Suc (sl_off w), sl_len := sl_len w - 1\<rparr>) arr = tl (elements w arr)"
  by (simp add: elements_def tl_take tl_drop drop_Suc)

lemma those_tl: "those (map f xs) = Some vs \<Longrightarrow> those (map f (tl xs)) = Some (tl vs)"
  by (cases xs) (auto split: option.splits)

lemma refines_pop: "refines (\<lambda>st. rr_notifications st \<noteq> []) mem_pop popped"
proof (rule refinesI)
  fix l k h p st
  assume view: "status_view l k h p st" and ne: "rr_notifications st \<noteq> []"
  then have c: "contents un_notifications abs_notification h (prr_notifications p) = Some (rr_notifications st)"
    by (simp add: status_view_def recordStatus_fields)
  then obtain w arr where w: "prr_notifications p = Some w" "target un_notifications h (sl_base w) = Some arr"
    "sl_off w + sl_len w \<le> length arr" "those (map (abs_notification h) (elements w arr)) = Some (rr_notifications st)"
    using ne by (auto elim: contentsE)
  then have "0 < sl_len w" using ne by (cases "sl_len w") (simp_all add: elements_def)
  with w(3) those_tl [OF w(4)]
  have "contents un_notifications abs_notification h (go_tail (prr_notifications p)) = Some (tl (rr_notifications st))"
    unfolding w(1) go_tail_def option.map by (intro contentsI [of _ _ _ arr]) (simp_all add: w(2) tail_elements [simplified])
  with view show "touches l k h (snd (run_state (mem_pop p) h)) \<and>
     status_view l k (snd (run_state (mem_pop p) h)) (fst (run_state (mem_pop p) h)) (popped st)"
    by (simp add: mem_pop_def popped_def status_view_def recordStatus_fields w(1) go_tail_def)
qed

lemma refines_start: "(\<And>xs. prefix xs (grow xs)) \<Longrightarrow> refines P (mem_start grow t) (started t)"
proof (rule refinesI)
  fix l k h p st
  assume grow: "\<And>xs. prefix xs (grow xs)" and len: "l + k \<le> length h" and view: "status_view l k h p st"
  define h1 where "h1 = h @ [CTime t]"
  define p1 where "p1 = p\<lparr>prr_alertStartsAt := Some (length h)\<rparr>"
  have view1: "status_view l k h1 p1 (st\<lparr>rr_alertStartsAt := Some t\<rparr>)"
    using view_alloc [OF view, of "[CTime t]"] by (simp add: status_view_def recordStatus_fields p1_def h1_def)
  define n where "n = \<lparr>pan_firing = True, pan_startsAt = t, pan_endsAt = None, pan_summary = status_summary st\<rparr>"
  have n: "abs_notification h1 n =
      Some \<lparr>an_firing = True, an_startsAt = t, an_endsAt = None, an_summary = status_summary st\<rparr>"
    unfolding n_def by (rule firing_notification)
  obtain p' h' where run: "run_state (notify grow n p1) h1 = (p', h')" by fastforce
  have "run_state (mem_start grow t p) h = (p', h')"
    using run summary_read [OF view_alloc [OF view, of "[CTime t]"]] by (simp add: mem_start_def h1_def n_def p1_def)
  moreover have "touches l k h h1" by (simp add: h1_def)
  ultimately show "touches l k h (snd (run_state (mem_start grow t p) h)) \<and>
     status_view l k (snd (run_state (mem_start grow t p) h)) (fst (run_state (mem_start grow t p) h)) (started t st)"
    using notify_view [OF view1 n _ grow run] len touches_trans [of l k h h1 h']
    by (simp add: h1_def started_def)
qed

lemma start_read:
  "status_view l k h p st \<Longrightarrow>
     run_state (mem_startsAt t p) h = (case rr_alertStartsAt st of None \<Rightarrow> t | Some u \<Rightarrow> u, h)"
  by (auto simp: status_view_def recordStatus_fields mem_startsAt_def plain_def dest!: target_load
      elim!: pointeeE [of un_time])

lemma queue_firing:
  assumes "\<And>xs. prefix xs (grow xs)" "l + k \<le> length h" "status_view l k h p st" "rr_actionRequired st = ''True''"
    and "run_state (mem_queue grow t old p) h = (p', h')"
  shows "touches l k h h' \<and> status_view l k h' p' (notify_firing t st)"
proof -
  define h1 where "h1 = h @ [CTime t]"
  define p1 where "p1 = p\<lparr>prr_alertStartsAt := Some (length h), prr_lastAlertSentTime := None\<rparr>"
  have view1: "status_view l k h1 p1 (st\<lparr>rr_alertStartsAt := Some t, rr_lastAlertSentTime := None\<rparr>)"
    using view_alloc [OF assms(3), of "[CTime t]"]
    by (simp add: status_view_def recordStatus_fields p1_def h1_def pointee_def [of _ _ _ None])
  define n where "n = \<lparr>pan_firing = True, pan_startsAt = t, pan_endsAt = None, pan_summary = status_summary st\<rparr>"
  have n: "abs_notification h1 n =
      Some \<lparr>an_firing = True, an_startsAt = t, an_endsAt = None, an_summary = status_summary st\<rparr>"
    unfolding n_def by (rule firing_notification)
  have "prr_actionRequired p = ''True''" using assms(3,4) by (simp add: status_view_def recordStatus_fields)
  then have "run_state (notify grow n p1) h1 = (p', h')"
    using assms(5) summary_read [OF assms(3)] by (simp add: mem_queue_def h1_def n_def p1_def)
  from notify_view [OF view1 n _ assms(1) this] assms(2) touches_trans [of l k h h1 h']
  show ?thesis by (simp add: h1_def notify_firing_def)
qed

lemma queue_resolved:
  assumes "\<And>xs. prefix xs (grow xs)" "l + k \<le> length h" "status_view l k h p st" "rr_actionRequired st \<noteq> ''True''"
    and "run_state (mem_queue grow t ''True'' p) h = (p', h')"
  shows "touches l k h h' \<and> status_view l k h' p' (notify_resolved t st)"
proof -
  define s where "s = (case rr_alertStartsAt st of None \<Rightarrow> t | Some u \<Rightarrow> u)"
  define ends where "ends = (if s < t then t else s + second)"
  define h1 where "h1 = h @ [CTime ends]"
  have view1: "status_view l k h1 p st" using view_alloc [OF assms(3)] by (simp add: h1_def)
  define n where "n = \<lparr>pan_firing = False, pan_startsAt = s, pan_endsAt = Some (length h), pan_summary = status_summary st\<rparr>"
  have n: "abs_notification h1 n =
      Some \<lparr>an_firing = False, an_startsAt = s, an_endsAt = Some ends, an_summary = status_summary st\<rparr>"
    by (simp add: n_def h1_def abs_notification_def)
  have act: "prr_actionRequired p \<noteq> ''True''" using assms(3,4) by (simp add: status_view_def recordStatus_fields)
  obtain p2 h2 where run: "run_state (notify grow n p) h1 = (p2, h2)" by fastforce
  then have "p' = p2\<lparr>prr_alertStartsAt := None, prr_lastAlertSentTime := None\<rparr>" "h' = h2"
    using assms(5) act summary_read [OF assms(3)] start_read [OF assms(3)]
    by (auto simp: mem_queue_def h1_def n_def ends_def s_def cong: if_cong)
  from notify_view [OF view1 n _ assms(1) run] assms(2) this touches_trans [of l k h h1 h']
  show ?thesis
    by (simp add: h1_def notify_resolved_def status_view_def recordStatus_fields Let_def flip: s_def ends_def)
      (simp add: pointee_def)
qed

lemma refines_queue:
  assumes "\<And>xs. prefix xs (grow xs)"
  shows "refines P (mem_queue grow t old) (queue_at t old)"
proof (rule refinesI)
  fix l k h p st
  assume len: "l + k \<le> length h" and view: "status_view l k h p st"
  obtain p' h' where run: "run_state (mem_queue grow t old p) h = (p', h')" by fastforce
  have act: "prr_actionRequired p = rr_actionRequired st" using view by (simp add: status_view_def recordStatus_fields)
  consider "rr_actionRequired st = ''True''" | "rr_actionRequired st \<noteq> ''True''" "old = ''True''"
    | "rr_actionRequired st \<noteq> ''True''" "old \<noteq> ''True''" by blast
  then have "touches l k h h' \<and> status_view l k h' p' (queue_at t old st)"
  proof cases
    case 1
    with queue_firing [OF assms len view 1 run] show ?thesis by (simp add: queue_at_def)
  next
    case 2
    with queue_resolved [OF assms len view 2(1)] run show ?thesis by (simp add: queue_at_def)
  next
    case 3
    with run act view show ?thesis by (simp add: queue_at_def mem_queue_def)
  qed
  then show "touches l k h (snd (run_state (mem_queue grow t old p) h)) \<and>
     status_view l k (snd (run_state (mem_queue grow t old p) h)) (fst (run_state (mem_queue grow t old p) h))
       (queue_at t old st)"
    by (simp add: run)
qed

text \<open>A write through the pointer to the run status.\<close>

lemma runStatus_cell:
  assumes "status_view l k h p st" "prr_agenticRunStatus p = Some b"
  obtains s where "rr_agenticRunStatus st = Some s" "b < length h" "h ! b = CRunStatus s" "outside l k b"
  using assms by (auto simp: status_view_def recordStatus_fields target_def plain_def split: if_splits
      elim!: pointeeE un_runStatus.elims)

lemma runStatus_written:
  assumes view: "status_view l k h p st" and b: "prr_agenticRunStatus p = Some b"
    and s: "rr_agenticRunStatus st = Some s"
  shows "snd (run_state (change_runStatus b f) h) = h[b := CRunStatus (f s)]"
    "touches l k h (h[b := CRunStatus (f s)])"
    "status_view l k (h[b := CRunStatus (f s)]) p (st\<lparr>rr_agenticRunStatus := Some (f s)\<rparr>)"
proof -
  from runStatus_cell [OF view b] s have cell: "b < length h" "h ! b = CRunStatus s" "outside l k b" by auto
  then show "snd (run_state (change_runStatus b f) h) = h[b := CRunStatus (f s)]"
    by (simp add: change_runStatus_def)
  show t: "touches l k h (h[b := CRunStatus (f s)])"
    using cell by (intro touches_store) (simp_all add: same_kind_def)
  note v = view [unfolded status_view_def recordStatus_fields]
  have "frame un_notifications h (h[b := CRunStatus (f s)])"
    using cell by (auto simp: frame_def target_def nth_list_update split: if_splits)
  then have "contents un_notifications abs_notification (h[b := CRunStatus (f s)]) (prr_notifications p)
      = Some (rr_notifications st)"
    using v notifications_later [OF t]
    by (auto simp: contents_def frame_def split: option.splits if_splits)
  then show "status_view l k (h[b := CRunStatus (f s)]) p (st\<lparr>rr_agenticRunStatus := Some (f s)\<rparr>)"
    using v b cell touches_values(1) [OF t]
    by (simp add: status_view_def recordStatus_fields pointee_def [of un_runStatus] target_def plain_def)
qed

lemma written_if:
  assumes "status_view l k h p st" "prr_agenticRunStatus p = Some b" "rr_agenticRunStatus st = Some s"
  obtains h' where "run_state (write_if c b f) h = ((), h')" "touches l k h h'"
    "status_view l k h' p (st\<lparr>rr_agenticRunStatus := Some (if c then f s else s)\<rparr>)"
proof (cases c)
  case True
  with that [of "h[b := CRunStatus (f s)]"] runStatus_written [OF assms, of f] show ?thesis
    by (cases "run_state (change_runStatus b f) h") (simp add: write_if_def)
next
  case False
  moreover have "st\<lparr>rr_agenticRunStatus := Some s\<rparr> = st" using assms(3) by (cases st) simp
  ultimately show ?thesis using that [of h] assms(1) by (simp add: write_if_def)
qed

lemma refines_observe: "refines P (mem_observe ct ph su ac) (observe ct ph su ac)"
proof (rule refinesI)
  fix l k h p st
  assume len: "l + k \<le> length h" and view: "status_view l k h p st"
  define s0 where "s0 = (case rr_agenticRunStatus st of None \<Rightarrow> zero_agenticRunStatus | Some s \<Rightarrow> s)"
  define act where "act = (if ct = '''' then prr_actionRequired p else if ct \<noteq> ''Analyzed'' then ''False'' else ac)"
  obtain b h0 where alloc: "run_state (case prr_agenticRunStatus p of
        None \<Rightarrow> alloc (CRunStatus zero_agenticRunStatus) | Some b \<Rightarrow> hret b) h = (b, h0)" by fastforce
  define p0 where "p0 = p\<lparr>prr_agenticRunStatus := Some b, prr_actionRequired := act\<rparr>"
  have t0: "touches l k h h0" and v0: "status_view l k h0 p0 (st\<lparr>rr_actionRequired := act, rr_agenticRunStatus := Some s0\<rparr>)"
  proof -
    have "touches l k h h0 \<and> status_view l k h0 p0 (st\<lparr>rr_actionRequired := act, rr_agenticRunStatus := Some s0\<rparr>)"
    proof (cases "prr_agenticRunStatus p")
      case None
      with alloc have h0: "b = length h" "h0 = h @ [CRunStatus zero_agenticRunStatus]" by auto
      have "rr_agenticRunStatus st = None" using None view by (simp add: status_view_def recordStatus_fields pointee_def)
      with len view_alloc [OF view, of "[CRunStatus zero_agenticRunStatus]"] show ?thesis
        by (simp add: h0 p0_def s0_def status_view_def recordStatus_fields outside_def pointee_def [of un_runStatus]
            target_def plain_def)
    next
      case (Some b')
      with alloc have "b = b'" "h0 = h" by auto
      moreover obtain s where "rr_agenticRunStatus st = Some s" using runStatus_cell [OF view Some] .
      ultimately show ?thesis using Some view
        by (simp add: p0_def s0_def status_view_def recordStatus_fields)
    qed
    then show "touches l k h h0" "status_view l k h0 p0 (st\<lparr>rr_actionRequired := act, rr_agenticRunStatus := Some s0\<rparr>)"
      by simp_all
  qed
  have b0: "prr_agenticRunStatus p0 = Some b" by (simp add: p0_def)
  define s1 where "s1 = (if ct \<noteq> '''' then s0\<lparr>rs_type := ct, rs_phase := ph\<rparr> else s0)"
  obtain h1 where h1: "run_state (write_if (ct \<noteq> '''') b (\<lambda>s. s\<lparr>rs_type := ct, rs_phase := ph\<rparr>)) h0 = ((), h1)"
    "touches l k h0 h1" and v1: "status_view l k h1 p0 (st\<lparr>rr_actionRequired := act, rr_agenticRunStatus := Some s1\<rparr>)"
    unfolding s1_def
    by (rule written_if [OF v0 b0, of s0 "ct \<noteq> ''''" "\<lambda>s. s\<lparr>rs_type := ct, rs_phase := ph\<rparr>"]) simp_all
  obtain h2 where h2: "run_state (write_if (su \<noteq> '''') b (\<lambda>s. s\<lparr>rs_summary := su\<rparr>)) h1 = ((), h2)"
    "touches l k h1 h2" and v2: "status_view l k h2 p0 (st\<lparr>rr_actionRequired := act,
      rr_agenticRunStatus := Some (if su \<noteq> '''' then s1\<lparr>rs_summary := su\<rparr> else s1)\<rparr>)"
    by (rule written_if [OF v1 b0, of s1 "su \<noteq> ''''" "\<lambda>s. s\<lparr>rs_summary := su\<rparr>"]) simp_all
  have "act = (if ct = '''' then rr_actionRequired st else if ct \<noteq> ''Analyzed'' then ''False'' else ac)"
    using view by (simp add: act_def status_view_def recordStatus_fields)
  then have "observe ct ph su ac st = st\<lparr>rr_actionRequired := act,
      rr_agenticRunStatus := Some (if su \<noteq> '''' then s1\<lparr>rs_summary := su\<rparr> else s1)\<rparr>"
    by (simp add: observe_def Let_def s1_def flip: s0_def)
  with v2 have v2': "status_view l k h2 p0 (observe ct ph su ac st)" by simp
  have "run_state (mem_observe ct ph su ac p) h = (p0, h2)"
    using alloc h1(1) h2(1) by (simp add: mem_observe_def p0_def act_def)
  moreover have "touches l k h h2" by (rule touches_trans [OF touches_trans [OF t0 h1(2)] h2(2)])
  ultimately show "touches l k h (snd (run_state (mem_observe ct ph su ac p) h)) \<and>
     status_view l k (snd (run_state (mem_observe ct ph su ac p) h))
       (fst (run_state (mem_observe ct ph su ac p) h)) (observe ct ph su ac st)"
    using v2' by simp
qed

lemma current_read:
  "status_view l k h p st \<Longrightarrow> run_state (mem_current event p) h = (current_firing st event, h)"
  by (auto simp: status_view_def recordStatus_fields mem_current_def current_firing_def plain_def
      dest!: target_load elim!: pointeeE [of un_time])

definition delivered_status :: "alertNotification \<Rightarrow> instant \<Rightarrow> telcoHealthCheckRunStatus \<Rightarrow> telcoHealthCheckRunStatus" where
  "delivered_status event t st = (if current_firing st event then renewed t (popped st) else popped st)"

lemma refines_deliver: "refines (\<lambda>st. rr_notifications st \<noteq> []) (mem_deliver event t) (delivered_status event t)"
proof (rule refinesI)
  fix l k h p st
  assume len: "l + k \<le> length h" and view: "status_view l k h p st" and ne: "rr_notifications st \<noteq> []"
  obtain p1 where p1: "run_state (mem_pop p) h = (p1, h)" by (simp add: mem_pop_def)
  have v1: "status_view l k h p1 (popped st)" using refinesD [OF refines_pop len view ne p1] by simp
  have c: "run_state (mem_current event p1) h = (current_firing st event, h)"
    using current_read [OF v1, of event] by (simp add: current_firing_def popped_def)
  obtain p2 h2 where p2: "run_state (mem_renew t p1) h = (p2, h2)" by fastforce
  show "touches l k h (snd (run_state (mem_deliver event t p) h)) \<and>
     status_view l k (snd (run_state (mem_deliver event t p) h)) (fst (run_state (mem_deliver event t p) h))
       (delivered_status event t st)"
    using refinesD [OF refines_renew len v1 TrueI p2] v1
    by (simp add: mem_deliver_def p1 c p2 delivered_status_def)
qed

section \<open>The record and the base of its patch\<close>

definition record_view ::
  "nat \<Rightarrow> nat \<Rightarrow> heap \<Rightarrow> nat \<Rightarrow> type_meta \<Rightarrow> object_meta \<Rightarrow> telcoHealthCheckRunStatus \<Rightarrow> bool" where
  "record_view l k h a ty m st \<longleftrightarrow> (\<exists>x. target un_record h a = Some x \<and> outside l k a \<and> prec_type x = ty
     \<and> abs_objectMeta h (prec_meta x) = Some m \<and> status_view l k h (prec_status x) st)"

abbreviation record_of :: "object_meta \<Rightarrow> telcoHealthCheckRunStatus \<Rightarrow> telcoHealthCheckRun" where
  "record_of m st \<equiv> object_meta.extend m (telcoHealthCheckRun.fields st)"

lemma record_viewE:
  assumes "record_view l k h a ty m st"
  obtains x where "a < length h" "h ! a = CRecord x" "outside l k a" "prec_type x = ty"
    "abs_objectMeta h (prec_meta x) = Some m" "status_view l k h (prec_status x) st"
  using assms by (auto simp: record_view_def target_def split: if_splits elim!: un_record.elims)

lemma record_at_view: "record_view l k h a ty m st \<Longrightarrow> record_at h (Some a) = Some (Some (ty, record_of m st))"
  by (auto simp: record_view_def record_at_def record_fields status_view_def intro!: pointeeI)

text \<open>A freshly made copy does not overlap with the record.\<close>

lemma record_view_at:
  assumes "record_at h (Some a) = Some (Some (ty, r))"
  obtains m st where "r = record_of m st" "rec_status r = st" "record_view (length h) (length n) (h @ n) a ty m st"
proof -
  obtain x where x: "target un_record h a = Some x" "abs_record h x = Some (ty, r)"
    using assms by (auto simp: record_at_def elim: pointeeE)
  then obtain m st where m: "abs_objectMeta h (prec_meta x) = Some m" "abs_recordStatus h (prec_status x) = Some st"
    "prec_type x = ty" "r = record_of m st" by (auto simp: record_fields)
  have "a < length h" using x by (auto simp: target_def split: if_splits)
  moreover have "pred_option (outside (length h) (length n)) (prr_agenticRunStatus (prec_status x))"
    using m(2) by (auto simp: recordStatus_fields outside_def target_def elim!: pointeeE split: if_splits)
  moreover have "pred_option (\<lambda>w. outside (length h) (length n) (sl_base w)) (prr_notifications (prec_status x))"
    using m(2) by (auto simp: recordStatus_fields outside_def target_def elim!: contentsE split: if_splits)
  ultimately have "record_view (length h) (length n) (h @ n) a ty m st"
    using x m target_append [of un_record h a] stable_absD [OF stable_values(6)] stable_absD [OF stable_nested(2)]
    by (auto simp: record_view_def status_view_def outside_def)
  moreover have "rec_status r = st" by (simp add: m(4) object_meta.defs telcoHealthCheckRun.defs)
  ultimately show thesis using that m(4) by blast
qed

lemma record_written:
  assumes "a < length h" "h ! a = CRecord x"
  shows "abs_recordStatus (h[a := CRecord y]) p = abs_recordStatus h p"
proof -
  have t: "target un (h[a := CRecord y]) b = target un h b" if "un (CRecord x) = None" "un (CRecord y) = None"
    for un :: "cell \<Rightarrow> 'g option" and b
    using assms that by (auto simp: target_def nth_list_update)
  have "abs_notification (h[a := CRecord y]) = abs_notification h"
    by (rule ext) (simp add: abs_notification_def pointee_def t plain_def cong: option.case_cong)
  moreover have "pointee un_runStatus plain (h[a := CRecord y]) r = pointee un_runStatus plain h r"
    "pointee un_time plain (h[a := CRecord y]) r = pointee un_time plain h r" for r
    by (simp_all add: pointee_def t plain_def cong: option.case_cong)
  ultimately show ?thesis
    by (simp add: abs_recordStatus_def contents_def t cong: option.case_cong if_cong)
qed

lemma change_record:
  assumes "refines P f F" "l + k \<le> length h" "record_view l k h a ty m st" "P st"
    and run: "run_state (change_status a f) h = (u, h')"
  shows "touches l k h h' \<and> record_view l k h' a ty m (F st)"
  using assms(3)
proof (rule record_viewE)
  fix x assume x: "a < length h" "h ! a = CRecord x" "outside l k a" "prec_type x = ty"
    "abs_objectMeta h (prec_meta x) = Some m" "status_view l k h (prec_status x) st"
  obtain p h1 where p: "run_state (f (prec_status x)) h = (p, h1)" by fastforce
  define y where "y = x\<lparr>prec_status := p\<rparr>"
  have h': "h' = h1[a := CRecord y]" using run x(1,2) p by (simp add: change_status_def y_def)
  from refinesD [OF assms(1,2) x(6) assms(4) p]
  have t1: "touches l k h h1" and v1: "status_view l k h1 p (F st)" by simp_all
  have a: "a < length h1" using t1 x(1) by (simp add: touches_def)
  have "kind_of (h1 ! a) = 1" using t1 x(1,2) by (auto simp: touches_def same_kind_def)
  then obtain x1 where x1: "h1 ! a = CRecord x1" by (cases "h1 ! a") simp_all
  have t2: "touches l k h1 h'" unfolding h' using x(3) x1 by (intro touches_store) (simp_all add: same_kind_def)
  have t: "touches l k h h'" by (rule touches_trans [OF t1 t2])
  moreover have "record_view l k h' a ty m (F st)"
    unfolding record_view_def
  proof (intro exI [of _ y] conjI)
    show "target un_record h' a = Some y" using a by (simp add: h' target_def)
    show "abs_objectMeta h' (prec_meta y) = Some m" using touches_values(2) [OF t x(5)] by (simp add: y_def)
    show "status_view l k h' (prec_status y) (F st)"
      using v1 record_written [OF a x1] by (simp add: status_view_def h' y_def)
  qed (simp_all add: x(3,4) y_def)
  ultimately show ?thesis ..
qed

text \<open>
  The contract of a change that is patched: \<open>before\<close> is worth what the record was, and the record is
  worth what the function on values makes of it.
\<close>

definition patch_refines ::
  "copylib \<Rightarrow> (telcoHealthCheckRunStatus \<Rightarrow> bool) \<Rightarrow> change
   \<Rightarrow> (telcoHealthCheckRunStatus \<Rightarrow> telcoHealthCheckRunStatus) \<Rightarrow> bool" where
  "patch_refines C P f F \<longleftrightarrow> (\<forall>h a ty r. record_at h (Some a) = Some (Some (ty, r)) \<longrightarrow> P (rec_status r) \<longrightarrow>
     (case run_state (patched C a f) h of (before, h') \<Rightarrow>
        record_at h' before = Some (Some (ty, r)) \<and>
        record_at h' (Some a) = Some (Some (ty, r\<lparr>rec_status := F (rec_status r)\<rparr>))))"

text \<open>The copy that starts a patch, and what it leaves.\<close>

lemma base_copied:
  assumes "deep_copies C" "record_at h (Some a) = Some (Some (ty, r))"
  obtains before n where "run_state (TelcoHealthCheckRun_DeepCopy C (Some a)) h = (before, h @ n)"
    "\<And>h'. touches (length h) (length n) (h @ n) h' \<Longrightarrow> record_at h' before = Some (Some (ty, r))"
proof -
  obtain before h' where run: "run_state (TelcoHealthCheckRun_DeepCopy C (Some a)) h = (before, h')" by fastforce
  have deep: "deep_copy (pointee un_record abs_record) (TelcoHealthCheckRun_DeepCopy C)"
    using deep_copies.object_copies [OF assms(1)] by (simp add: object_copies_deep_def)
  from deep_copy_run [OF deep stable_pointee [OF stable_objects(2)] assms(2) [unfolded record_at_def] run]
  obtain n where "h' = h @ n" "isolated (pointee un_record abs_record) (length h) n before (Some (ty, r))" .
  with run show thesis
    by (intro that [of before n]) (auto simp: record_at_def intro: touches_isolated)
qed

lemma record_of_update [simp]: "(record_of m st)\<lparr>rec_status := st'\<rparr> = record_of m st'"
  by (simp add: object_meta.defs telcoHealthCheckRun.defs)

lemma patch_refinesI:
  assumes "deep_copies C" "refines P f F"
  shows "patch_refines C P f F"
  unfolding patch_refines_def
proof (intro allI impI)
  fix h a ty r
  assume r: "record_at h (Some a) = Some (Some (ty, r))" and P: "P (rec_status r)"
  obtain before n where copy: "run_state (TelcoHealthCheckRun_DeepCopy C (Some a)) h = (before, h @ n)"
    "\<And>h'. touches (length h) (length n) (h @ n) h' \<Longrightarrow> record_at h' before = Some (Some (ty, r))"
    by (rule base_copied [OF assms(1) r]) blast
  obtain m st where v: "r = record_of m st" "rec_status r = st"
    "record_view (length h) (length n) (h @ n) a ty m st" by (rule record_view_at [OF r])
  obtain u h' where run: "run_state (change_status a f) (h @ n) = (u, h')" by (metis surj_pair)
  from change_record [OF assms(2) _ v(3) _ run] P v(2)
  have t: "touches (length h) (length n) (h @ n) h'" and v': "record_view (length h) (length n) h' a ty m (F st)"
    by simp_all
  have "run_state (patched C a f) h = (before, h')" by (simp add: patched_def copy(1) run)
  with copy(2) [OF t] record_at_view [OF v'] v(1,2)
  show "case run_state (patched C a f) h of (before, h') \<Rightarrow>
        record_at h' before = Some (Some (ty, r)) \<and>
        record_at h' (Some a) = Some (Some (ty, r\<lparr>rec_status := F (rec_status r)\<rparr>))"
    by simp
qed

text \<open>
  C16. The record reconciler patches what its model patches: the record in memory, changed after
  \<open>DeepCopy\<close> as \<open>runalerts.go\<close> changes it (delivery stopped, first notification appended, head popped and
  alert renewed, alert renewed alone), is worth what the functions on values make of it, and the base of
  the patch still what it was, whether or not \<open>append\<close> wrote in place.
\<close>

theorem delivery_patches_refine:
  assumes "deep_copies C" "\<And>xs. prefix xs (grow xs)"
  shows "patch_refines C (\<lambda>_. True) mem_stop stopped
    \<and> patch_refines C (\<lambda>_. True) (mem_start grow t) (started t)
    \<and> patch_refines C (\<lambda>st. rr_notifications st \<noteq> []) (mem_deliver event t) (delivered_status event t)
    \<and> patch_refines C (\<lambda>_. True) (mem_renew t) (renewed t)"
  by (intro conjI patch_refinesI [OF assms(1)] refines_stop refines_start [OF assms(2)] refines_deliver refines_renew)

theorem delivery_patches_refine_witness:
  "patch_refines plain_copylib (\<lambda>_. True) mem_stop stopped
    \<and> patch_refines plain_copylib (\<lambda>_. True) (mem_start (\<lambda>xs. xs @ xs) 5) (started 5)
    \<and> patch_refines plain_copylib (\<lambda>st. rr_notifications st \<noteq> [])
        (mem_deliver \<lparr>an_firing = True, an_startsAt = 3, an_endsAt = None, an_summary = ''''\<rparr> 5)
        (delivered_status \<lparr>an_firing = True, an_startsAt = 3, an_endsAt = None, an_summary = ''''\<rparr> 5)
    \<and> patch_refines plain_copylib (\<lambda>_. True) (mem_renew 5) (renewed 5)"
  by (rule delivery_patches_refine [OF plain_copies.deep_copies_axioms]) simp

lemma action_read:
  assumes "record_at h r = Some (Some (ty, x))"
  shows "run_state (mem_action r) h = (rr_actionRequired (rec_status x), h)"
proof -
  obtain a y where r: "r = Some a" "target un_record h a = Some y" "abs_record h y = Some (ty, x)"
    using assms by (auto simp: record_at_def elim: pointeeE)
  then show ?thesis
    using target_load [OF r(2)]
    by (auto simp: mem_action_def record_fields recordStatus_fields object_meta.defs telcoHealthCheckRun.defs)
qed

lemma status_at_record: "record_at h r = Some (Some (ty, x)) \<Longrightarrow> status_at h r = Some (rec_status x)"
  by (simp add: status_at_def)

text \<open>
  C15. A status sync compares and patches what its model compares and patches: after \<open>DeepCopy\<close> and the
  writes of \<open>syncHubRunStatus\<close> (some through the pointer the old status holds too) a patch is made iff the
  observation changes the status; \<open>before\<close> is worth the record as it was read, the record what
  \<open>observe\<close> and \<open>queueActionAlert\<close> make of it.
\<close>

theorem sync_patch_refines:
  assumes "deep_copies C" "\<And>xs. prefix xs (grow xs)" "record_at h (Some a) = Some (Some (ty, r))"
    and "run_state (mem_sync C grow ct ph su ac t a) h = ((before, changed), h')"
  shows "record_at h' before = Some (Some (ty, r))
    \<and> (changed \<longleftrightarrow> observe ct ph su ac (rec_status r) \<noteq> rec_status r)
    \<and> record_at h' (Some a) = Some (Some (ty, r\<lparr>rec_status :=
        (if changed then synced ct ph su ac t (rec_status r) else rec_status r)\<rparr>))"
proof -
  obtain b n where copy: "run_state (TelcoHealthCheckRun_DeepCopy C (Some a)) h = (b, h @ n)"
    "\<And>h'. touches (length h) (length n) (h @ n) h' \<Longrightarrow> record_at h' b = Some (Some (ty, r))"
    by (rule base_copied [OF assms(1,3)]) blast
  obtain m st where v: "r = record_of m st" "rec_status r = st"
    "record_view (length h) (length n) (h @ n) a ty m st" by (rule record_view_at [OF assms(3)])
  obtain u1 h1 where r1: "run_state (change_status a (mem_observe ct ph su ac)) (h @ n) = (u1, h1)" by (metis surj_pair)
  from change_record [OF refines_observe _ v(3) TrueI r1]
  have t1: "touches (length h) (length n) (h @ n) h1"
    and v1: "record_view (length h) (length n) h1 a ty m (observe ct ph su ac st)" by simp_all
  note b1 = copy(2) [OF t1] and a1 = record_at_view [OF v1]
  have len: "length h + length n \<le> length h1" using t1 by (simp add: touches_def)
  obtain u2 h2 where r2: "run_state (change_status a (mem_queue grow t (rr_actionRequired st))) h1 = (u2, h2)" by (metis surj_pair)
  from change_record [OF refines_queue [OF assms(2)] len v1 TrueI r2]
  have t2: "touches (length h) (length n) h1 h2" and v2: "record_view (length h) (length n) h2 a ty m
      (queue_at t (rr_actionRequired st) (observe ct ph su ac st))" by simp_all
  note b2 = copy(2) [OF touches_trans [OF t1 t2]] and a2 = record_at_view [OF v2]
  have st: "rec_status (record_of m s) = s" for s by (simp add: object_meta.defs telcoHealthCheckRun.defs)
  show ?thesis
    using assms(4) copy(1) r1 r2 action_read [OF b1] action_read [OF a1] b1 a1 b2 a2 v(1,2) st
      status_at_record [OF a1] status_at_record [OF b1]
    by (auto simp: mem_sync_def equal_status_def synced_def split: if_splits)
qed

definition sample_heap :: heap where
  "sample_heap =
     [CRecord \<lparr>prec_type = ('''', ''''),
        prec_meta = \<lparr>pom_name = ''rec'', pom_namespace = ''ns'', pom_uid = '''', pom_resourceVersion = '''',
          pom_labels = None, pom_annotations = None, pom_finalizers = None, pom_owners = None,
          pom_creation = None, pom_deletion = None\<rparr>,
        prec_spec = (),
        prec_status = \<lparr>prr_agenticRunName = ''run'', prr_clusterName = ''c'', prr_triggeredBy = '''',
          prr_trigger = '''', prr_agenticRunStatus = Some 1, prr_actionRequired = '''',
          prr_notifications = None, prr_alertStartsAt = None, prr_lastAlertSentTime = None\<rparr>\<rparr>,
      CRunStatus zero_agenticRunStatus]"

definition sample_record :: telcoHealthCheckRun where
  "sample_record = record_of (empty_meta ''ns'' ''rec'')
     \<lparr>rr_agenticRunName = ''run'', rr_clusterName = ''c'', rr_triggeredBy = '''', rr_trigger = '''',
      rr_agenticRunStatus = Some zero_agenticRunStatus, rr_actionRequired = '''', rr_notifications = [],
      rr_alertStartsAt = None, rr_lastAlertSentTime = None\<rparr>"

lemma sample_record_at: "record_at sample_heap (Some 0) = Some (Some (('''', ''''), sample_record))"
  by (simp add: sample_heap_def sample_record_def record_at_def pointee_def target_def abs_record_def
      abs_objectMeta_def abs_recordStatus_def contents_def plain_def map_value_def empty_meta_def)

lemma nested_pair:
  obtains x y z where "p = ((x, y), z)"
  by (cases p; cases "fst p") auto

theorem sync_patch_refines_witness:
  "\<exists>before h'. run_state (mem_sync plain_copylib (\<lambda>xs. xs @ xs) ''Analyzed'' ''Done'' '''' ''True'' 7 0) sample_heap
       = ((before, True), h')
     \<and> record_at h' before = Some (Some (('''', ''''), sample_record))
     \<and> record_at h' (Some 0) = Some (Some (('''', ''''), sample_record\<lparr>rec_status :=
         synced ''Analyzed'' ''Done'' '''' ''True'' 7 (rec_status sample_record)\<rparr>))"
proof -
  obtain before changed h' where run:
    "run_state (mem_sync plain_copylib (\<lambda>xs. xs @ xs) ''Analyzed'' ''Done'' '''' ''True'' 7 0) sample_heap
       = ((before, changed), h')" by (rule nested_pair)
  have "prefix xs (xs @ xs)" for xs :: "p_alertNotification list" by simp
  from sync_patch_refines [OF plain_copies.deep_copies_axioms this sample_record_at run]
  have base: "record_at h' before = Some (Some (('''', ''''), sample_record))"
    and ch: "changed \<longleftrightarrow> observe ''Analyzed'' ''Done'' '''' ''True'' (rec_status sample_record) \<noteq> rec_status sample_record"
    and new: "record_at h' (Some 0) = Some (Some (('''', ''''), sample_record\<lparr>rec_status := (if changed then
        synced ''Analyzed'' ''Done'' '''' ''True'' 7 (rec_status sample_record) else rec_status sample_record)\<rparr>))"
    by blast+
  have "rr_actionRequired (observe ''Analyzed'' ''Done'' '''' ''True'' (rec_status sample_record)) = ''True''"
    by (simp add: observe_def Let_def)
  moreover have "rr_actionRequired (rec_status sample_record) = ''''"
    by (simp add: sample_record_def object_meta.defs telcoHealthCheckRun.defs)
  ultimately have "changed" using ch by auto
  with base new run show ?thesis by (intro exI [of _ before] exI [of _ h']) simp
qed

text \<open>The model of the sync on values patches \<open>synced\<close> of the second in which it reads the clock.\<close>

lemma queueActionAlert_synced:
  "queueActionAlert e (observe ct ph su ac st) st =
     (if rr_actionRequired st = rr_actionRequired (observe ct ph su ac st) then ret (observe ct ph su ac st)
      else do { t \<leftarrow> now e; ret (synced ct ph su ac (truncate_second t) st) })"
  by (simp add: queueActionAlert_def synced_def Let_def)

end
