(* ===== verification/Crash_Recovery.thy ===== *)
theory Crash_Recovery
  imports Record_Hub Periodic_Runs
begin

text \<open>
  A creation that was cut short by a crash is completed by recovery (\<open>runrecovery.go\<close>), on a hub
  that does its work: the record that \<open>Begin\<close> left pending gets the outcome that the hub shows, and
  loses its annotation. The laws of the hub are those of \<open>Record_Hub\<close>, for a cache that is current.
\<close>

section \<open>One pass over the listed records\<close>

text \<open>What recovery may conclude from the answer to the read of the AgenticRun.\<close>

definition recovered_phase :: "ulib \<Rightarrow> telcoHealthCheckRun \<Rightarrow> resp \<Rightarrow> string option" where
  "recovered_phase L r g = (case as_unstr g of
       Inl er \<Rightarrow> if isNotFound er then Some PhaseFailed else None
     | Inr run \<Rightarrow> if run_matches L run r then Some PhaseCreated else None)"

definition recovered :: "ulib \<Rightarrow> telcoHealthCheckRun \<Rightarrow> resp \<Rightarrow> telcoHealthCheckRun" where
  "recovered L r g = (case recovered_phase L r g of None \<Rightarrow> r | Some ph \<Rightarrow> settle ph r)"

text \<open>A pending record of a complete identity, past the grace period whenever the clock is read.\<close>

definition overdue :: "env \<Rightarrow> telcoHealthCheckRun \<Rightarrow> bool" where
  "overdue e r \<longleftrightarrow> counts_as_pending r \<and> rr_clusterName (rec_status r) \<noteq> '''' \<and> rr_agenticRunName (rec_status r) \<noteq> ''''
     \<and> (\<exists>created. om_creation r = Some created \<and> (\<forall>t. pendingRunGrace \<le> time_sub (as_time (e t Now)) created))"

lemma recover_loop_append:
  "recover_loop k L e ns (xs @ ys) p = do { q \<leftarrow> recover_loop k L e ns xs p; recover_loop k L e ns ys q }"
  by (induction xs arbitrary: p) simp_all

locale cached_record = quiet_record e Cached ns name view
  for e :: env and ns name :: string and view :: "trace \<Rightarrow> telcoHealthCheckRun"
begin

lemma leaves_recover_one:
  assumes "om_name r \<noteq> name" shows "leaves (recover_one k L e ns r)"
proof -
  note settled = leaves_finishCreation [OF assms]
  show ?thesis
    unfolding recover_one_def Fail_def Confirm_def
    by (intro leaves settled) (use assms in \<open>simp add: is_at_def\<close>)
qed

lemma leaves_recover_loop: "name \<notin> om_name ` set rs \<Longrightarrow> leaves (recover_loop k L e ns rs p)"
  by (induction rs arbitrary: p) (auto intro!: leaves leaves_recover_one)

lemma recover_one_run:
  assumes od: "overdue e r" and r: "content (view t) = content r" "om_name r = name"
    and g: "\<And>t. e t (Get Cached AgenticRunKind AgenticNamespace (rr_agenticRunName (rec_status r))) = g"
  shows "content (view (snd (run_state (recover_one k L e ns r) t))) = content (recovered L r g)"
proof -
  let ?get = "(Get Cached AgenticRunKind AgenticNamespace (rr_agenticRunName (rec_status r)), g)"
  let ?t = "(t @ [(Now, e t Now)]) @ [?get]"
  have view: "content (view ?t) = content r" using r(1) by (simp only: view_read other writes_to.simps not_False_eq_True)
  have pend: "is_pending (view ?t)"
    using od content_pendingD [OF view] by (simp add: overdue_def counts_as_pending_def)
  have fin: "content (view (snd (run_state (finishCreation k e Cached ns name ph) ?t))) = content (settle ph r)" for ph
    using finishCreation_run [OF pend, of k ph] view by (auto simp: content_settle)
  obtain created where cr: "om_creation r = Some created" "\<forall>t. pendingRunGrace \<le> time_sub (as_time (e t Now)) created"
    using od by (auto simp: overdue_def simp del: as_time_def)
  then have "\<not> time_sub (as_time (e t Now)) created < pendingRunGrace" by (simp add: not_less del: as_time_def)
  with cr(1) od r(2) g view show ?thesis
    by (auto simp: recover_one_def overdue_def counts_as_pending_def now_def api_get_def Fail_def Confirm_def
        split_beta fin [simplified] recovered_def recovered_phase_def simp del: as_time_def split: sum.split)
qed

text \<open>The whole pass, over a list that holds the record once.\<close>

lemma recoverPendingRuns_run:
  assumes list: "list_of kRecord (e t (ListObjs Cached RecordKind ns [])) = Inr rs" "r \<in> set rs" "distinct (map om_name rs)"
    and od: "overdue e r" and r: "content (view t) = content r"
    and g: "\<And>t. e t (Get Cached AgenticRunKind AgenticNamespace (rr_agenticRunName (rec_status r))) = g"
  shows "content (view (snd (run_state (recoverPendingRuns k L e ns) t))) = content (recovered L r g)"
proof -
  have name: "om_name r = name" using arg_cong [OF r, of om_name] view_at [of t] by (simp add: is_at_def)
  obtain xs ys where rs: "rs = xs @ r # ys" using split_list [OF list(2)] by blast
  then have others: "name \<notin> om_name ` set xs" "name \<notin> om_name ` set ys" using list(3) name by auto
  let ?t = "t @ [(ListObjs Cached RecordKind ns [], e t (ListObjs Cached RecordKind ns []))]"
  let ?xs = "run_state (recover_loop k L e ns xs False) ?t"
  let ?r = "run_state (recover_one k L e ns r) (snd ?xs)"
  have "view (snd ?xs) = view t"
    using leaves_run [OF leaves_recover_loop [OF others(1)]] other [of "ListObjs Cached RecordKind ns []" t] by simp
  then have one: "content (view (snd ?r)) = content (recovered L r g)" using od r name g by (intro recover_one_run) simp_all
  have "view (snd (run_state (recoverPendingRuns k L e ns) t)) = view (snd ?r)"
    using leaves_run [OF leaves_recover_loop [OF others(2)], of k L "fst ?xs \<or> fst ?r" "snd ?r"] list(1)
    by (simp add: recoverPendingRuns_def api_list_def rs recover_loop_append split_beta del: list_of_def)
  with one show ?thesis by simp
qed

end

section \<open>Completing a creation\<close>

text \<open>The record of \<open>Begin\<close> as the API server keeps it.\<close>

definition begun_record ::
  "string \<Rightarrow> string \<Rightarrow> string \<Rightarrow> string \<Rightarrow> string \<Rightarrow> string \<Rightarrow> telcoHealthcheck \<Rightarrow> string \<Rightarrow> string \<Rightarrow> instant \<Rightarrow> telcoHealthCheckRun" where
  "begun_record ns name runName cluster triggeredBy trigger owner uid rv created =
     (pending_record ns name runName cluster owner)\<lparr>om_uid := uid, om_resourceVersion := rv, om_creation := Some created,
       rec_status := pending_status runName cluster triggeredBy trigger\<rparr>"

lemma begun_simps [simp]:
  "om_name (begun_record ns name runName cluster triggeredBy trigger owner uid rv created) = name"
  "om_namespace (begun_record ns name runName cluster triggeredBy trigger owner uid rv created) = ns"
  "om_creation (begun_record ns name runName cluster triggeredBy trigger owner uid rv created) = Some created"
  "rec_status (begun_record ns name runName cluster triggeredBy trigger owner uid rv created)
     = pending_status runName cluster triggeredBy trigger"
  "counts_as_pending (begun_record ns name runName cluster triggeredBy trigger owner uid rv created)"
  "\<not> outcome_known (begun_record ns name runName cluster triggeredBy trigger owner uid rv created)"
  by (simp_all add: begun_record_def pending_record_def counts_as_pending_def is_pending_def outcome_known_def
      pending_status_def record_consts)

lemma pending_status_names [simp]:
  "rr_agenticRunName (pending_status runName cluster triggeredBy trigger) = runName"
  "rr_clusterName (pending_status runName cluster triggeredBy trigger) = cluster"
  by (simp_all add: pending_status_def)

lemma run_matches_begun:
  "run_matches L run (begun_record ns name runName cluster triggeredBy trigger owner uid rv created)
   = run_matches L run ((pending_record ns name runName cluster owner)
       \<lparr>rec_status := pending_status runName cluster triggeredBy trigger\<rparr>)"
  by (simp add: run_matches_def begun_record_def pending_record_def)

lemma settled_outcome:
  assumes "content r' = content (settle ph r)" "\<not> outcome_known r"
  shows "\<not> is_pending r' \<and> record_phase r' = Some ph"
proof -
  have "is_pending r' = is_pending (settle ph r)" "rec_status r' = rec_status (settle ph r)"
    using assms(1) by (metis content_pending(1), metis content_simps(6))
  then show ?thesis using assms(2)
    by (simp add: settle_def clear_pending_def is_pending_def record_phase_def set_phase_def sget_def)
qed

definition sample_begun :: telcoHealthCheckRun where
  "sample_begun = begun_record ''ns'' ''run-1'' ''run-1'' ''spoke-1'' TriggerTypeAlert ''A'' sample_thc ''u2'' ''7'' 0"

interpretation served: cached_record "record_server sample_begun rest" "''ns''" "''run-1''" "server_view sample_begun"
  for rest
  unfolding cached_record_def
  by (rule record_server_quiet)
    (simp_all add: sample_begun_def is_at_def stored_status_iff schema_ok_def action_ok_def trigger_type_ok_def pending_status_def zero_runStatus_def)

text \<open>
  C10. A crash between the audit record and the confirmation is repaired: on a hub that does its
  work, with a current cache, a recovery pass after the grace period takes a record that was left
  pending to its final state, without the annotation, as Created if the AgenticRun that was built
  for its identity exists and as Failed if there is none.
\<close>

theorem crash_completed:
  assumes hub: "cached_record e ns name view"
    and r: "r = begun_record ns name runName cluster triggeredBy trigger owner uid rv created" "content (view t) = content r"
    and list: "list_of kRecord (e t (ListObjs Cached RecordKind ns [])) = Inr rs" "r \<in> set rs" "distinct (map om_name rs)"
    and clock: "\<And>t. pendingRunGrace \<le> time_sub (as_time (e t Now)) created" and names: "runName \<noteq> []" "cluster \<noteq> []"
    and run: "nested_fields L" "BuildObject L runName cluster labels cfg = Inr run"
      "labels ManagedByLabel = Some ManagedByValue"
    and g: "\<And>t. e t (Get Cached AgenticRunKind AgenticNamespace runName) = g"
      "g \<in> {RObj (KUnstr run), RErr (ApiErr NotFound)}"
  shows "\<not> is_pending (view (snd (run_state (recoverPendingRuns k L e ns) t)))
    \<and> record_phase (view (snd (run_state (recoverPendingRuns k L e ns) t)))
      = Some (if g = RObj (KUnstr run) then PhaseCreated else PhaseFailed)"
proof -
  let ?r' = "view (snd (run_state (recoverPendingRuns k L e ns) t))"
  have od: "overdue e r" using clock names by (simp add: overdue_def r(1))
  have "run_matches L run r"
    unfolding r(1) run_matches_begun by (rule built_run_matches_record [OF run])
  then have "recovered L r g = settle (if g = RObj (KUnstr run) then PhaseCreated else PhaseFailed) r"
    using g(2) by (auto simp: recovered_def recovered_phase_def)
  moreover have "content ?r' = content (recovered L r g)"
    using g(1) r(1) by (intro cached_record.recoverPendingRuns_run [OF hub list od r(2)]) simp
  ultimately show ?thesis using settled_outcome [of ?r'] r(1) by simp
qed

text \<open>A hub that serves the record, with the AgenticRun of the sample configuration, ten minutes later.\<close>

definition sample_hub :: "unstr \<Rightarrow> env" where
  "sample_hub run = record_server sample_begun (\<lambda>t cl. case cl of
       ListObjs s k ns ls \<Rightarrow> RList [KRecord sample_begun]
     | Now \<Rightarrow> RTime (10 * minute)
     | Get s k ns n \<Rightarrow> RObj (KUnstr run)
     | _ \<Rightarrow> ROk)"

lemma sample_hub_simps:
  "sample_hub run t (ListObjs s k ns ls) = RList [KRecord sample_begun]"
  "sample_hub run t Now = RTime (10 * minute)"
  "k \<noteq> RecordKind \<Longrightarrow> sample_hub run t (Get s k ns n) = RObj (KUnstr run)"
  by (simp_all add: sample_hub_def record_server_def)

theorem crash_completed_witness:
  "\<exists>run. record_phase (server_view sample_begun (snd (run_state (recoverPendingRuns 4 tree_ulib (sample_hub run) ''ns'') [])))
    = Some PhaseCreated"
proof -
  obtain run where run: "BuildObject tree_ulib ''run-1'' ''spoke-1'' [ManagedByLabel \<mapsto> ManagedByValue]
      sample_config = Inr run" using sample_object by blast
  have "cached_record (sample_hub run) ''ns'' ''run-1'' (server_view sample_begun)"
    unfolding sample_hub_def by (rule served.cached_record_axioms)
  from crash_completed [OF this sample_begun_def _ _ _ _ _ _ _ tree.nested_fields_axioms run, where t = "[]"
      and rs = "[sample_begun]" and g = "RObj (KUnstr run)" and k = 4]
  show ?thesis
    by (intro exI [of _ run])
      (simp add: sample_hub_simps server_view_def [of _ "[]"] pendingRunGrace_def time_sub_def)
qed

end
