(* ===== verification/Watches.thy ===== *)
theory Watches
  imports Reconciler Run_Alerts Crash_Recovery
begin

text \<open>
  The watches that the two controllers set up (\<open>SetupWithManager\<close> in
  \<open>telcohealthcheck_controller.go\<close> and \<open>runalerts.go\<close>): which change of which object makes which
  reconciler run for what. The predicate on generations is the library's; an event says whether it
  passed.
\<close>

datatype hub_event =
    RecordChanged telcoHealthCheckRun
  | AgenticRunChanged unstr
  | ResultChanged unstr
  | ConfigChanged telcoHealthcheck bool  \<comment> \<open>whether the predicate on generations passed\<close>
  | SecretChanged secret
  | ClusterChanged object_meta
  | ConfigMapChanged configMap

definition pending_predicate :: "telcoHealthCheckRun \<Rightarrow> bool" where
  "pending_predicate r \<longleftrightarrow> sget (om_annotations r) PendingAnnotation = ''true''"

text \<open>The watches of the main reconciler.\<close>

definition thc_watches :: "hub_event \<Rightarrow> request list" where
  "thc_watches ev = (case ev of
       ConfigChanged thc _ \<Rightarrow> [(om_namespace thc, om_name thc)]
     | ClusterChanged m \<Rightarrow> mapManagedClusterToTelcoHealthchecks (KCluster m)
     | ConfigMapChanged cm \<Rightarrow> if isUserAlertConfigMap (object_meta.truncate cm) then mapUserAlertCMToTHC (KConfigMap cm) else []
     | RecordChanged r \<Rightarrow> if pending_predicate r then mapManagedClusterToTelcoHealthchecks (KRecord r) else []
     | _ \<Rightarrow> [])"

definition hub_run_predicate :: "unstr \<Rightarrow> bool" where
  "hub_run_predicate run \<longleftrightarrow> om_namespace run = AgenticNamespace \<and> sget (om_labels run) ManagedByLabel = ManagedByValue"

text \<open>The watches of the record reconciler, in the operator's namespace.\<close>

definition runAlert_watches :: "ulib \<Rightarrow> env \<Rightarrow> string \<Rightarrow> hub_event \<Rightarrow> request list io" where
  "runAlert_watches L e namespace ev = (case ev of
       RecordChanged r \<Rightarrow> ret [(om_namespace r, om_name r)]
     | AgenticRunChanged run \<Rightarrow> if hub_run_predicate run then mapHubRunToRecords L e namespace (KUnstr run) else ret []
     | ResultChanged result \<Rightarrow>
         if om_namespace result = AgenticNamespace then mapHubResultToRecords L e namespace (KUnstr result) else ret []
     | ConfigChanged thc passed \<Rightarrow> if passed then mapHealthcheckToRuns e namespace else ret []
     | SecretChanged s \<Rightarrow>
         if om_namespace s = namespace then mapAlertSecretToRuns e namespace (om_namespace s) (om_name s) else ret []
     | _ \<Rightarrow> ret [])"

section \<open>Every change finds its record\<close>

lemma pending_predicate_iff: "pending_predicate r = is_pending r"
  by (simp add: pending_predicate_def is_pending_def)

lemma not_pending_settle [simp]: "\<not> is_pending (settle ph r)"
  by (simp add: settle_def is_pending_def clear_pending_def sget_def)

text \<open>
  A pending record keeps the main reconciler awake and nothing else of it does: the record that
  \<open>Begin\<close> left asks for the singleton, whose reconciliation starts with recovery, and for its own
  delivery; once recovery settled it, it only asks for its own delivery.
\<close>

theorem pending_record_watched:
  "let r = begun_record ns name runName cluster triggeredBy trigger owner uid rv created in
   thc_watches (RecordChanged r) = [('''', TelcoHealthcheckCanonicalName)]
   \<and> thc_watches (RecordChanged (settle ph r)) = []
   \<and> fst (run_state (runAlert_watches L e ns (RecordChanged r)) t) = [(ns, name)]
   \<and> fst (run_state (runAlert_watches L e ns (RecordChanged (settle ph r))) t) = [(ns, name)]"
proof -
  let ?r = "begun_record ns name runName cluster triggeredBy trigger owner uid rv created"
  have "is_pending ?r" using begun_simps(5) unfolding counts_as_pending_def by blast
  moreover have "om_name (settle ph ?r) = name" "om_namespace (settle ph ?r) = ns"
    by (simp_all add: settle_def clear_pending_def set_phase_def)
  ultimately show ?thesis
    by (simp add: Let_def thc_watches_def runAlert_watches_def pending_predicate_iff mapManagedClusterToTelcoHealthchecks_def)
qed

end
