(* ===== verification/Metrics.thy ===== *)
theory Metrics
  imports Run_Record "HOL-Library.List_Lexorder" "HOL-Library.Char_ord"
begin

text \<open>
  \<open>internal/controller/metrics.go\<close>: one scrape of the collector, which reads the configuration and
  the records, counts them and sends the series. Those by phase and by type are sent in the order of
  a Go map iteration, which is unspecified: it is the parameter \<open>keys\<close>.
\<close>

section \<open>Descriptors\<close>

text \<open>What \<open>prometheus.NewDesc\<close> is given: the name, the help text and the names of the labels.\<close>

record metric_desc =
  md_name :: string
  md_help :: string
  md_labels :: "string list"

definition clusters_desc :: metric_desc where
  "clusters_desc = \<lparr>md_name = ''telco_healthcheck_managed_clusters'',
     md_help = ''Number of clusters monitored by the TelcoHealthcheck singleton.'', md_labels = []\<rparr>"
definition runs_desc :: metric_desc where
  "runs_desc = \<lparr>md_name = ''telco_healthcheck_runs'',
     md_help = ''Number of hub-side TelcoHealthCheckRun records in the operator namespace.'', md_labels = []\<rparr>"
definition action_desc :: metric_desc where
  "action_desc = \<lparr>md_name = ''telco_healthcheck_runs_action_required'',
     md_help = ''Number of hub-side TelcoHealthCheckRun records requiring action.'', md_labels = []\<rparr>"
definition phase_desc :: metric_desc where
  "phase_desc = \<lparr>md_name = ''telco_healthcheck_runs_by_phase'',
     md_help = ''Number of hub-side TelcoHealthCheckRun records by current phase.'', md_labels = [''phase'']\<rparr>"
definition runType_desc :: metric_desc where
  "runType_desc = \<lparr>md_name = ''telco_healthcheck_runs_by_type'',
     md_help = ''Number of hub-side TelcoHealthCheckRun records by current AgenticRun condition type.'',
     md_labels = [''type'']\<rparr>"

definition Describe :: "metric_desc list" where
  "Describe = [clusters_desc, runs_desc, action_desc, phase_desc, runType_desc]"

section \<open>A scrape\<close>

record series =
  ms_clusters :: nat
  ms_runs :: nat
  ms_action :: nat
  ms_phases :: "string \<rightharpoonup> nat"
  ms_types :: "string \<rightharpoonup> nat"

text \<open>\<open>counts[key]++\<close>.\<close>

definition count_up :: "(string \<rightharpoonup> nat) \<Rightarrow> string \<Rightarrow> string \<rightharpoonup> nat" where
  "count_up m k = m(k \<mapsto> (case m k of None \<Rightarrow> 1 | Some n \<Rightarrow> n + 1))"

definition phase_label :: "telcoHealthCheckRun \<Rightarrow> string" where
  "phase_label r = (case rr_agenticRunStatus (rec_status r) of
       None \<Rightarrow> ''Unknown''
     | Some s \<Rightarrow> if rs_phase s \<noteq> '''' then rs_phase s else ''Unknown'')"

definition type_label :: "telcoHealthCheckRun \<Rightarrow> string" where
  "type_label r = (case rr_agenticRunStatus (rec_status r) of
       None \<Rightarrow> ''Unknown''
     | Some s \<Rightarrow> if rs_type s \<noteq> '''' then rs_type s else ''Unknown'')"

definition needs_action :: "telcoHealthCheckRun \<Rightarrow> bool" where
  "needs_action r \<longleftrightarrow> rr_actionRequired (rec_status r) = ''True''"

fun tally ::
  "telcoHealthCheckRun list \<Rightarrow> (string \<rightharpoonup> nat) \<Rightarrow> (string \<rightharpoonup> nat) \<Rightarrow> nat
   \<Rightarrow> (string \<rightharpoonup> nat) \<times> (string \<rightharpoonup> nat) \<times> nat" where
  "tally [] phases types action = (phases, types, action)"
| "tally (r # rs) phases types action =
     tally rs (count_up phases (phase_label r)) (count_up types (type_label r))
       (if needs_action r then action + 1 else action)"

text \<open>\<open>Inl\<close>: the descriptor and the error of the invalid metric that reports a failed read.\<close>

definition Collect_metrics :: "env \<Rightarrow> string \<Rightarrow> (metric_desc \<times> gerr + series) io" where
  "Collect_metrics e ns = do {
     g \<leftarrow> api_get as_thc e Live ThcKind '''' TelcoHealthcheckCanonicalName;
     (case (case g of
              Inl er \<Rightarrow> if isNotFound er then Inr 0 else Inl (clusters_desc, Wrap ''reading TelcoHealthcheck'' er)
            | Inr thc \<Rightarrow> Inr (length (st_monitoredClusters (thc_status thc)))) of
        Inl er \<Rightarrow> ret (Inl er)
      | Inr clusterCount \<Rightarrow> do {
          h \<leftarrow> api_list kRecord e Live RecordKind ns [];
          ret (case h of
             Inl er \<Rightarrow> Inl (runs_desc, Wrap ''listing TelcoHealthCheckRuns'' er)
           | Inr rs \<Rightarrow>
               (case tally rs Map.empty Map.empty 0 of (phases, types, action) \<Rightarrow>
                  Inr \<lparr>ms_clusters = clusterCount, ms_runs = length rs, ms_action = action,
                       ms_phases = phases, ms_types = types\<rparr>)) }) }"

lemmas [io_run] = Collect_metrics_def

text \<open>
  What goes over the channel. \<open>prometheus.MustNewConstMetric\<close> is the parameter \<open>mk\<close>. As documented it makes the
  metric if there is a value for every label of the descriptor; otherwise it panics, which no lemma needs.
\<close>

datatype metric =
    InvalidMetric metric_desc gerr
  | Gauge metric_desc nat "string list"

type_synonym metric_maker = "metric_desc \<Rightarrow> nat \<Rightarrow> string list \<Rightarrow> metric outcome"

definition makes_metrics :: "metric_maker \<Rightarrow> bool" where
  "makes_metrics mk \<longleftrightarrow> (\<forall>d n labels. length labels = length (md_labels d) \<longrightarrow> mk d n labels = Done (Gauge d n labels))"

definition series_metrics :: "metric_maker \<Rightarrow> ((string \<rightharpoonup> nat) \<Rightarrow> string list) \<Rightarrow> series \<Rightarrow> metric outcome list" where
  "series_metrics mk keys s =
     [mk clusters_desc (ms_clusters s) [],
      mk runs_desc (ms_runs s) [],
      mk action_desc (ms_action s) []]
     @ map (\<lambda>k. mk phase_desc (the (ms_phases s k)) [k]) (keys (ms_phases s))
     @ map (\<lambda>k. mk runType_desc (the (ms_types s k)) [k]) (keys (ms_types s))"

text \<open>The metrics that were sent, and a panic if there was one.\<close>

fun sent :: "metric outcome list \<Rightarrow> metric list \<times> bool" where
  "sent [] = ([], False)"
| "sent (Panicked # ms) = ([], True)"
| "sent (Done m # ms) = (case sent ms of (xs, p) \<Rightarrow> (m # xs, p))"

definition Collect_sent :: "metric_maker \<Rightarrow> ((string \<rightharpoonup> nat) \<Rightarrow> string list) \<Rightarrow> env \<Rightarrow> string \<Rightarrow> (metric list \<times> bool) io" where
  "Collect_sent mk keys e ns = do {
     x \<leftarrow> Collect_metrics e ns;
     ret (case x of
        Inl (d, er) \<Rightarrow> ([InvalidMetric d er], False)
      | Inr s \<Rightarrow> sent (series_metrics mk keys s)) }"

section \<open>The counts\<close>

text \<open>The reference: how often each label occurs.\<close>

definition occurrences :: "string list \<Rightarrow> string \<rightharpoonup> nat" where
  "occurrences xs k = (if k \<in> set xs then Some (count_list xs k) else None)"

definition total :: "(string \<rightharpoonup> nat) \<Rightarrow> nat" where
  "total m = (\<Sum>k \<in> dom m. the (m k))"

lemma count_up_occurrences: "count_up (occurrences xs) k = occurrences (xs @ [k])"
  by (rule ext) (auto simp: count_up_def occurrences_def count_notin)

lemma occurrences_Nil: "occurrences [] = Map.empty"
  by (rule ext) (simp add: occurrences_def)

lemma tally_occurrences:
  "tally rs (occurrences ps) (occurrences ts) n
   = (occurrences (ps @ map phase_label rs), occurrences (ts @ map type_label rs), n + length (filter needs_action rs))"
  by (induction rs arbitrary: ps ts n) (simp_all add: count_up_occurrences)

lemma total_occurrences: "total (occurrences xs) = length xs"
proof -
  have "dom (occurrences xs) = set xs" by (auto simp: occurrences_def split: if_splits)
  then have "total (occurrences xs) = (\<Sum>k \<in> set xs. count_list xs k)"
    by (simp add: total_def occurrences_def)
  then show ?thesis by (simp add: sum_count_set)
qed

text \<open>The series of \<open>n\<close> clusters and of one list of records.\<close>

definition counts :: "nat \<Rightarrow> telcoHealthCheckRun list \<Rightarrow> series \<Rightarrow> bool" where
  "counts n rs s \<longleftrightarrow> ms_clusters s = n \<and> ms_runs s = length rs \<and> ms_action s = length (filter needs_action rs)
     \<and> ms_phases s = occurrences (map phase_label rs) \<and> ms_types s = occurrences (map type_label rs)"

text \<open>The two reads, and the number of clusters: of the configuration, or none if there is no configuration.\<close>

definition config_read :: call where
  "config_read = Get Live ThcKind '''' TelcoHealthcheckCanonicalName"

definition records_read :: "string \<Rightarrow> call" where
  "records_read ns = ListObjs Live RecordKind ns []"

definition clusters_read :: "resp \<Rightarrow> gerr + nat" where
  "clusters_read g = (case as_thc g of
       Inl er \<Rightarrow> if isNotFound er then Inr 0 else Inl er
     | Inr thc \<Rightarrow> Inr (length (st_monitoredClusters (thc_status thc))))"

text \<open>What a scrape \<open>x\<close> has to be, for the answers that it got: \<open>bad\<close> of a failed read, else \<open>good\<close> of what was read.\<close>

definition scraped ::
  "string \<Rightarrow> (metric_desc \<Rightarrow> gerr \<Rightarrow> bool) \<Rightarrow> (nat \<Rightarrow> telcoHealthCheckRun list \<Rightarrow> bool) \<Rightarrow> trace \<Rightarrow> bool" where
  "scraped ns bad good u \<longleftrightarrow> (\<exists>g. case clusters_read g of
       Inl er \<Rightarrow> u = [(config_read, g)] \<and> bad clusters_desc (Wrap ''reading TelcoHealthcheck'' er)
     | Inr n \<Rightarrow> (\<exists>h. u = [(config_read, g), (records_read ns, h)] \<and>
         (case list_of kRecord h of
            Inl er \<Rightarrow> bad runs_desc (Wrap ''listing TelcoHealthCheckRuns'' er)
          | Inr rs \<Rightarrow> good n rs)))"

lemma Collect_metrics_spec:
  "spec (Collect_metrics e ns) (\<lambda>x u.
     scraped ns (\<lambda>d er. x = Inl (d, er)) (\<lambda>n rs. \<exists>s. x = Inr s \<and> counts n rs s) u)"
proof -
  have tally: "tally rs Map.empty Map.empty 0
      = (occurrences (map phase_label rs), occurrences (map type_label rs), length (filter needs_action rs))" for rs
    using tally_occurrences [of rs "[]" "[]" 0] by (simp add: occurrences_Nil)
  have one: "scraped ns bad good [(config_read, g)]"
    if "clusters_read g = Inl er" "bad clusters_desc (Wrap ''reading TelcoHealthcheck'' er)" for g er bad good
    using that by (auto simp: scraped_def intro!: exI [of _ g])
  have two: "scraped ns bad good [(config_read, g), (records_read ns, h)]"
    if "clusters_read g = Inr n" "case list_of kRecord h of
        Inl er \<Rightarrow> bad runs_desc (Wrap ''listing TelcoHealthCheckRuns'' er) | Inr rs \<Rightarrow> good n rs" for g h n bad good
    using that by (auto simp: scraped_def simp del: list_of_def intro!: exI [of _ g])
  have read: "(case as_thc g of
        Inl er \<Rightarrow> if isNotFound er then Inr 0 else Inl (clusters_desc, Wrap ''reading TelcoHealthcheck'' er)
      | Inr thc \<Rightarrow> Inr (length (st_monitoredClusters (thc_status thc))))
    = (case clusters_read g of Inl er \<Rightarrow> Inl (clusters_desc, Wrap ''reading TelcoHealthcheck'' er) | Inr n \<Rightarrow> Inr n)" for g
    by (simp add: clusters_read_def split: sum.split)
  show ?thesis
    unfolding Collect_metrics_def
  proof (rule spec_bind, rule spec_api_get, goal_cases)
    case (1 g)
    show ?case
    proof (cases "clusters_read g")
      case (Inl er)
      then show ?thesis unfolding read by (auto intro!: spec_ret one [unfolded config_read_def])
    next
      case (Inr n)
      then show ?thesis unfolding read
        by (auto simp: tally counts_def simp del: list_of_def intro!: spec_bind spec_ret spec_api_list
            two [unfolded config_read_def records_read_def] split: sum.split)
    qed
  qed
qed

section \<open>The registry accepts a scrape\<close>

text \<open>
  The registry of Prometheus reports an error for a scrape with an invalid or undescribed metric,
  with values that do not match the labels, or with two metrics of the same name and labels.
\<close>

fun metric_described :: "metric \<Rightarrow> bool" where
  "metric_described (InvalidMetric d er) \<longleftrightarrow> False"
| "metric_described (Gauge d n labels) \<longleftrightarrow> d \<in> set Describe \<and> length labels = length (md_labels d)"

fun metric_key :: "metric \<Rightarrow> string \<times> string list" where
  "metric_key (InvalidMetric d er) = (md_name d, [])"
| "metric_key (Gauge d n labels) = (md_name d, labels)"

definition registry_accepts :: "metric list \<Rightarrow> bool" where
  "registry_accepts ms \<longleftrightarrow> list_all metric_described ms \<and> distinct (map metric_key ms)"

text \<open>The values of a family add up.\<close>

fun value_of :: "metric_desc \<Rightarrow> metric \<Rightarrow> nat" where
  "value_of d (Gauge d' n labels) = (if d' = d then n else 0)"
| "value_of d m = 0"

definition family_total :: "metric_desc \<Rightarrow> metric list \<Rightarrow> nat" where
  "family_total d ms = sum_list (map (value_of d) ms)"

definition map_order :: "((string \<rightharpoonup> nat) \<Rightarrow> string list) \<Rightarrow> bool" where
  "map_order keys \<longleftrightarrow> (\<forall>m. finite (dom m) \<longrightarrow> set (keys m) = dom m \<and> distinct (keys m))"

lemma names_distinct: "distinct (map md_name Describe)"
  by (simp add: Describe_def clusters_desc_def runs_desc_def action_desc_def phase_desc_def runType_desc_def)

lemma desc_labels [simp]:
  "md_labels clusters_desc = []" "md_labels runs_desc = []" "md_labels action_desc = []"
  "md_labels phase_desc = [''phase'']" "md_labels runType_desc = [''type'']"
  by (simp_all add: clusters_desc_def runs_desc_def action_desc_def phase_desc_def runType_desc_def)

lemma sent_series:
  assumes "makes_metrics mk" shows "sent (series_metrics mk keys s) =
     ([Gauge clusters_desc (ms_clusters s) [], Gauge runs_desc (ms_runs s) [], Gauge action_desc (ms_action s) []]
      @ map (\<lambda>k. Gauge phase_desc (the (ms_phases s k)) [k]) (keys (ms_phases s))
      @ map (\<lambda>k. Gauge runType_desc (the (ms_types s k)) [k]) (keys (ms_types s)), False)"
proof -
  have all: "sent (map Done xs) = (xs, False)" for xs by (induction xs) simp_all
  have "series_metrics mk keys s = map Done
     ([Gauge clusters_desc (ms_clusters s) [], Gauge runs_desc (ms_runs s) [], Gauge action_desc (ms_action s) []]
      @ map (\<lambda>k. Gauge phase_desc (the (ms_phases s k)) [k]) (keys (ms_phases s))
      @ map (\<lambda>k. Gauge runType_desc (the (ms_types s k)) [k]) (keys (ms_types s)))"
    using assms by (simp add: series_metrics_def makes_metrics_def)
  then show ?thesis by (simp only: all)
qed

lemma occurrences_dom: "dom (occurrences xs) = set xs"
  by (auto simp: occurrences_def split: if_splits)

lemma map_order_total:
  assumes "map_order keys" shows "(\<Sum>k\<leftarrow>keys (occurrences xs). the (occurrences xs k)) = length xs"
proof -
  have "set (keys (occurrences xs)) = dom (occurrences xs)" "distinct (keys (occurrences xs))"
    using assms by (auto simp: map_order_def occurrences_dom)
  then show ?thesis using total_occurrences [of xs] by (simp add: total_def sum_list_distinct_conv_sum_set)
qed

text \<open>What a scrape tells of a number of clusters and a list of records: the gauges that are sent, with their values.\<close>

definition reported :: "nat \<Rightarrow> telcoHealthCheckRun list \<Rightarrow> metric list \<Rightarrow> bool" where
  "reported n rs ms \<longleftrightarrow> Gauge clusters_desc n [] \<in> set ms \<and> Gauge runs_desc (length rs) [] \<in> set ms
     \<and> Gauge action_desc (length (filter needs_action rs)) [] \<in> set ms
     \<and> (\<forall>i k. Gauge phase_desc i [k] \<in> set ms \<longleftrightarrow> k \<in> phase_label ` set rs \<and> i = count_list (map phase_label rs) k)
     \<and> (\<forall>i k. Gauge runType_desc i [k] \<in> set ms \<longleftrightarrow> k \<in> type_label ` set rs \<and> i = count_list (map type_label rs) k)
     \<and> family_total phase_desc ms = length rs \<and> family_total runType_desc ms = length rs"

lemma desc_distinct [simp]:
  "clusters_desc \<noteq> runs_desc" "clusters_desc \<noteq> action_desc" "clusters_desc \<noteq> phase_desc" "clusters_desc \<noteq> runType_desc"
  "runs_desc \<noteq> action_desc" "runs_desc \<noteq> phase_desc" "runs_desc \<noteq> runType_desc"
  "action_desc \<noteq> phase_desc" "action_desc \<noteq> runType_desc" "phase_desc \<noteq> runType_desc"
  by (simp_all add: clusters_desc_def runs_desc_def action_desc_def phase_desc_def runType_desc_def)

lemmas [simp] = desc_distinct [THEN not_sym]

lemma counted_keys:
  assumes "map_order keys" "counts n rs s"
  shows "set (keys (ms_phases s)) = phase_label ` set rs" "distinct (keys (ms_phases s))"
    "set (keys (ms_types s)) = type_label ` set rs" "distinct (keys (ms_types s))"
  using assms by (auto simp: map_order_def counts_def occurrences_dom)

lemma counted_total:
  assumes "map_order keys" "counts n rs s"
  shows "(\<Sum>k\<leftarrow>keys (ms_phases s). the (ms_phases s k)) = length rs"
    "(\<Sum>k\<leftarrow>keys (ms_types s). the (ms_types s k)) = length rs"
  using assms(2) map_order_total [OF assms(1), of "map phase_label rs"] map_order_total [OF assms(1), of "map type_label rs"]
  by (simp_all add: counts_def)

lemma zero_sum: "sum_list (map (\<lambda>x. 0::nat) xs) = 0"
  by (induction xs) simp_all

lemma scraped_mono:
  assumes "scraped ns bad good u"
    and "\<And>d er. bad d er \<Longrightarrow> bad' d er" "\<And>n rs. good n rs \<Longrightarrow> good' n rs"
  shows "scraped ns bad' good' u"
proof -
  obtain g where g: "case clusters_read g of
       Inl er \<Rightarrow> u = [(config_read, g)] \<and> bad clusters_desc (Wrap ''reading TelcoHealthcheck'' er)
     | Inr n \<Rightarrow> (\<exists>h. u = [(config_read, g), (records_read ns, h)] \<and>
         (case list_of kRecord h of
            Inl er \<Rightarrow> bad runs_desc (Wrap ''listing TelcoHealthCheckRuns'' er)
          | Inr rs \<Rightarrow> good n rs))"
    using assms(1) unfolding scraped_def by blast
  show ?thesis
    unfolding scraped_def
    by (rule exI [of _ g]) (use g assms(2,3) in \<open>auto simp del: list_of_def split: sum.splits\<close>)
qed

lemma scraped_good:
  assumes "scraped ns (\<lambda>d er. False) good u" shows "\<exists>n rs. good n rs"
proof -
  obtain g where g: "case clusters_read g of
       Inl er \<Rightarrow> u = [(config_read, g)] \<and> False
     | Inr n \<Rightarrow> (\<exists>h. u = [(config_read, g), (records_read ns, h)] \<and>
         (case list_of kRecord h of Inl er \<Rightarrow> False | Inr rs \<Rightarrow> good n rs))"
    using assms unfolding scraped_def by (rule exE)
  then obtain n where "clusters_read g = Inr n" by (cases "clusters_read g") simp_all
  with g obtain h where "case list_of kRecord h of Inl er \<Rightarrow> False | Inr rs \<Rightarrow> good n rs"
    by (simp del: list_of_def) blast
  then show ?thesis by (cases "list_of kRecord h") auto
qed

lemma series_reported:
  assumes "map_order keys" "counts n rs s" "makes_metrics mk" shows "reported n rs (fst (sent (series_metrics mk keys s)))"
proof -
  note ks = counted_keys [OF assms(1,2)] and ts = counted_total [OF assms(1,2)]
  have "ms_clusters s = n" "ms_runs s = length rs" "ms_action s = length (filter needs_action rs)"
    "ms_phases s = occurrences (map phase_label rs)" "ms_types s = occurrences (map type_label rs)"
    using assms(2) by (simp_all add: counts_def)
  then show ?thesis
    using ks ts unfolding reported_def sent_series [OF assms(3)] family_total_def
    by (auto simp: occurrences_def image_iff comp_def)
qed

lemma series_accepted:
  assumes "map_order keys" "counts n rs s" "makes_metrics mk" shows "registry_accepts (fst (sent (series_metrics mk keys s)))"
  using counted_keys [OF assms(1,2)] names_distinct
  by (auto simp: registry_accepts_def sent_series [OF assms(3)] list_all_iff comp_def distinct_map Describe_def inj_on_def)

lemma Collect_sent_spec:
  assumes "makes_metrics mk" "map_order keys"
  shows "spec (Collect_sent mk keys e ns) (\<lambda>(ms, panicked) u. \<not> panicked
     \<and> scraped ns (\<lambda>d er. ms = [InvalidMetric d er]) (\<lambda>n rs. registry_accepts ms \<and> reported n rs ms) u)"
  unfolding Collect_sent_def
proof (rule spec_bind, rule spec_conseq [OF Collect_metrics_spec], rule spec_ret, goal_cases)
  case (1 x u)
  let ?y = "case x of Inl (d, er) \<Rightarrow> ([InvalidMetric d er], False) | Inr s \<Rightarrow> sent (series_metrics mk keys s)"
  have "\<not> snd ?y" by (auto simp: sent_series [OF assms(1)] split: sum.split prod.split)
  moreover have "scraped ns (\<lambda>d er. fst ?y = [InvalidMetric d er])
      (\<lambda>n rs. registry_accepts (fst ?y) \<and> reported n rs (fst ?y)) u"
    by (rule scraped_mono [OF 1]) (auto simp: series_accepted [OF assms(2) _ assms(1)] series_reported [OF assms(2) _ assms(1)])
  ultimately show ?case by (simp add: case_prod_beta)
qed

text \<open>
  C38. A scrape never panics. If the configuration cannot be read, for another reason than that there
  is none, or the records cannot be listed, it sends a single invalid metric with that error, and
  only then. Otherwise the registry accepts it: every metric is described, carries the values of
  its labels, and none is sent twice; and it reports what was read: the number of monitored
  clusters, zero without a configuration, and of the one list of records their number, how many
  require an action, and for each phase and each type that occurs the number of its records,
  which add up to the number of records.
\<close>

theorem scrape_accepted:
  assumes "makes_metrics mk" "map_order keys"
  shows "case run_state (Collect_sent mk keys e ns) t of ((ms, panicked), t') \<Rightarrow>
    \<exists>u. t' = t @ u \<and> \<not> panicked \<and>
      scraped ns (\<lambda>d er. ms = [InvalidMetric d er]) (\<lambda>n rs. registry_accepts ms \<and> reported n rs ms) u"
  by (rule specD [OF Collect_sent_spec [OF assms], where t = t]) (auto simp: case_prod_beta)

definition labelled_metric :: metric_maker where
  "labelled_metric d n labels = (if length labels = length (md_labels d) then Done (Gauge d n labels) else Panicked)"

definition sorted_keys :: "(string \<rightharpoonup> nat) \<Rightarrow> string list" where
  "sorted_keys m = sorted_list_of_set (dom m)"

definition scraped_record :: "string \<Rightarrow> telcoHealthCheckRun" where
  "scraped_record phase =
     \<lparr>om_name = ''run'', om_namespace = ''ns'', om_uid = ''u'', om_resourceVersion = ''1'', om_labels = Map.empty,
      om_annotations = Map.empty, om_finalizers = [], om_owners = [], om_creation = None, om_deletion = None,
      rec_status = zero_runStatus\<lparr>rr_agenticRunStatus := Some (zero_agenticRunStatus\<lparr>rs_phase := phase\<rparr>)\<rparr>\<rparr>"

definition scraped_hub :: env where
  "scraped_hub t c = (case c of
      ListObjs s kd ns ls \<Rightarrow> RList [KRecord (scraped_record ''Pending''), KRecord (scraped_record '''')]
    | _ \<Rightarrow> RErr (ApiErr NotFound))"

theorem scrape_accepted_witness:
  "makes_metrics labelled_metric \<and> map_order sorted_keys
   \<and> (case run_state (Collect_sent labelled_metric sorted_keys scraped_hub ''ns'') [] of ((ms, panicked), t') \<Rightarrow>
        \<not> panicked \<and> length ms = 6 \<and> registry_accepts ms)"
proof -
  have keys: "makes_metrics labelled_metric" "map_order sorted_keys"
    by (simp_all add: makes_metrics_def labelled_metric_def map_order_def sorted_keys_def)
  have labels: "phase_label (scraped_record ''Pending'') = ''Pending''" "phase_label (scraped_record '''') = ''Unknown''"
    "type_label (scraped_record p) = ''Unknown''" "\<not> needs_action (scraped_record p)" for p
    by (simp_all add: phase_label_def type_label_def needs_action_def scraped_record_def zero_runStatus_def
        zero_agenticRunStatus_def)
  have "fst (run_state (Collect_sent labelled_metric sorted_keys scraped_hub ''ns'') []) = 
     ([Gauge clusters_desc 0 [], Gauge runs_desc 2 [], Gauge action_desc 0 [],
       Gauge phase_desc 1 [''Pending''], Gauge phase_desc 1 [''Unknown''], Gauge runType_desc 2 [''Unknown'']], False)"
    by (simp add: Collect_sent_def sent_series [OF keys(1)] io_run scraped_hub_def labels count_up_def sorted_keys_def)
  then show ?thesis using scrape_accepted [OF keys, where e = scraped_hub and ns = "''ns''" and t = "[]"] keys
    by (auto simp: case_prod_beta dest: scraped_good)
qed

end
