(* ===== verification/Access.thy ===== *)
theory Access
  imports Watches Metrics Alert_Receiver
begin

text \<open>
  What the operator is allowed to do: the RBAC markers of \<open>telcohealthcheck_controller.go\<close> and
  \<open>kubecomparemcp.go\<close>, the roles deployed from \<open>config/rbac\<close>, and the namespaces to which
  \<open>cmd/controller/main.go\<close> restricts the caches of the manager. The controller and the alert receiver
  run under the same service account. Every call they make is compared with these grants.
\<close>

section \<open>Grants\<close>

record policy_rule =
  pr_groups :: "string list"
  pr_resources :: "string list"
  pr_verbs :: "string list"

definition read_verbs :: "string list" where "read_verbs = [''get'', ''list'', ''watch'']"
definition all_verbs :: "string list" where
  "all_verbs = [''get'', ''list'', ''watch'', ''create'', ''update'', ''patch'', ''delete'']"

definition admin_verbs :: "string list" where "admin_verbs = all_verbs @ [''escalate'', ''bind'']"

definition marker :: "string \<Rightarrow> string list \<Rightarrow> string list \<Rightarrow> policy_rule" where
  "marker apiGroup resources verbs = \<lparr>pr_groups = [apiGroup], pr_resources = resources, pr_verbs = verbs\<rparr>"

text \<open>The \<open>+kubebuilder:rbac\<close> markers from which the cluster role is generated.\<close>

definition controller_markers :: "policy_rule list" where
  "controller_markers =
     [marker ''ran.openshift.io'' [''telcohealthchecks''] [''get'', ''list'', ''watch'', ''update'', ''patch''],
      marker ''ran.openshift.io'' [''telcohealthchecks/status''] [''get'', ''update'', ''patch''],
      marker ''ran.openshift.io'' [''telcohealthchecks/finalizers''] [''update''],
      marker ''cluster.open-cluster-management.io'' [''managedclusters''] read_verbs,
      marker '''' [''configmaps''] all_verbs,
      marker ''coordination.k8s.io'' [''leases''] all_verbs,
      marker '''' [''events''] [''create'', ''patch''],
      marker ''admissionregistration.k8s.io'' [''validatingwebhookconfigurations''] [''get''],
      marker ''ran.openshift.io'' [''telcohealthcheckruns''] all_verbs,
      marker ''ran.openshift.io'' [''telcohealthcheckruns/status''] [''get'', ''update'', ''patch''],
      marker ''batch'' [''cronjobs''] all_verbs]"

definition kubecompare_markers :: "policy_rule list" where
  "kubecompare_markers =
     [marker '''' [''serviceaccounts''] all_verbs,
      marker ''apps'' [''deployments''] all_verbs,
      marker '''' [''services''] all_verbs,
      marker ''route.openshift.io'' [''routes''] all_verbs,
      marker ''rbac.authorization.k8s.io'' [''clusterroles'', ''clusterrolebindings'']
        admin_verbs]"

text \<open>The deployed cluster role, \<open>config/rbac/role.yaml\<close>.\<close>

definition sorted_verbs :: "string list" where
  "sorted_verbs = [''create'', ''delete'', ''get'', ''list'', ''patch'', ''update'', ''watch'']"
definition sorted_admin_verbs :: "string list" where
  "sorted_admin_verbs =
     [''bind'', ''create'', ''delete'', ''escalate'', ''get'', ''list'', ''patch'', ''update'', ''watch'']"

definition cluster_role :: "policy_rule list" where
  "cluster_role =
     [marker '''' [''configmaps'', ''serviceaccounts'', ''services'']
        sorted_verbs,
      marker '''' [''events''] [''create'', ''patch''],
      marker ''admissionregistration.k8s.io'' [''validatingwebhookconfigurations''] [''get''],
      marker ''apps'' [''deployments''] sorted_verbs,
      marker ''batch'' [''cronjobs''] sorted_verbs,
      marker ''cluster.open-cluster-management.io'' [''managedclusters''] [''get'', ''list'', ''watch''],
      marker ''coordination.k8s.io'' [''leases''] sorted_verbs,
      marker ''ran.openshift.io'' [''telcohealthcheckruns'']
        sorted_verbs,
      marker ''ran.openshift.io'' [''telcohealthcheckruns/status'', ''telcohealthchecks/status'']
        [''get'', ''patch'', ''update''],
      marker ''ran.openshift.io'' [''telcohealthchecks''] [''get'', ''list'', ''patch'', ''update'', ''watch''],
      marker ''ran.openshift.io'' [''telcohealthchecks/finalizers''] [''update''],
      marker ''rbac.authorization.k8s.io'' [''clusterrolebindings'', ''clusterroles'']
        sorted_admin_verbs,
      marker ''route.openshift.io'' [''routes''] sorted_verbs]"

text \<open>The roles of \<open>config/rbac/namespaced.yaml\<close>, each with its namespace.\<close>

definition namespaced_roles :: "(string \<times> policy_rule) list" where
  "namespaced_roles =
     [(''openshift-lightspeed'', marker ''agentic.openshift.io'' [''agenticruns''] [''create'', ''get'', ''list'', ''watch'']),
      (''openshift-lightspeed'', marker ''agentic.openshift.io'' [''analysisresults''] [''get'', ''list'', ''watch'']),
      (''telco-healthcheck-system'', marker '''' [''secrets'']
         [''create'', ''delete'', ''get'', ''list'', ''watch'', ''update'', ''patch'']),
      (''open-cluster-management-observability'', marker '''' [''secrets'']
         [''get'', ''list'', ''watch'', ''update'', ''patch'']),
      (''openshift-config'', marker '''' [''secrets''] [''get'', ''list'', ''watch''])]"

text \<open>The decision of the RBAC authorizer: some rule covers the group, the resource and the verb.\<close>

definition covers :: "policy_rule \<Rightarrow> string \<Rightarrow> string \<times> string \<Rightarrow> bool" where
  "covers rule verb gr \<longleftrightarrow> fst gr \<in> set (pr_groups rule) \<and> snd gr \<in> set (pr_resources rule) \<and> verb \<in> set (pr_verbs rule)"

definition everywhere :: "policy_rule list \<Rightarrow> string \<Rightarrow> string \<times> string \<Rightarrow> bool" where
  "everywhere rules verb gr \<longleftrightarrow> list_ex (\<lambda>rule. covers rule verb gr) rules"

definition granted :: "string \<Rightarrow> string \<Rightarrow> string \<times> string \<Rightarrow> bool" where
  "granted ns verb gr \<longleftrightarrow> everywhere cluster_role verb gr
     \<or> everywhere (map snd (filter (\<lambda>nr. fst nr = ns) namespaced_roles)) verb gr"

lemma covers_marker:
  "covers (marker g rs vs) verb gr \<longleftrightarrow> fst gr = g \<and> snd gr \<in> set rs \<and> verb \<in> set vs"
  by (auto simp: covers_def marker_def)

lemma same_verbs:
  "set sorted_verbs = set all_verbs" "set sorted_admin_verbs = set admin_verbs"
  "set [''get'', ''patch'', ''update''] = set [''get'', ''update'', ''patch'']"
  "set [''get'', ''list'', ''patch'', ''update'', ''watch''] = set [''get'', ''list'', ''watch'', ''update'', ''patch'']"
  "set [''get'', ''list'', ''watch''] = set read_verbs"
  unfolding sorted_verbs_def sorted_admin_verbs_def all_verbs_def admin_verbs_def read_verbs_def
  by (simp_all add: insert_commute)

lemma everywhere_Cons: "everywhere (rule # rules) verb gr \<longleftrightarrow> covers rule verb gr \<or> everywhere rules verb gr"
  "\<not> everywhere [] verb gr"
  by (simp_all add: everywhere_def)

text \<open>The deployed role is the one that the markers in the code describe.\<close>

theorem cluster_role_generated:
  "everywhere cluster_role verb gr = everywhere (controller_markers @ kubecompare_markers) verb gr"
proof -
  have two: "covers (marker g [r, s] vs) verb gr \<longleftrightarrow> covers (marker g [r] vs) verb gr \<or> covers (marker g [s] vs) verb gr"
    for g r s vs by (auto simp: covers_marker)
  have three: "covers (marker g [r, s, t] vs) verb gr \<longleftrightarrow> covers (marker g [r] vs) verb gr
      \<or> covers (marker g [s] vs) verb gr \<or> covers (marker g [t] vs) verb gr" for g r s t vs
    by (auto simp: covers_marker)
  have order: "covers (marker g rs vs) verb gr = covers (marker g rs vs') verb gr" if "set vs = set vs'" for g rs vs vs'
    using that by (simp add: covers_marker)
  show ?thesis
    unfolding cluster_role_def controller_markers_def kubecompare_markers_def append_Cons append_Nil
      everywhere_Cons two three order [OF same_verbs(1)] order [OF same_verbs(2)]
      order [OF same_verbs(3)] order [OF same_verbs(4)] order [OF same_verbs(5)]
    by blast
qed

section \<open>What a call needs\<close>

text \<open>
  The resource behind a kind. Unstructured objects carry their kind; a kind that no manifest of the
  program has is not mapped.
\<close>

fun kind_resource :: "kind \<Rightarrow> string \<times> string" where
  "kind_resource ThcKind = (''ran.openshift.io'', ''telcohealthchecks'')"
| "kind_resource RecordKind = (''ran.openshift.io'', ''telcohealthcheckruns'')"
| "kind_resource ConfigMapKind = ('''', ''configmaps'')"
| "kind_resource SecretKind = ('''', ''secrets'')"
| "kind_resource ManagedClusterKind = (''cluster.open-cluster-management.io'', ''managedclusters'')"
| "kind_resource CronJobKind = (''batch'', ''cronjobs'')"
| "kind_resource AgenticRunKind = (''agentic.openshift.io'', ''agenticruns'')"
| "kind_resource AnalysisResultKind = (''agentic.openshift.io'', ''analysisresults'')"
| "kind_resource RouteKind = (''route.openshift.io'', ''routes'')"

definition unstr_resource :: "string \<rightharpoonup> string \<times> string" where
  "unstr_resource =
     [''AgenticRun'' \<mapsto> (''agentic.openshift.io'', ''agenticruns''),
      ''ServiceAccount'' \<mapsto> ('''', ''serviceaccounts''),
      ''ClusterRole'' \<mapsto> (''rbac.authorization.k8s.io'', ''clusterroles''),
      ''ClusterRoleBinding'' \<mapsto> (''rbac.authorization.k8s.io'', ''clusterrolebindings''),
      ''Deployment'' \<mapsto> (''apps'', ''deployments''),
      ''Service'' \<mapsto> ('''', ''services''),
      ''Route'' \<mapsto> (''route.openshift.io'', ''routes'')]"

text \<open>Namespace and resource of an object.\<close>

fun object_resource :: "kobj \<Rightarrow> (string \<times> string \<times> string) option" where
  "object_resource (KTHC x) = Some (om_namespace x, kind_resource ThcKind)"
| "object_resource (KRecord x) = Some (om_namespace x, kind_resource RecordKind)"
| "object_resource (KConfigMap x) = Some (om_namespace x, kind_resource ConfigMapKind)"
| "object_resource (KSecret x) = Some (om_namespace x, kind_resource SecretKind)"
| "object_resource (KCluster x) = Some (om_namespace x, kind_resource ManagedClusterKind)"
| "object_resource (KCronJob x) = Some (om_namespace x, kind_resource CronJobKind)"
| "object_resource (KUnstr x) = map_option (Pair (om_namespace x)) (unstr_resource (u_kind x))"

definition may_write :: "string \<Rightarrow> kobj \<Rightarrow> bool" where
  "may_write verb x = (case object_resource x of
       None \<Rightarrow> False
     | Some (ns, gr) \<Rightarrow> granted ns verb gr)"

definition may_write_status :: "string \<Rightarrow> kobj \<Rightarrow> bool" where
  "may_write_status verb x = (case object_resource x of
       None \<Rightarrow> False
     | Some (ns, g, r) \<Rightarrow> granted ns verb (g, r @ ''/status''))"

text \<open>
  The namespaces whose objects the manager's cache holds, as \<open>main\<close> configures it; a kind that is
  not restricted is cached for the whole cluster.
\<close>

definition cache_namespaces :: "string \<Rightarrow> kind \<Rightarrow> string list option" where
  "cache_namespaces operatorNS k = (case k of
       SecretKind \<Rightarrow> Some [operatorNS, ''open-cluster-management-observability'', ''openshift-config'']
     | AgenticRunKind \<Rightarrow> Some [AgenticNamespace]
     | AnalysisResultKind \<Rightarrow> Some [AgenticNamespace]
     | _ \<Rightarrow> None)"

text \<open>
  A cache lists and watches what it holds, for the whole cluster unless it is restricted. The
  manager's client reads unstructured objects past the cache, hence \<open>get\<close> is asked for as well.
\<close>

definition may_read_cached :: "string \<Rightarrow> kind \<Rightarrow> string \<Rightarrow> bool" where
  "may_read_cached operatorNS k ns = (case cache_namespaces operatorNS k of
       None \<Rightarrow> list_all (\<lambda>verb. everywhere cluster_role verb (kind_resource k)) read_verbs
     | Some nss \<Rightarrow> ns \<in> set nss \<and> list_all (\<lambda>verb. granted ns verb (kind_resource k)) read_verbs)"

fun authorized :: "call \<Rightarrow> bool" where
  "authorized (Get Cached k ns name) = may_read_cached operatorNamespace k ns"
| "authorized (Get Live k ns name) = granted ns ''get'' (kind_resource k)"
| "authorized (ListObjs Cached k ns ls) = may_read_cached operatorNamespace k ns"
| "authorized (ListObjs Live k ns ls) = granted ns ''list'' (kind_resource k)"
| "authorized (Create x) = may_write ''create'' x"
| "authorized (Update x) = may_write ''update'' x"
| "authorized (Delete x) = may_write ''delete'' x"
| "authorized (ApplyPatch x) = (may_write ''patch'' (KUnstr x) \<and> may_write ''create'' (KUnstr x))"
| "authorized (StatusUpdate x) = may_write_status ''update'' x"
| "authorized (StatusPatch before x) = may_write_status ''patch'' x"
| "authorized Now = True"
| "authorized Rand63 = True"
| "authorized (Rand63n n) = True"
| "authorized (HttpDo r) = True"
| "authorized (SetLevel l) = True"
| "authorized (Spawn d cluster check runName) = True"

text \<open>
  The roles in their namespaces can only help if the hub answers a read of a Secret with a Secret of
  the namespace that was asked for, because the code writes back what it read.
\<close>

definition secrets_in_place :: "trace \<Rightarrow> bool" where
  "secrets_in_place u \<longleftrightarrow> (\<forall>ev \<in> set u. case ev of
       (Get c SecretKind ns name, RObj (KSecret s)) \<Rightarrow> om_namespace s = ns
     | _ \<Rightarrow> True)"

definition within_roles :: "'a io \<Rightarrow> bool" where
  "within_roles m \<longleftrightarrow> spec m (\<lambda>_ u. secrets_in_place u \<longrightarrow> (\<forall>ev \<in> set u. authorized (fst ev)))"

text \<open>Every document of the two manifest files is of a kind the cluster role covers.\<close>

definition manifests_covered :: "manifests \<Rightarrow> bool" where
  "manifests_covered DM \<longleftrightarrow> list_all (\<lambda>d. case d of
       None \<Rightarrow> True
     | Some obj \<Rightarrow> list_all (\<lambda>verb. may_write verb (KUnstr obj)) [''create'', ''patch'', ''delete''])
     (fst (DM kubeCompareRBACYAML) @ fst (DM kubeCompareMCPYAML))"

section \<open>The granted calls\<close>

lemmas role_defs = granted_def everywhere_def covers_def marker_def cluster_role_def namespaced_roles_def
  read_verbs_def sorted_verbs_def sorted_admin_verbs_def kind_resource.simps

declare kind_resource.simps [simp del]

lemma cached_reads [simp]:
  "may_read_cached operatorNS ThcKind ns" "may_read_cached operatorNS RecordKind ns"
  "may_read_cached operatorNS ConfigMapKind ns" "may_read_cached operatorNS ManagedClusterKind ns"
  "may_read_cached operatorNS CronJobKind ns" "may_read_cached operatorNS RouteKind ns"
  by (simp_all add: may_read_cached_def cache_namespaces_def role_defs)

lemma cached_hub_reads [simp]:
  "may_read_cached operatorNS AgenticRunKind AgenticNamespace"
  "may_read_cached operatorNS AnalysisResultKind AgenticNamespace"
  by (simp_all add: may_read_cached_def cache_namespaces_def role_defs AgenticNamespace_def)

lemma cached_secrets [simp]:
  "may_read_cached operatorNamespace SecretKind operatorNamespace"
  "may_read_cached operatorNamespace SecretKind observabilityNamespace"
  "may_read_cached operatorNamespace SecretKind pullSecretNamespace"
  by (simp_all add: may_read_cached_def cache_namespaces_def role_defs operatorNamespace_def
      observabilityNamespace_def pullSecretNamespace_def)

lemma live_reads [simp]:
  "granted ns ''get'' (kind_resource ThcKind)" "granted ns ''get'' (kind_resource RecordKind)"
  "granted ns ''get'' (kind_resource ConfigMapKind)" "granted ns ''get'' (kind_resource RouteKind)"
  "granted ns ''list'' (kind_resource RecordKind)" "granted ns ''list'' (kind_resource ConfigMapKind)"
  "granted AgenticNamespace ''get'' (kind_resource AgenticRunKind)"
  "granted AgenticNamespace ''get'' (kind_resource AnalysisResultKind)"
  "granted operatorNamespace ''get'' (kind_resource SecretKind)"
  by (simp_all add: role_defs AgenticNamespace_def operatorNamespace_def)

lemma status_writes_granted [simp]:
  "may_write ''update'' (KTHC x)" "may_write_status ''update'' (KTHC x)"
  "may_write_status ''update'' (KRecord r)" "may_write_status ''patch'' (KRecord r)"
  by (simp_all add: may_write_def may_write_status_def role_defs)

lemma full_access [simp]:
  "may_write ''create'' (KRecord r)" "may_write ''update'' (KRecord r)" "may_write ''delete'' (KRecord r)"
  "may_write ''create'' (KCronJob j)" "may_write ''update'' (KCronJob j)" "may_write ''delete'' (KCronJob j)"
  "may_write ''create'' (KConfigMap c)" "may_write ''update'' (KConfigMap c)" "may_write ''delete'' (KConfigMap c)"
  by (simp_all add: may_write_def role_defs)

lemma secret_writes:
  assumes "om_namespace s = operatorNamespace"
  shows "may_write ''create'' (KSecret s)" "may_write ''update'' (KSecret s)" "may_write ''delete'' (KSecret s)"
  using assms by (simp_all add: may_write_def role_defs operatorNamespace_def)

lemma observability_secret_update:
  "om_namespace s = observabilityNamespace \<Longrightarrow> may_write ''update'' (KSecret s)"
  by (simp add: may_write_def role_defs observabilityNamespace_def)

lemma run_create:
  "BuildObject L name cluster labels cfg = Inr run \<Longrightarrow> may_write ''create'' (KUnstr run)"
  by (auto simp: BuildObject_def may_write_def unstr_resource_def role_defs AgenticNamespace_def
      split: sum.splits if_splits)

section \<open>Rules\<close>

lemma secrets_in_place_append [simp]:
  "secrets_in_place (u @ v) \<longleftrightarrow> secrets_in_place u \<and> secrets_in_place v" "secrets_in_place []"
  by (auto simp: secrets_in_place_def)

named_theorems role_intro \<comment> \<open>introduction rules of \<open>within_roles\<close>\<close>

lemma within_emits: "emits authorized m \<Longrightarrow> within_roles m"
  unfolding within_roles_def by (erule spec_of_emits) simp

lemma within_ret [role_intro]: "within_roles (ret x)"
  by (intro within_emits io_emits)

lemma within_bind [role_intro]:
  assumes "within_roles m" "\<And>x. within_roles (f x)" shows "within_roles (State_Monad.bind m f)"
  unfolding within_roles_def
proof (rule spec_bind, rule spec_conseq [OF assms(1) [unfolded within_roles_def]])
  fix x and u :: trace assume "secrets_in_place u \<longrightarrow> (\<forall>ev \<in> set u. authorized (fst ev))"
  then show "spec (f x) (\<lambda>_ v. secrets_in_place (u @ v) \<longrightarrow> (\<forall>ev \<in> set (u @ v). authorized (fst ev)))"
    using assms(2) [of x] unfolding within_roles_def by (auto elim!: spec_conseq)
qed

lemma within_if [role_intro]:
  "(b \<Longrightarrow> within_roles m) \<Longrightarrow> (\<not> b \<Longrightarrow> within_roles m') \<Longrightarrow> within_roles (if b then m else m')"
  by simp

lemma within_option [role_intro]:
  "(x = None \<Longrightarrow> within_roles m) \<Longrightarrow> (\<And>y. x = Some y \<Longrightarrow> within_roles (f y))
   \<Longrightarrow> within_roles (case x of None \<Rightarrow> m | Some y \<Rightarrow> f y)"
  by (cases x) simp_all

lemma within_sum [role_intro]:
  "(\<And>y. x = Inl y \<Longrightarrow> within_roles (f y)) \<Longrightarrow> (\<And>y. x = Inr y \<Longrightarrow> within_roles (g y))
   \<Longrightarrow> within_roles (case x of Inl y \<Rightarrow> f y | Inr y \<Rightarrow> g y)"
  by (cases x) simp_all

lemma within_then_do [role_intro]:
  "within_roles m \<Longrightarrow> (\<And>a. within_roles (f a)) \<Longrightarrow> within_roles (then_do m f)"
  unfolding then_do_def by (intro within_bind) (auto intro: role_intro split: outcome.split)

lemma within_plain [role_intro]: "within_roles m \<Longrightarrow> within_roles (plain m)"
  unfolding plain_def by (intro role_intro)

lemma within_until_error: "(\<And>m. m \<in> set ms \<Longrightarrow> within_roles m) \<Longrightarrow> within_roles (until_error ms)"
  by (induction ms) (auto intro!: role_intro)

lemma within_attempt_all: "(\<And>m. m \<in> set ms \<Longrightarrow> within_roles m) \<Longrightarrow> within_roles (attempt_all er ms)"
  by (induction ms arbitrary: er) (auto intro!: role_intro)

section \<open>The operations\<close>

named_theorems role_ops \<comment> \<open>the operations that stay within the roles\<close>

lemma asset_authorized [role_ops]:
  "emits authorized (ensure_asset what e cm)" "emits authorized (delete_asset what suffix e cm)"
  unfolding ensure_asset_def delete_asset_def by (intro io_emits; simp)+

lemma system_assets_authorized [role_ops]:
  "emits authorized (reconcileSystemAlertConfigMaps D e ns alerts)"
  "emits authorized (cleanupSystemAlertConfigMaps D e ns)"
  "emits authorized (reconcileSystemPeriodicConfigMaps D e ns periodic)"
  "emits authorized (cleanupSystemPeriodicConfigMaps D e ns)"
proof -
  have "emits authorized (reconcileSystemAlerts_loop D e ns alerts as)" for as
    by (induction as) (auto simp: Let_def intro!: io_emits role_ops)
  moreover have "emits authorized (cleanupSystemAlerts_loop D e ns as)" for as
    by (induction as) (auto simp: Let_def intro!: io_emits role_ops)
  moreover have "emits authorized (reconcileSystemPeriodic_loop D e ns periodic as)" for as
    by (induction as) (auto simp: Let_def intro!: io_emits role_ops)
  moreover have "emits authorized (cleanupSystemPeriodic_loop D e ns as)" for as
    by (induction as) (auto simp: Let_def intro!: io_emits role_ops)
  ultimately show "emits authorized (reconcileSystemAlertConfigMaps D e ns alerts)"
    "emits authorized (cleanupSystemAlertConfigMaps D e ns)"
    "emits authorized (reconcileSystemPeriodicConfigMaps D e ns periodic)"
    "emits authorized (cleanupSystemPeriodicConfigMaps D e ns)"
    by (simp_all add: reconcileSystemAlertConfigMaps_def cleanupSystemAlertConfigMaps_def
        reconcileSystemPeriodicConfigMaps_def cleanupSystemPeriodicConfigMaps_def)
qed

lemma purge_authorized [role_ops]:
  "emits authorized (reconcilePurgeCronJob DJ e ns thc)" "emits authorized (cleanupPurgeCronJob e ns)"
  unfolding reconcilePurgeCronJob_def cleanupPurgeCronJob_def store_purge_job_def
  by (intro io_emits; simp)+

lemma rules_authorized [role_ops]:
  "emits authorized (reconcileAlertRules ul J e ns user)" "emits authorized (cleanupAlertRules e)"
  "emits authorized (reconcileObservabilityMetrics J e ns user)" "emits authorized (cleanupObservabilityMetrics e)"
  unfolding reconcileAlertRules_def listAllAlertConfigs_def store_rules_def cleanupAlertRules_def delete_configMap_def
    reconcileObservabilityMetrics_def cleanupObservabilityMetrics_def Let_def
  by (intro io_emits; auto intro!: io_emits)+

text \<open>The Alertmanager Secret is written back where it was read.\<close>

lemma store_config_update:
  "spec (store_config e sec s) (\<lambda>_ u. om_namespace sec = observabilityNamespace \<longrightarrow> (\<forall>ev \<in> set u. authorized (fst ev)))"
  unfolding store_config_def by (intro io_spec) (auto intro: observability_secret_update)

lemma alertmanager_within [role_intro]:
  "within_roles (reconcileAlertManagerReceiver Y e url)" "within_roles (removeAlertManagerReceiver Y e)"
  unfolding within_roles_def reconcileAlertManagerReceiver_def removeAlertManagerReceiver_def
  by (intro spec_bind spec_api_get spec_sum spec_ret spec_conseq [OF store_config_update];
      auto simp: as_secret_Inr secrets_in_place_def)+

text \<open>The manifests, whose documents have to be of covered kinds.\<close>

lemma emits_documents:
  assumes "\<And>obj. Some obj \<in> set (fst (DM data)) \<Longrightarrow> emits P (fn obj)"
  shows "emits P (forEachObject DM data fn)"
proof -
  have "emits P (forEachObject_loop fin fn docs)" if "\<And>obj. Some obj \<in> set docs \<Longrightarrow> emits P (fn obj)" for fin docs
    using that
  proof (induction docs)
    case Nil
    show ?case by (auto intro!: io_emits)
  next
    case (Cons d docs)
    then show ?case by (cases d) (auto intro!: io_emits)
  qed
  with assms show ?thesis by (simp add: forEachObject_def)
qed

lemma manifests_authorized:
  assumes "manifests_covered DM" "data \<in> {kubeCompareRBACYAML, kubeCompareMCPYAML}"
  shows "emits authorized (applyManifests DM e data)" "emits authorized (deleteManifests DM e data)"
proof -
  have "may_write verb (KUnstr obj)" if "Some obj \<in> set (fst (DM data))" "verb \<in> {''create'', ''patch'', ''delete''}" for obj verb
    using assms that by (force simp: manifests_covered_def list_all_iff)
  then show "emits authorized (applyManifests DM e data)" "emits authorized (deleteManifests DM e data)"
    unfolding applyManifests_def deleteManifests_def delete_ignoring_def
    by (intro emits_documents io_emits; simp)+
qed

lemma registry_within [role_intro]: "within_roles (ensureRegistryCredentials e operatorNamespace)"
  unfolding within_roles_def ensureRegistryCredentials_def
  by (intro io_spec) (auto simp: as_secret_Inr secrets_in_place_def registry_secret_def intro: secret_writes)

lemma kubeCompare_within:
  assumes "manifests_covered DM"
  shows "within_roles (reconcileKubeCompareMCP DM e operatorNamespace enabled)"
    "within_roles (cleanupKubeCompareMCP DM e operatorNamespace)"
proof -
  note files = manifests_authorized [OF assms, THEN within_emits]
  have "within_roles (ensureKubeCompareMCP DM e operatorNamespace)"
    unfolding ensureKubeCompareMCP_def apply_files.simps by (intro role_intro files) simp_all
  moreover have "emits authorized (delete_ignoring e (KSecret (registry_secret operatorNamespace '''' None)))"
    unfolding delete_ignoring_def by (intro io_emits) (simp add: secret_writes registry_secret_def)
  then have "within_roles (removeKubeCompareMCP DM e operatorNamespace)"
    unfolding removeKubeCompareMCP_def delete_files.simps by (intro role_intro files within_emits) simp_all
  ultimately show "within_roles (reconcileKubeCompareMCP DM e operatorNamespace enabled)"
    "within_roles (cleanupKubeCompareMCP DM e operatorNamespace)"
    by (simp_all add: reconcileKubeCompareMCP_def cleanupKubeCompareMCP_def)
qed

section \<open>Records and runs\<close>

lemma record_authorized [role_ops]:
  "emits authorized (Begin e ns name runName cluster triggeredBy trigger owner)"
  "emits authorized (finishCreation k e c ns name phase)"
proof -
  show "emits authorized (Begin e ns name runName cluster triggeredBy trigger owner)"
    unfolding Begin_def Let_def by (intro io_emits) simp_all
  have "authorized (Get c RecordKind ns name)" by (cases c) simp_all
  then show "emits authorized (finishCreation k e c ns name phase)"
    unfolding finishCreation_def finish_status_attempt_def finish_annotation_attempt_def
    by (intro io_emits) simp_all
qed

lemma create_and_settle_authorized:
  "BuildObject L name cluster labels cfg = Inr run \<Longrightarrow> emits authorized (create_and_settle k e c ns runName run result)"
  unfolding create_and_settle_def Fail_def Confirm_def
  by (intro io_emits role_ops) (simp add: run_create)

lemma config_authorized [role_ops]:
  "emits authorized (LoadRunConfig J e c name ns)" "emits authorized (BuildVarMap L e c ns cluster)"
proof -
  have "authorized (Get c ConfigMapKind ns name)" "authorized (Get c RouteKind ns kubeCompareMCPRouteName)" for ns name
    by (cases c; simp)+
  then show "emits authorized (LoadRunConfig J e c name ns)" "emits authorized (BuildVarMap L e c ns cluster)"
    unfolding LoadRunConfig_def BuildVarMap_def Let_def by (intro io_emits; simp)+
qed

lemma periodic_run_authorized [role_ops]:
  "emits authorized (createAgenticRunForCluster k L e thc cluster checkType cfg runName)"
  unfolding createAgenticRunForCluster_def by (intro io_emits role_ops create_and_settle_authorized)

lemma create_loop_authorized [role_ops]:
  "emits authorized (create_loop k L e thc checkType cfg minJ maxJ runPrefix cs)"
proof (induction cs)
  case Nil
  show ?case by (simp add: emits_ret)
next
  case (Cons cluster cs)
  then show ?case
    unfolding create_loop.simps Let_def randomJitter_def rand_Int63_def rand_Int63n_def
    by (intro io_emits role_ops) simp_all
qed

lemma claim_and_run_authorized [role_ops]:
  "emits authorized (claim_and_run k L J e t0 clusters check minJ maxJ thc)"
  unfolding claim_and_run_def loadRunConfigForCheck_def createAgenticRunsForClustersWithConfig_def Let_def
  by (intro io_emits role_ops) simp_all

lemma periodic_loop_authorized [role_ops]:
  "emits authorized (periodic_loop k L J e t0 period clusters checks thc requeueAfter persisted)"
  by (induction checks arbitrary: thc requeueAfter persisted)
    (auto simp: Let_def shouldRunCheck_def until_due_def split: prod.split intro!: io_emits role_ops)

lemma runPeriodicChecks_authorized [role_ops]: "emits authorized (runPeriodicChecks k L J e thc clusters)"
  unfolding runPeriodicChecks_def Let_def by (intro io_emits role_ops) simp_all

lemma recovery_authorized [role_ops]: "emits authorized (recoverPendingRuns k L e ns)"
proof -
  have one: "emits authorized (recover_one k L e ns r)" for r
    unfolding recover_one_def Fail_def Confirm_def by (intro io_emits role_ops) simp_all
  have "emits authorized (recover_loop k L e ns rs pending)" for rs pending
    by (induction rs arbitrary: pending) (auto intro!: io_emits one)
  then show ?thesis unfolding recoverPendingRuns_def by (intro io_emits) simp_all
qed

section \<open>The reconcilers and the receiver\<close>

lemma pass_parts_authorized [role_ops]:
  "emits authorized (sync_log_level R e thc)" "emits authorized (getMonitoredClusters e sp)"
  "emits authorized (finish_pass S e thc clusters pendingRuns)"
  unfolding sync_log_level_def getMonitoredClusters_def finish_pass_def
  by (intro io_emits role_ops; simp)+

lemma reconcile_within:
  assumes ns: "r_operatorNamespace R = operatorNamespace" and DM: "manifests_covered (lib_manifests S)"
  shows "within_roles (thc_Reconcile S R e reqNs reqName)"
proof -
  note kube = kubeCompare_within [OF DM]
  have "within_roles m" if "m \<in> set (cleanup_operations S R e)" for m
    using that by (auto simp: cleanup_operations_def ns intro!: role_intro kube role_ops [THEN within_emits])
  then have deletion: "within_roles (handleDeletion S R e thc)" for thc
    unfolding handleDeletion_def cleanupResources_def
    by (intro role_intro within_attempt_all within_emits [OF emits_api_do]) simp_all
  have "within_roles m" if "m \<in> set (managed_operations S R e thc)" for m thc
    using that by (auto simp: managed_operations_def ns intro!: role_intro kube role_ops [THEN within_emits])
  moreover have "within_roles m" if "m \<in> set (optional_operations S R e thc)" for m thc
    using that by (auto simp: optional_operations_def ns intro!: role_intro role_ops [THEN within_emits])
  ultimately have live: "within_roles (reconcile_live S R e thc)" for thc
    unfolding reconcile_live_def Let_def ns
    by (intro role_intro within_until_error within_attempt_all role_ops [THEN within_emits])
  show ?thesis
    unfolding thc_Reconcile_def
    by (intro role_intro deletion live within_emits [OF emits_api_get] within_emits [OF emits_api_do]) simp_all
qed

lemma sync_authorized [role_ops]: "emits authorized (syncHubRunStatus k L T e record)"
  unfolding syncHubRunStatus_def latest_result_def sync_attempt_def queueActionAlert_def Let_def
  by (intro io_emits; simp)

lemma send_authorized [role_ops]: "emits authorized (send L W e operatorNamespace config record event)"
  unfolding send_def agenticRunURL_def post_alert_def authorize_def do_post_def Let_def
  by (intro io_emits; simp)

lemma runAlert_authorized:
  "emits authorized (runAlert_Reconcile k L T W e operatorNamespace reqNs reqName)"
  unfolding runAlert_Reconcile_def deliver_pass_def deliver_def stop_delivery_def start_firing_def deliver_next_def
    refresh_def resend_def patch_status_def Let_def
  by (intro io_emits role_ops; simp)

lemma watches_authorized: "emits authorized (runAlert_watches L e operatorNamespace ev)"
  unfolding runAlert_watches_def
  by (cases ev) (auto simp: mapHubRunToRecords_def mapHubResultToRecords_def mapHealthcheckToRuns_def
      mapAlertSecretToRuns_def split: prod.split intro!: io_emits)

lemma webhook_authorized: "emits authorized (HandleWebhook ul k L J P e dyn r)"
proof -
  have run: "emits authorized (createAgenticRunOnCluster ul k L J cluster alertName annotations e)"
    for cluster alertName annotations
    unfolding createAgenticRunOnCluster_def resolveAlertConfigMap_def start_alert_run_def Let_def
    by (intro io_emits role_ops create_and_settle_authorized) simp_all
  have "emits authorized (alerts_loop ul k L J e clusters names alerts)" for clusters names alerts
    by (induction alerts) (auto intro!: io_emits run)
  then show ?thesis
    unfolding HandleWebhook_def processAlerts_def rcv_getMonitoredClusters_def getDefinedAlertNames_def
    by (intro io_emits; simp)
qed

lemma scrape_authorized: "emits authorized (Collect_metrics e ns)"
  unfolding Collect_metrics_def by (intro io_emits; simp)

section \<open>Everything the operator does is granted\<close>

text \<open>
  Least privilege is enough: every call of a reconciliation, a delayed run, a delivery pass, an
  event mapping, a scrape and a webhook request is granted by the deployed roles, and every read
  through the manager's cache is of a kind and a namespace that the cache holds. This needs the
  operator in the namespace the roles name, manifests of covered kinds, and a hub that answers the
  read of a Secret with a Secret of that namespace.
\<close>

theorem operator_authorized:
  assumes "r_operatorNamespace R = operatorNamespace" "manifests_covered (lib_manifests S)"
  shows "within_roles (thc_Reconcile S R e reqNs reqName)
    \<and> within_roles (delayed_run k L e isDone thc cluster checkType cfg runName)
    \<and> within_roles (runAlert_Reconcile k L T W e (r_operatorNamespace R) reqNs reqName)
    \<and> within_roles (runAlert_watches L e (r_operatorNamespace R) ev)
    \<and> within_roles (Collect_metrics e (r_operatorNamespace R))
    \<and> within_roles (HandleWebhook ul k L J P e dyn r)"
proof -
  have "emits authorized (delayed_run k L e isDone thc cluster checkType cfg runName)"
    unfolding delayed_run_def by (intro io_emits role_ops)
  then show ?thesis
    using reconcile_within [OF assms] assms(1)
    by (simp add: within_emits runAlert_authorized watches_authorized scrape_authorized webhook_authorized)
qed

text \<open>The two manifest files as shipped: the kinds and names of their documents.\<close>

definition document :: "string \<Rightarrow> string \<Rightarrow> string \<Rightarrow> unstr option" where
  "document kd ns name = Some (object_meta.extend (empty_meta ns name) \<lparr>u_kind = kd, u_fields = Map.empty\<rparr>)"

definition shipped_manifests :: manifests where
  "shipped_manifests data =
     (if data = kubeCompareRBACYAML then
        [document ''ServiceAccount'' ''telco-healthcheck-system'' ''kube-compare-mcp'',
         document ''ClusterRole'' '''' ''kube-compare-mcp-reader'',
         document ''ClusterRoleBinding'' '''' ''kube-compare-mcp-reader'']
      else
        [document ''Deployment'' ''telco-healthcheck-system'' ''telco-anomaly-kube-compare-mcp'',
         document ''Service'' ''telco-healthcheck-system'' ''telco-anomaly-kube-compare-mcp'',
         document ''Route'' ''telco-healthcheck-system'' ''telco-anomaly-kube-compare-mcp''], None)"

definition sample_libs :: libs where
  "sample_libs = \<lparr>lib_retry = 4, lib_lower = id, lib_ulib = tree_ulib, lib_json = sample_json,
     lib_yaml = sample_yaml, lib_configMap = (\<lambda>f. Inl (Msg f)), lib_manifests = shipped_manifests,
     lib_cronJob = (\<lambda>f. Inl (Msg f)),
     lib_finalizers = \<lparr>containsFinalizer = (\<lambda>fs f. f \<in> set fs), addFinalizer = (\<lambda>fs f. fs @ [f]),
       removeFinalizer = (\<lambda>fs f. filter (\<lambda>g. g \<noteq> f) fs)\<rparr>\<rparr>"

definition sample_operator :: telcoHealthcheckReconciler where
  "sample_operator = \<lparr>r_operatorNamespace = ''telco-healthcheck-system'', r_alertReceiverSvcURL = '''', r_logLevel = True\<rparr>"

lemma shipped_covered: "manifests_covered shipped_manifests"
  by (simp add: manifests_covered_def shipped_manifests_def document_def kubeCompareRBACYAML_def kubeCompareMCPYAML_def
      may_write_def unstr_resource_def role_defs object_meta.defs empty_meta_def)

theorem operator_authorized_witness:
  "within_roles (thc_Reconcile sample_libs sample_operator (\<lambda>t c. RObj (KTHC sample_thc)) '''' TelcoHealthcheckCanonicalName)"
  using operator_authorized [of sample_operator sample_libs] shipped_covered
  by (simp add: sample_operator_def sample_libs_def operatorNamespace_def)

text \<open>
  Secrets are reached in three namespaces only, and only in the operator's own one may the operator
  create or delete them.
\<close>

theorem secret_namespaces:
  "granted ns verb (kind_resource SecretKind) \<longleftrightarrow>
     ns = operatorNamespace \<and> verb \<in> set all_verbs
     \<or> ns = observabilityNamespace \<and> verb \<in> {''get'', ''list'', ''watch'', ''update'', ''patch''}
     \<or> ns = pullSecretNamespace \<and> verb \<in> set read_verbs"
  by (auto simp: role_defs all_verbs_def operatorNamespace_def observabilityNamespace_def pullSecretNamespace_def)

end
