(* ===== verification/Receiver_Server.thy ===== *)
theory Receiver_Server
  imports Alert_Receiver
begin

text \<open>
  \<open>internal/alertreceiver/server.go\<close> and the end of \<open>cmd/alertreceiver/main.go\<close>: the routes of the
  receiver's HTTP server, and its life from the start to the exit code of the process. The routing
  rules are those of \<open>http.ServeMux\<close> in Go 1.22, for the two patterns the server registers.
\<close>

section \<open>Routes\<close>

record server =
  srv_BindAddress :: string
  srv_logLevel :: bool  \<comment> \<open>whether the handler has a log level to adjust\<close>

definition NewServer :: "string \<Rightarrow> bool \<Rightarrow> server" where
  "NewServer bindAddress logLevel = \<lparr>srv_BindAddress = bindAddress, srv_logLevel = logLevel\<rparr>"

text \<open>A request as the server sees it: the URI of its first line and the escaped path of its URL.\<close>

record server_request = webhook_request +
  sr_requestURI :: string
  sr_escapedPath :: string

text \<open>\<open>path.Clean\<close> on a rooted path, and the mux's \<open>cleanPath\<close>, which keeps a final slash.\<close>

fun split_slash :: "string \<Rightarrow> string list" where
  "split_slash [] = [[]]"
| "split_slash (c # cs) =
     (if c = CHR ''/'' then [] # split_slash cs
      else (case split_slash cs of [] \<Rightarrow> [[c]] | s # ss \<Rightarrow> (c # s) # ss))"

fun clean_segments :: "string list \<Rightarrow> string list \<Rightarrow> string list" where
  "clean_segments out [] = rev out"
| "clean_segments out (s # ss) =
     (if s = '''' \<or> s = ''.'' then clean_segments out ss
      else if s = ''..'' then clean_segments (tl out) ss
      else clean_segments (s # out) ss)"

definition path_Clean :: "string \<Rightarrow> string" where
  "path_Clean p = (case clean_segments [] (split_slash p) of
       [] \<Rightarrow> ''/''
     | s # ss \<Rightarrow> concat (map (\<lambda>x. CHR ''/'' # x) (s # ss)))"

definition cleanPath :: "string \<Rightarrow> string" where
  "cleanPath p0 =
     (if p0 = '''' then ''/''
      else (let p = (if hd p0 \<noteq> CHR ''/'' then CHR ''/'' # p0 else p0); np = path_Clean p
            in if last p = CHR ''/'' \<and> np \<noteq> ''/'' then np @ ''/'' else np))"

text \<open>A pattern of one segment matches a path of one segment, after percent decoding of it.\<close>

definition hex_value :: "char \<Rightarrow> nat option" where
  "hex_value c = (let n = (of_char c :: nat) in
     if 48 \<le> n \<and> n \<le> 57 then Some (n - 48)
     else if 65 \<le> n \<and> n \<le> 70 then Some (n - 55)
     else if 97 \<le> n \<and> n \<le> 102 then Some (n - 87) else None)"

fun unescape :: "string \<Rightarrow> string option" where
  "unescape [] = Some []"
| "unescape (c # cs) =
     (if c \<noteq> CHR ''%'' then map_option (Cons c) (unescape cs)
      else (case cs of
          a # b # rest \<Rightarrow>
            (case (hex_value a, hex_value b) of
               (Some m, Some n) \<Rightarrow> map_option (Cons (char_of (16 * m + n))) (unescape rest)
             | _ \<Rightarrow> None)
        | _ \<Rightarrow> None))"

definition pathUnescape :: "string \<Rightarrow> string" where
  "pathUnescape s = (case unescape s of None \<Rightarrow> s | Some t \<Rightarrow> t)"

definition matches_pattern :: "string \<Rightarrow> string \<Rightarrow> bool" where
  "matches_pattern name p \<longleftrightarrow> p \<noteq> '''' \<and> hd p = CHR ''/'' \<and> tl p \<noteq> '''' \<and> CHR ''/'' \<notin> set (tl p)
     \<and> pathUnescape (tl p) = name"

datatype route = Webhook | Healthz | Redirect | NotRouted

definition find_handler :: "server_request \<Rightarrow> route" where
  "find_handler r =
     (if wr_method r \<noteq> ''CONNECT'' \<and> cleanPath (sr_escapedPath r) \<noteq> sr_escapedPath r then Redirect
      else if matches_pattern ''webhook'' (sr_escapedPath r) then Webhook
      else if matches_pattern ''healthz'' (sr_escapedPath r) then Healthz
      else NotRouted)"

text \<open>The response code of the server; the request \<open>OPTIONS *\<close> is answered by \<open>http.Server\<close> itself.\<close>

definition serve_http ::
  "(string \<Rightarrow> string) \<Rightarrow> nat \<Rightarrow> ulib \<Rightarrow> json \<Rightarrow> (string \<Rightarrow> gerr + alertManagerPayload) \<Rightarrow> env \<Rightarrow> server
   \<Rightarrow> server_request \<Rightarrow> nat io" where
  "serve_http ul k L J P e s r =
     (if sr_requestURI r = ''*'' then ret (if wr_method r = ''OPTIONS'' then 200 else 400)
      else (case find_handler r of
          Redirect \<Rightarrow> ret 301
        | Webhook \<Rightarrow> HandleWebhook ul k L J P e (srv_logLevel s) (webhook_request.truncate r)
        | Healthz \<Rightarrow> ret 200
        | NotRouted \<Rightarrow> ret 404))"

lemma matches_exact:
  "CHR ''/'' \<notin> set name \<Longrightarrow> CHR ''%'' \<notin> set name \<Longrightarrow> name \<noteq> '''' \<Longrightarrow> matches_pattern name (CHR ''/'' # name)"
proof -
  assume "CHR ''/'' \<notin> set name" "CHR ''%'' \<notin> set name" "name \<noteq> ''''"
  moreover have "unescape xs = Some xs" if "CHR ''%'' \<notin> set xs" for xs
    using that by (induction xs) auto
  ultimately show ?thesis by (simp add: matches_pattern_def pathUnescape_def)
qed

section \<open>Start and shutdown\<close>

text \<open>
  \<open>Start\<close> waits for the cancellation of its context or for the failure of \<open>ListenAndServe\<close>, whichever
  it sees first. After a cancellation it returns what \<open>Shutdown\<close> returns, within ten seconds.
\<close>

datatype server_state = Serving | Draining | Returned "gerr option"

datatype server_event = Cancelled | ListenFailed gerr | ShutdownReturned "gerr option"

inductive server_step :: "server_state \<Rightarrow> server_event \<Rightarrow> server_state \<Rightarrow> bool" where
  cancel: "server_step Serving Cancelled Draining"
| listen: "server_step Serving (ListenFailed er) (Returned (Some (Wrap ''alert receiver server error'' er)))"
| late_listen: "server_step Draining (ListenFailed er) Draining"
| shutdown: "server_step Draining (ShutdownReturned res) (Returned res)"

inductive server_run :: "server_state \<Rightarrow> server_event list \<Rightarrow> server_state \<Rightarrow> bool" where
  idle: "server_run s [] s"
| more: "server_step s ev s' \<Longrightarrow> server_run s' evs s'' \<Longrightarrow> server_run s (ev # evs) s''"

inductive_cases server_stepE: "server_step s ev s'"
inductive_cases server_runE: "server_run s evs s'"

text \<open>\<open>main\<close> exits with code 1 if the server returned an error.\<close>

definition exit_code :: "gerr option \<Rightarrow> nat" where
  "exit_code er = (case er of None \<Rightarrow> 0 | Some x \<Rightarrow> 1)"

lemma draining_run:
  "server_run s evs s' \<Longrightarrow> s = Draining \<Longrightarrow> s' = Returned res \<Longrightarrow> ShutdownReturned res \<in> set evs"
proof (induction rule: server_run.induct)
  case (more s ev s1 evs s2)
  from more.hyps(1) more.prems(1) consider "s1 = Draining" | r where "ev = ShutdownReturned r" "s1 = Returned r"
    by (auto elim: server_stepE)
  then show ?case
  proof cases
    case 1
    then show ?thesis using more by simp
  next
    case 2
    with more.hyps(2) more.prems(2) have "r = res"
      by (auto elim: server_runE server_stepE)
    with 2 show ?thesis by simp
  qed
qed simp

text \<open>
  The process ends with code 0 only after it was told to stop and every open request was served in
  time; a listener that fails is never mistaken for a normal end.
\<close>

theorem clean_exit:
  assumes "server_run Serving evs (Returned res)" "exit_code res = 0"
  shows "\<exists>rest. evs = Cancelled # rest \<and> ShutdownReturned None \<in> set rest"
proof -
  have res: "res = None" using assms(2) by (simp add: exit_code_def split: option.splits)
  obtain ev s1 rest where run: "evs = ev # rest" "server_step Serving ev s1" "server_run s1 rest (Returned res)"
    using assms(1) by (auto elim: server_runE)
  from run(2) consider "ev = Cancelled" "s1 = Draining" | er where "s1 = Returned (Some er)"
    by (auto elim: server_stepE)
  then show ?thesis
  proof cases
    case 1
    then show ?thesis using draining_run [OF run(3)] run(1) res by simp
  next
    case 2
    with run(3) res show ?thesis by (auto elim: server_runE server_stepE)
  qed
qed

section \<open>What a request may do\<close>

text \<open>
  C39. What the receiver answers, for every request: \<open>OPTIONS *\<close> is answered with 200 and any other
  \<open>*\<close> with 400; a path that is not clean is redirected with 301; \<open>/healthz\<close> is answered with 200 whatever the method,
  a path that is no route with 404; on \<open>/webhook\<close> another method than POST gets 405, an unreadable or
  undecodable body 400, a payload without alerts 200, and one with alerts 500 if the
  TelcoHealthcheck cannot be read and 200 if it can, so that a failure to create one run, or to read the rules, is not
  reported to Alertmanager. Only the webhook, with alerts, reads or writes anything in the hub.
\<close>

theorem server_status:
  "\<exists>u. snd (run_state (serve_http ul k L J P e s r) t) = t @ u
     \<and> (case fst (run_state (serve_http ul k L J P e s r) t) of code \<Rightarrow>
         if sr_requestURI r = ''*'' then u = [] \<and> code = (if wr_method r = ''OPTIONS'' then 200 else 400)
         else if sr_escapedPath r = ''/webhook'' then webhook_code P (webhook_request.truncate r) code u
         else if sr_escapedPath r = ''/healthz'' then u = [] \<and> code = 200
         else if wr_method r \<noteq> ''CONNECT'' \<and> cleanPath (sr_escapedPath r) \<noteq> sr_escapedPath r then u = [] \<and> code = 301
         else if matches_pattern ''webhook'' (sr_escapedPath r) then webhook_code P (webhook_request.truncate r) code u
         else u = [] \<and> code = (if matches_pattern ''healthz'' (sr_escapedPath r) then 200 else 404))"
proof -
  have clean: "cleanPath ''/healthz'' = ''/healthz''" "cleanPath ''/webhook'' = ''/webhook''"
    by (simp_all add: cleanPath_def path_Clean_def)
  have routes: "matches_pattern ''webhook'' ''/webhook''" "matches_pattern ''healthz'' ''/healthz''"
    "\<not> matches_pattern ''webhook'' ''/healthz''"
    using matches_exact [of "''webhook''"] matches_exact [of "''healthz''"]
    by (simp_all add: matches_pattern_def pathUnescape_def)
  show ?thesis
    using webhook_status [where r = "webhook_request.truncate r" and dyn = "srv_logLevel s"
        and ul = ul and k = k and L = L and J = J and P = P and e = e and t = t] clean routes
    by (auto simp: serve_http_def find_handler_def)
qed

text \<open>A redirect, a decoded path and the two routes.\<close>

lemma routes_evaluate:
  "cleanPath ''//webhook'' = ''/webhook''" "cleanPath ''/a/../webhook/'' = ''/webhook/''"
  "matches_pattern ''webhook'' ''/%77ebhook''" "\<not> matches_pattern ''webhook'' ''/webhook/''"
  by code_simp+

end
