(* ===== verification/Admission.thy ===== *)
theory Admission
  imports Reconciler
begin

text \<open>
  \<open>internal/webhook/telcohealthcheck_webhook.go\<close>: the admission webhook that keeps the
  configuration a singleton. The admission decision is an optional error; there are no warnings.
\<close>

definition ValidateCreate :: "kobj \<Rightarrow> gerr option" where
  "ValidateCreate obj =
     (case obj of
        KTHC thc \<Rightarrow>
          if om_name thc \<noteq> TelcoHealthcheckCanonicalName then
            Some (Msg (''TelcoHealthcheck name must be '' @ TelcoHealthcheckCanonicalName @ ''; got '' @ om_name thc))
          else None
      | _ \<Rightarrow> Some (Msg ''expected TelcoHealthcheck''))"

definition ValidateUpdate :: "kobj \<Rightarrow> kobj \<Rightarrow> gerr option" where
  "ValidateUpdate old new = None"

definition ValidateDelete :: "kobj \<Rightarrow> gerr option" where
  "ValidateDelete obj = None"

text \<open>
  \<open>cmd/controller/main.go\<close> reports the controller as ready only when the service CA operator has
  put its bundle into the webhook configuration. The argument is the result of the read: the CA
  bundles of the configured webhooks.
\<close>

definition webhookCABundleReady :: "gerr + string list \<Rightarrow> gerr option" where
  "webhookCABundleReady g =
     (case g of
        Inl er \<Rightarrow> Some (Wrap ''getting ValidatingWebhookConfiguration'' er)
      | Inr [] \<Rightarrow> Some (Msg ''webhook CA bundle not yet injected by service CA operator'')
      | Inr (bundle # bundles) \<Rightarrow>
          if bundle = '''' then Some (Msg ''webhook CA bundle not yet injected by service CA operator'') else None)"

text \<open>
  The singleton is the one that is reconciled: an object is admitted exactly if it is a
  configuration of the canonical name, and that name, without a namespace, is what cluster, record
  and alert ConfigMap events ask the reconciler for.
\<close>

theorem admitted_is_reconciled:
  "ValidateCreate obj = None \<longleftrightarrow>
     (\<exists>thc. obj = KTHC thc \<and> mapManagedClusterToTelcoHealthchecks ev = [('''', om_name thc)]
        \<and> mapUserAlertCMToTHC ev = [('''', om_name thc)])"
  by (cases obj) (auto simp: ValidateCreate_def mapManagedClusterToTelcoHealthchecks_def mapUserAlertCMToTHC_def)

end
