(* ===== verification/Processes.thy ===== *)
theory Processes
  imports Access Receiver_Server Admission
begin

text \<open>
  The two processes, \<open>cmd/controller/main.go\<close> and \<open>cmd/alertreceiver/main.go\<close>: the command line, the
  types the client knows, and the steps of the start in their order, each of which ends the process
  with code 1 if it fails. The command line is that of Go's package \<open>flag\<close>; the logging flags that
  \<open>BindFlags\<close> adds, and the level they choose, are parameters.
\<close>

section \<open>The command line\<close>

text \<open>How a flag is used: \<open>Switch\<close> for a boolean one. \<open>accepts\<close> says whether a value can be parsed.\<close>

datatype flag_use = Switch | Takes_value

record flag_set =
  fs_flag :: "string \<Rightarrow> flag_use option"
  fs_accepts :: "string \<Rightarrow> string \<Rightarrow> bool"

definition parseBool :: "string \<Rightarrow> bool option" where
  "parseBool s =
     (if s \<in> set [''1'', ''t'', ''T'', ''TRUE'', ''true'', ''True''] then Some True
      else if s \<in> set [''0'', ''f'', ''F'', ''FALSE'', ''false'', ''False''] then Some False
      else None)"

text \<open>The name and the value of \<open>name=value\<close>; the name is not empty.\<close>

definition split_value :: "string \<Rightarrow> string \<times> string option" where
  "split_value s = (let name = takeWhile (\<lambda>c. c \<noteq> CHR ''='') s in
     (name, if name = s then None else Some (drop (Suc (length name)) s)))"

text \<open>
  \<open>parse_flags\<close> gives the settings in their order, or the code with which the process exits: 2 for a
  command line that is not understood, 0 after printing the usage for \<open>-h\<close>.
\<close>

definition flag_name :: "string \<Rightarrow> string option" where
  "flag_name s = (let n = (if hd (tl s) = CHR ''-'' then tl (tl s) else tl s) in
     if n = '''' \<or> hd n = CHR ''-'' \<or> hd n = CHR ''='' then None else Some n)"

definition ends_flags :: "string \<Rightarrow> bool" where
  "ends_flags s \<longleftrightarrow> length s < 2 \<or> hd s \<noteq> CHR ''-'' \<or> s = ''--''"

fun parse_flags :: "flag_set \<Rightarrow> string list \<Rightarrow> nat + (string \<times> string) list" where
  "parse_flags F [] = Inr []"
| "parse_flags F (s # args) =
     (if ends_flags s then Inr []
      else (case flag_name s of
          None \<Rightarrow> Inl 2
        | Some n \<Rightarrow> (case split_value n of (name, v) \<Rightarrow>
            (case fs_flag F name of
               None \<Rightarrow> Inl (if name = ''help'' \<or> name = ''h'' then 0 else 2)
             | Some Switch \<Rightarrow>
                 (let value = (case v of None \<Rightarrow> ''true'' | Some x \<Rightarrow> x) in
                  if fs_accepts F name value then map_sum id (Cons (name, value)) (parse_flags F args) else Inl 2)
             | Some Takes_value \<Rightarrow>
                 (case v of
                    Some value \<Rightarrow>
                      if fs_accepts F name value then map_sum id (Cons (name, value)) (parse_flags F args) else Inl 2
                  | None \<Rightarrow>
                      (case args of
                         [] \<Rightarrow> Inl 2
                       | value # rest \<Rightarrow>
                           if fs_accepts F name value then map_sum id (Cons (name, value)) (parse_flags F rest)
                           else Inl 2))))))"

text \<open>The value of a flag: its last setting, or its default.\<close>

definition setting :: "(string \<times> string) list \<Rightarrow> string \<Rightarrow> string \<Rightarrow> string" where
  "setting as name dflt = (case map_of (rev as) name of None \<Rightarrow> dflt | Some v \<Rightarrow> v)"

text \<open>The logging flags: which there are, and whether the level they set enables debug messages.\<close>

record zap_options =
  zo_flags :: flag_set
  zo_debug :: "(string \<times> string) list \<Rightarrow> bool"

definition initialLevel :: "zap_options \<Rightarrow> (string \<times> string) list \<Rightarrow> zap_level" where
  "initialLevel Z as = (if zo_debug Z as then DebugLevel else InfoLevel)"

section \<open>The types of the client\<close>

text \<open>
  A scheme lists the API types a client can encode. The types of the Kubernetes client library and
  of the cluster API are registered by those libraries; \<open>utilruntime.Must\<close> panics on an error.
\<close>

type_synonym type_scheme = "((string \<times> string) \<times> string) list"

definition GroupVersion :: "string \<times> string" where "GroupVersion = (''ran.openshift.io'', ''v1alpha1'')"

definition registered_types :: "string list" where
  "registered_types = [''TelcoHealthcheck'', ''TelcoHealthcheckList'', ''TelcoHealthCheckRun'', ''TelcoHealthCheckRunList'']"

definition AddToScheme :: "type_scheme \<Rightarrow> gerr + type_scheme" where
  "AddToScheme s = Inr (s @ map (Pair GroupVersion) registered_types)"

definition must :: "(type_scheme \<Rightarrow> gerr + type_scheme) \<Rightarrow> type_scheme option \<Rightarrow> type_scheme option" where
  "must add s = Option.bind s (\<lambda>x. case add x of Inl er \<Rightarrow> None | Inr y \<Rightarrow> Some y)"

text \<open>\<open>init\<close> of both processes; \<open>None\<close> is the panic.\<close>

definition init_scheme ::
  "(type_scheme \<Rightarrow> gerr + type_scheme) \<Rightarrow> (type_scheme \<Rightarrow> gerr + type_scheme) \<Rightarrow> type_scheme option" where
  "init_scheme clientgo clusterv1 = must AddToScheme (must clusterv1 (must clientgo (Some [])))"

section \<open>The controller\<close>

record controller_flags =
  cf_metricsAddr :: string
  cf_probeAddr :: string
  cf_leaderElection :: bool
  cf_operatorNamespace :: string
  cf_alertReceiverURL :: string

definition controller_flag_set :: "zap_options \<Rightarrow> flag_set" where
  "controller_flag_set Z =
     \<lparr>fs_flag = (\<lambda>name.
        if name \<in> set [''metrics-bind-address'', ''health-probe-bind-address'', ''operator-namespace'', ''alert-receiver-url'']
        then Some Takes_value
        else if name = ''leader-elect'' then Some Switch
        else fs_flag (zo_flags Z) name),
      fs_accepts = (\<lambda>name value.
        if name \<in> set [''metrics-bind-address'', ''health-probe-bind-address'', ''operator-namespace'', ''alert-receiver-url'']
        then True
        else if name = ''leader-elect'' then parseBool value \<noteq> None
        else fs_accepts (zo_flags Z) name value)\<rparr>"

definition read_controller_flags :: "(string \<times> string) list \<Rightarrow> controller_flags" where
  "read_controller_flags as =
     \<lparr>cf_metricsAddr = setting as ''metrics-bind-address'' '':8080'',
      cf_probeAddr = setting as ''health-probe-bind-address'' '':8081'',
      cf_leaderElection = (parseBool (setting as ''leader-elect'' ''false'') = Some True),
      cf_operatorNamespace = setting as ''operator-namespace'' ''telco-healthcheck-system'',
      cf_alertReceiverURL = setting as ''alert-receiver-url'' ''''\<rparr>"

record manager_options =
  mo_scheme :: type_scheme
  mo_cache :: "kind \<Rightarrow> string list option"
  mo_metricsAddr :: string
  mo_probeAddr :: string
  mo_leaderElection :: bool
  mo_leaderElectionID :: string
  mo_webhookPort :: int

datatype probe = Ping | CABundle

datatype setup_step =
    GetConfig
  | NewManager manager_options
  | RegisterMetrics string
  | SetupReconciler telcoHealthcheckReconciler
  | SetupWebhook
  | AddHealthzCheck string probe
  | AddReadyzCheck string probe
  | StartManager

definition controller_manager :: "type_scheme \<Rightarrow> controller_flags \<Rightarrow> manager_options" where
  "controller_manager types f =
     \<lparr>mo_scheme = types, mo_cache = cache_namespaces (cf_operatorNamespace f), mo_metricsAddr = cf_metricsAddr f,
      mo_probeAddr = cf_probeAddr f, mo_leaderElection = cf_leaderElection f,
      mo_leaderElectionID = ''telco-anomaly-detection-leader.ran.openshift.io'', mo_webhookPort = 9443\<rparr>"

definition controller_reconciler :: "controller_flags \<Rightarrow> telcoHealthcheckReconciler" where
  "controller_reconciler f = \<lparr>r_operatorNamespace = cf_operatorNamespace f,
     r_alertReceiverSvcURL = cf_alertReceiverURL f, r_logLevel = True\<rparr>"

definition controller_steps :: "type_scheme \<Rightarrow> controller_flags \<Rightarrow> setup_step list" where
  "controller_steps types f =
     [GetConfig, NewManager (controller_manager types f), RegisterMetrics (cf_operatorNamespace f),
      SetupReconciler (controller_reconciler f), SetupWebhook, AddHealthzCheck ''healthz'' Ping,
      AddReadyzCheck ''readyz'' Ping, AddReadyzCheck ''webhook-ca-bundle'' CABundle, StartManager]"

text \<open>
  The steps that are made, until one fails or all are made, and the exit code. \<open>StartManager\<close> is the
  whole life of the manager: it ends without an error when the process is told to stop.
\<close>

fun run_steps :: "('s \<Rightarrow> gerr option) \<Rightarrow> 's list \<Rightarrow> 's list \<times> nat" where
  "run_steps outcome [] = ([], 0)"
| "run_steps outcome (s # ss) =
     (case outcome s of
        Some er \<Rightarrow> ([s], 1)
      | None \<Rightarrow> (case run_steps outcome ss of (made, code) \<Rightarrow> (s # made, code)))"

definition controller_main ::
  "zap_options \<Rightarrow> type_scheme \<Rightarrow> (setup_step \<Rightarrow> gerr option) \<Rightarrow> string list \<Rightarrow> setup_step list \<times> nat" where
  "controller_main Z types outcome args =
     (case parse_flags (controller_flag_set Z) args of
        Inl code \<Rightarrow> ([], code)
      | Inr as \<Rightarrow> run_steps outcome (controller_steps types (read_controller_flags as)))"

text \<open>
  The answer of a probe endpoint: the first failure among the checks of the kind that were added.
  \<open>vwc\<close> is what a read of the webhook configuration gives at that moment.
\<close>

fun probe_check :: "gerr + string list \<Rightarrow> probe \<Rightarrow> gerr option" where
  "probe_check vwc Ping = None"
| "probe_check vwc CABundle = webhookCABundleReady vwc"

fun readyz_checks :: "setup_step list \<Rightarrow> probe list" where
  "readyz_checks (AddReadyzCheck name p # ss) = p # readyz_checks ss"
| "readyz_checks (s # ss) = readyz_checks ss"
| "readyz_checks [] = []"

definition ready :: "setup_step list \<Rightarrow> gerr + string list \<Rightarrow> bool" where
  "ready made vwc \<longleftrightarrow> list_all (\<lambda>p. probe_check vwc p = None) (readyz_checks made)"

section \<open>The alert receiver\<close>

definition receiver_flag_set :: "zap_options \<Rightarrow> flag_set" where
  "receiver_flag_set Z =
     \<lparr>fs_flag = (\<lambda>name. if name = ''bind-address'' then Some Takes_value else fs_flag (zo_flags Z) name),
      fs_accepts = (\<lambda>name value. if name = ''bind-address'' then True else fs_accepts (zo_flags Z) name value)\<rparr>"

datatype receiver_step = GetClusterConfig | NewClient type_scheme | StartServer server

definition receiver_steps :: "type_scheme \<Rightarrow> (string \<times> string) list \<Rightarrow> receiver_step list" where
  "receiver_steps types as =
     [GetClusterConfig, NewClient types, StartServer (NewServer (setting as ''bind-address'' '':8080'') True)]"

definition receiver_main ::
  "zap_options \<Rightarrow> type_scheme \<Rightarrow> (receiver_step \<Rightarrow> gerr option) \<Rightarrow> string list \<Rightarrow> receiver_step list \<times> nat" where
  "receiver_main Z types outcome args =
     (case parse_flags (receiver_flag_set Z) args of
        Inl code \<Rightarrow> ([], code)
      | Inr as \<Rightarrow> run_steps outcome (receiver_steps types as))"

section \<open>The life of a process\<close>

definition stopped_at_failure :: "('s \<Rightarrow> gerr option) \<Rightarrow> 's list \<Rightarrow> 's list \<times> nat \<Rightarrow> bool" where
  "stopped_at_failure outcome steps r \<longleftrightarrow> (case r of (made, code) \<Rightarrow>
     made \<noteq> [] \<and> made = take (length made) steps \<and> list_all (\<lambda>s. outcome s = None) (butlast made)
     \<and> (if outcome (last made) = None then made = steps \<and> code = 0 else code = 1))"

lemma run_steps_stop: "steps \<noteq> [] \<Longrightarrow> stopped_at_failure outcome steps (run_steps outcome steps)"
proof (induction steps)
  case (Cons s ss)
  show ?case
  proof (cases "outcome s")
    case None
    then show ?thesis
      using Cons.IH by (cases ss) (auto simp: stopped_at_failure_def split: prod.splits if_splits)
  qed (simp add: stopped_at_failure_def)
qed simp

lemma made_prefix: "s \<in> set (fst (run_steps outcome steps)) \<Longrightarrow> s \<in> set steps"
  by (induction steps) (auto split: option.splits prod.splits)

lemma made_all:
  "run_steps outcome (xs @ [s]) = (made, code) \<Longrightarrow> s \<in> set made \<Longrightarrow> s \<notin> set xs \<Longrightarrow> made = xs @ [s]"
  by (induction xs arbitrary: made code) (auto split: option.splits prod.splits)

lemma steps_not_empty [simp]: "controller_steps types f \<noteq> []" "receiver_steps types as \<noteq> []"
  by (simp_all add: controller_steps_def receiver_steps_def)

text \<open>
  The controller starts in order or not at all: a command line that is not understood makes no step;
  otherwise the steps of \<open>main\<close> are made one after the other, the first that fails is the last and makes
  the exit code 1, and the code is 0 exactly if every step up to the end of the manager succeeded.
\<close>

theorem controller_life:
  "case parse_flags (controller_flag_set Z) args of
     Inl code \<Rightarrow> controller_main Z types outcome args = ([], code)
   | Inr as \<Rightarrow> stopped_at_failure outcome (controller_steps types (read_controller_flags as))
       (controller_main Z types outcome args)"
  by (simp add: controller_main_def run_steps_stop split: sum.split)

text \<open>The same of the alert receiver.\<close>

lemma receiver_life:
  "case parse_flags (receiver_flag_set Z) args of
     Inl code \<Rightarrow> receiver_main Z types outcome args = ([], code)
   | Inr as \<Rightarrow> stopped_at_failure outcome (receiver_steps types as) (receiver_main Z types outcome args)"
  by (simp add: receiver_main_def run_steps_stop split: sum.split)

text \<open>
  A started manager reports ready exactly while the service CA's bundle is in the configuration of
  the admission webhook, and is always alive.
\<close>

lemma ready_when_bundled:
  assumes "controller_main Z types outcome args = (made, code)" "StartManager \<in> set made"
  shows "ready made vwc \<longleftrightarrow> (\<exists>bundle bundles. vwc = Inr (bundle # bundles) \<and> bundle \<noteq> '''')"
proof -
  obtain as where run: "run_steps outcome (controller_steps types (read_controller_flags as)) = (made, code)"
    using assms by (auto simp: controller_main_def split: sum.splits)
  define xs where "xs = butlast (controller_steps types (read_controller_flags as))"
  have steps: "controller_steps types (read_controller_flags as) = xs @ [StartManager]" "StartManager \<notin> set xs"
    by (simp_all add: xs_def controller_steps_def)
  have "made = controller_steps types (read_controller_flags as)"
    using made_all [OF run [unfolded steps(1)] assms(2) steps(2)] steps(1) by simp
  then have "readyz_checks made = [Ping, CABundle]" by (simp add: controller_steps_def)
  then show ?thesis
    by (auto simp: ready_def webhookCABundleReady_def split: sum.splits list.splits if_splits)
qed

section \<open>The controller as it is deployed\<close>

text \<open>The arguments in \<open>config/manager/manager.yaml\<close> and \<open>config/manager/alertreceiver.yaml\<close>.\<close>

definition deployed_args :: "string list" where
  "deployed_args = [''--leader-elect'', ''--health-probe-bind-address=:8081'', ''--metrics-bind-address=:8080'']"

definition deployed_settings :: "(string \<times> string) list" where
  "deployed_settings =
     [(''leader-elect'', ''true''), (''health-probe-bind-address'', '':8081''), (''metrics-bind-address'', '':8080'')]"

lemma deployed_parsed: "parse_flags (controller_flag_set Z) deployed_args = Inr deployed_settings"
  by (auto simp: deployed_args_def deployed_settings_def ends_flags_def flag_name_def split_value_def
      controller_flag_set_def parseBool_def)

lemma operator_namespace_default:
  "''operator-namespace'' \<notin> fst ` set as \<Longrightarrow> cf_operatorNamespace (read_controller_flags as) = operatorNamespace"
proof -
  assume "''operator-namespace'' \<notin> fst ` set as"
  then have "map_of (rev as) ''operator-namespace'' = None" by (simp add: map_of_eq_None_iff)
  then show ?thesis by (simp add: read_controller_flags_def setting_def operatorNamespace_def)
qed

text \<open>
  C35. From the command line to the roles: whatever main and record reconcilers, scrapes and watches the
  controller sets up when it is started without \<open>-operator-namespace\<close>, every call they make is granted by
  the deployed roles, as is every call of a webhook request to the alert receiver (which runs under the same account), and every read through the manager's cache is of a kind and a namespace that the
  manager was told to cache.
\<close>

theorem started_operator_authorized:
  assumes "parse_flags (controller_flag_set Z) args = Inr as" "''operator-namespace'' \<notin> fst ` set as"
    and "controller_main Z types outcome args = (made, code)" "SetupReconciler R \<in> set made"
    and "manifests_covered (lib_manifests S)"
  shows "within_roles (thc_Reconcile S R e reqNs reqName)
    \<and> within_roles (delayed_run k L e isDone thc cluster checkType cfg runName)
    \<and> within_roles (runAlert_Reconcile k L T W e (r_operatorNamespace R) reqNs reqName)
    \<and> within_roles (runAlert_watches L e (r_operatorNamespace R) ev)
    \<and> within_roles (Collect_metrics e (r_operatorNamespace R))
    \<and> within_roles (HandleWebhook ul k L J P e dyn r)"
proof -
  have "R = controller_reconciler (read_controller_flags as)"
    using made_prefix [of "SetupReconciler R" outcome "controller_steps types (read_controller_flags as)"] assms(1,3,4)
    by (simp add: controller_main_def) (simp add: controller_steps_def)
  then have "r_operatorNamespace R = operatorNamespace"
    using operator_namespace_default [OF assms(2)] by (simp add: controller_reconciler_def)
  from operator_authorized [OF this assms(5)] show ?thesis by blast
qed

theorem started_operator_authorized_witness:
  "within_roles (thc_Reconcile sample_libs sample_operator (\<lambda>t c. RObj (KTHC sample_thc)) '''' TelcoHealthcheckCanonicalName)"
proof -
  have "''operator-namespace'' \<notin> fst ` set deployed_settings" by (simp add: deployed_settings_def)
  moreover obtain made code where run:
    "controller_main Z [] (\<lambda>s. if s = SetupWebhook then Some (Msg '''') else None) deployed_args = (made, code)"
    by (metis surj_pair)
  moreover have "SetupReconciler sample_operator \<in> set made"
    using run by (auto simp: controller_main_def deployed_parsed controller_steps_def controller_reconciler_def
        sample_operator_def read_controller_flags_def setting_def deployed_settings_def)
  ultimately show ?thesis
    using started_operator_authorized [OF deployed_parsed, where R = sample_operator and S = sample_libs]
      shipped_covered
    by (simp add: sample_libs_def)
qed

end
