(* ===== verification/Shared_Store.thy ===== *)
theory Shared_Store
  imports Trace_Logic
begin

text \<open>
  An object of the API server that several processes read and write at the same time. The server
  answers reads of the cache with any version it ever stored, accepts a write only if it names the
  resource version of the stored object (optimistic concurrency control), and may lose the answer to
  a write it has carried out. \<open>versions_run\<close> relates the calls of all processes, in the order in which the
  server met them, to the versions it stored.
\<close>

section \<open>The store of one object\<close>

record 'o store =
  st_now :: "'o option"
  st_versions :: "'o list"  \<comment> \<open>every version ever stored, the newest first\<close>

text \<open>
  What a call means for the object: nothing (the answer then satisfies a condition), a read (a live
  one shows the stored object), its creation as one of the objects of a predicate, a write under a
  resource version with a relation between the stored and the new object, or its deletion.
\<close>

datatype 'o access =
    Elsewhere "resp \<Rightarrow> bool"
  | Reading bool
  | Creating "'o \<Rightarrow> bool"
  | Writing string "'o \<Rightarrow> 'o \<Rightarrow> bool"
  | Deleting

definition refusal :: "resp \<Rightarrow> bool" where
  "refusal a \<longleftrightarrow> (case a of RErr _ \<Rightarrow> True | _ \<Rightarrow> False)"

lemma refusal_RErr [simp]: "refusal (RErr er)" "\<not> refusal (RObj x)" "\<not> refusal ROk"
  by (simp_all add: refusal_def)

definition fresh_version :: "('o \<Rightarrow> string) \<Rightarrow> 'o store \<Rightarrow> 'o \<Rightarrow> bool" where
  "fresh_version rv h r \<longleftrightarrow> rv r \<notin> rv ` set (st_versions h)"

definition put_version :: "'o \<Rightarrow> 'o store \<Rightarrow> 'o store" where
  "put_version r h = h\<lparr>st_now := Some r, st_versions := r # st_versions h\<rparr>"

lemma put_version_simps [simp]:
  "st_now (put_version r h) = Some r" "st_versions (put_version r h) = r # st_versions h"
  by (simp_all add: put_version_def)

text \<open>\<open>rv\<close> is the resource version of an object, \<open>ob\<close> the object of an answer.\<close>

inductive store_step :: "('o \<Rightarrow> string) \<Rightarrow> (resp \<Rightarrow> 'o option) \<Rightarrow> 'o access \<Rightarrow> resp \<Rightarrow> 'o store \<Rightarrow> 'o store \<Rightarrow> bool"
  for rv ob where
  elsewhere: "P a \<Longrightarrow> store_step rv ob (Elsewhere P) a h h"
| refused: "refusal a \<Longrightarrow> (\<And>P. acc \<noteq> Elsewhere P) \<Longrightarrow> store_step rv ob acc a h h"
| shown: "ob a = Some r \<Longrightarrow> r \<in> set (st_versions h) \<Longrightarrow> (live \<Longrightarrow> st_now h = Some r)
    \<Longrightarrow> store_step rv ob (Reading live) a h h"
| created: "st_now h = None \<Longrightarrow> P r \<Longrightarrow> fresh_version rv h r \<Longrightarrow> ob a = Some r \<or> refusal a
    \<Longrightarrow> store_step rv ob (Creating P) a h (put_version r h)"
| written: "st_now h = Some cur \<Longrightarrow> rv cur = v \<Longrightarrow> E cur r \<Longrightarrow> fresh_version rv h r \<Longrightarrow> ob a = Some r \<or> refusal a
    \<Longrightarrow> store_step rv ob (Writing v E) a h (put_version r h)"
| unchanged: "st_now h = Some cur \<Longrightarrow> rv cur = v \<Longrightarrow> E cur cur \<Longrightarrow> ob a = Some cur \<or> refusal a
    \<Longrightarrow> store_step rv ob (Writing v E) a h h"
| deleted: "store_step rv ob Deleting a h (h\<lparr>st_now := None\<rparr>)"

inductive_cases store_stepE: "store_step rv ob acc a h h'"

text \<open>
  The calls of a trace, and between them what others do to the object: they delete it, or they
  write a version that \<open>foreign\<close> allows after what is stored.
\<close>

inductive versions_run ::
  "('o \<Rightarrow> string) \<Rightarrow> (resp \<Rightarrow> 'o option) \<Rightarrow> (call \<Rightarrow> 'o access) \<Rightarrow> ('o option \<Rightarrow> 'o \<Rightarrow> bool) \<Rightarrow> trace \<Rightarrow> 'o store \<Rightarrow> bool"
  for rv ob acc foreign where
  start: "versions_run rv ob acc foreign [] \<lparr>st_now = None, st_versions = []\<rparr>"
| call: "versions_run rv ob acc foreign g h \<Longrightarrow> store_step rv ob (acc c) a h h'
    \<Longrightarrow> versions_run rv ob acc foreign (g @ [(c, a)]) h'"
| foreign: "versions_run rv ob acc foreign g h \<Longrightarrow> foreign (st_now h) r \<Longrightarrow> fresh_version rv h r
    \<Longrightarrow> versions_run rv ob acc foreign g (put_version r h)"
| removed: "versions_run rv ob acc foreign g h \<Longrightarrow> versions_run rv ob acc foreign g (h\<lparr>st_now := None\<rparr>)"

section \<open>What the server guarantees\<close>

text \<open>An answer that is consistent with the versions \<open>S\<close>.\<close>

definition answer_known :: "('o \<Rightarrow> string) \<Rightarrow> (resp \<Rightarrow> 'o option) \<Rightarrow> 'o access \<Rightarrow> resp \<Rightarrow> 'o set \<Rightarrow> bool" where
  "answer_known rv ob acc a S \<longleftrightarrow> (case acc of
       Elsewhere P \<Rightarrow> P a
     | Reading live \<Rightarrow> refusal a \<or> (\<exists>r \<in> S. ob a = Some r)
     | Creating P \<Rightarrow> refusal a \<or> (\<exists>r \<in> S. ob a = Some r \<and> P r)
     | Writing v E \<Rightarrow> refusal a \<or> (\<exists>r \<in> S. \<exists>cur \<in> S. ob a = Some r \<and> rv cur = v \<and> E cur r)
     | Deleting \<Rightarrow> True)"

definition answers_known :: "('o \<Rightarrow> string) \<Rightarrow> (resp \<Rightarrow> 'o option) \<Rightarrow> (call \<Rightarrow> 'o access) \<Rightarrow> trace \<Rightarrow> 'o set \<Rightarrow> bool" where
  "answers_known rv ob acc g S \<longleftrightarrow> (\<forall>ev \<in> set g. answer_known rv ob (acc (fst ev)) (snd ev) S)"

lemma answer_known_mono: "answer_known rv ob acc a S \<Longrightarrow> S \<subseteq> S' \<Longrightarrow> answer_known rv ob acc a S'"
  by (cases acc) (auto simp: answer_known_def)

lemma answers_known_mono: "answers_known rv ob acc g S \<Longrightarrow> S \<subseteq> S' \<Longrightarrow> answers_known rv ob acc g S'"
  unfolding answers_known_def using answer_known_mono by blast

text \<open>Resource versions name versions, and the stored object is the newest version.\<close>

definition store_ok :: "('o \<Rightarrow> string) \<Rightarrow> 'o store \<Rightarrow> bool" where
  "store_ok rv h \<longleftrightarrow> inj_on rv (set (st_versions h))
     \<and> (case st_now h of None \<Rightarrow> True | Some cur \<Rightarrow> (\<exists>vs. st_versions h = cur # vs))"

lemma store_ok_put: "store_ok rv h \<Longrightarrow> fresh_version rv h r \<Longrightarrow> store_ok rv (put_version r h)"
  unfolding store_ok_def fresh_version_def by (simp add: image_iff)

lemma store_ok_remove: "store_ok rv h \<Longrightarrow> store_ok rv (h\<lparr>st_now := None\<rparr>)"
  by (simp add: store_ok_def)

lemma store_ok_newest: "store_ok rv h \<Longrightarrow> st_now h = Some cur \<Longrightarrow> \<exists>vs. st_versions h = cur # vs"
  by (simp add: store_ok_def)

lemma store_ok_now: "store_ok rv h \<Longrightarrow> st_now h = Some cur \<Longrightarrow> cur \<in> set (st_versions h)"
  using store_ok_newest by fastforce

lemma store_step_ok: "store_step rv ob acc a h h' \<Longrightarrow> store_ok rv h \<Longrightarrow> store_ok rv h'"
  by (erule store_stepE) (auto intro: store_ok_put store_ok_remove)

lemma store_step_versions: "store_step rv ob acc a h h' \<Longrightarrow> set (st_versions h) \<subseteq> set (st_versions h')"
  by (erule store_stepE) auto

lemma store_step_answer:
  assumes "store_step rv ob acc a h h'" "store_ok rv h"
  shows "answer_known rv ob acc a (set (st_versions h'))"
  using assms
proof cases
  case refused
  then show ?thesis by (cases acc) (auto simp: answer_known_def)
next
  case (written cur v E r)
  then show ?thesis using store_ok_now [OF assms(2)] by (auto simp: answer_known_def)
next
  case (unchanged cur v E)
  then show ?thesis using store_ok_now [OF assms(2)] by (auto simp: answer_known_def)
qed (auto simp: answer_known_def)

lemma versions_run_ok: "versions_run rv ob acc foreign g h \<Longrightarrow> store_ok rv h"
proof (induction rule: versions_run.induct)
  case start
  then show ?case by (simp add: store_ok_def)
qed (auto intro: store_ok_put store_ok_remove store_step_ok)

lemma versions_run_known:
  "versions_run rv ob acc foreign g h \<Longrightarrow> answers_known rv ob acc g (set (st_versions h))"
proof (induction rule: versions_run.induct)
  case start
  then show ?case by (simp add: answers_known_def)
next
  case (call g h c a h')
  then have "answers_known rv ob acc g (set (st_versions h'))"
    by (blast intro: answers_known_mono dest: store_step_versions)
  with call store_step_answer versions_run_ok show ?case by (fastforce simp: answers_known_def)
next
  case (foreign g h r)
  then show ?case by (auto intro: answers_known_mono)
qed simp

section \<open>Lives\<close>

text \<open>
  A list of versions, the newest first, in which every version is a birth or a step of a life from
  the version before it. A step may look at the trace and at all versions before.
\<close>

fun lives :: "('o \<Rightarrow> bool) \<Rightarrow> ('o set \<Rightarrow> 'o \<Rightarrow> 'o \<Rightarrow> bool) \<Rightarrow> 'o list \<Rightarrow> bool" where
  "lives born life [] \<longleftrightarrow> True"
| "lives born life [r] \<longleftrightarrow> born r"
| "lives born life (r # p # vs) \<longleftrightarrow> (born r \<or> life (set (p # vs)) p r) \<and> lives born life (p # vs)"

lemma lives_mono: "lives born life vs \<Longrightarrow> (\<And>S p r. life S p r \<Longrightarrow> life' S p r) \<Longrightarrow> lives born life' vs"
  by (induction born life vs rule: lives.induct) auto

lemma lives_Cons: "lives born life (r # vs) \<longleftrightarrow>
    lives born life vs \<and> (born r \<or> (case vs of [] \<Rightarrow> False | p # ps \<Rightarrow> life (set vs) p r))"
  by (cases vs) auto

text \<open>An invariant of births and steps holds of every version.\<close>

lemma lives_inv:
  assumes "lives born life vs" "\<And>r. born r \<Longrightarrow> I r" "\<And>S p r. life S p r \<Longrightarrow> I p \<Longrightarrow> I r"
  shows "\<forall>r \<in> set vs. I r"
  using assms(1)
proof (induction vs)
  case (Cons r vs)
  then show ?case using assms(2,3) by (cases vs) (auto simp: lives_Cons)
qed simp

text \<open>
  The contract between the processes and the server: the processes follow the protocol \<open>G\<close>, whose
  guarded writes, made on the version that is stored, are steps of a life; so are the writes of others.
\<close>

locale versioned_object =
  fixes rv :: "'o \<Rightarrow> string" and ob :: "resp \<Rightarrow> 'o option" and acc :: "call \<Rightarrow> 'o access"
    and foreign :: "'o option \<Rightarrow> 'o \<Rightarrow> bool" and G :: "trace \<Rightarrow> call \<Rightarrow> bool"
    and born :: "'o \<Rightarrow> bool" and life :: "trace \<Rightarrow> 'o set \<Rightarrow> 'o \<Rightarrow> 'o \<Rightarrow> bool"
  assumes create: "G g c \<Longrightarrow> acc c = Creating P \<Longrightarrow> P r \<Longrightarrow> born r"
    and update: "G g c \<Longrightarrow> acc c = Writing v E \<Longrightarrow> answers_known rv ob acc g S \<Longrightarrow> inj_on rv S \<Longrightarrow> cur \<in> S
      \<Longrightarrow> rv cur = v \<Longrightarrow> E cur r \<Longrightarrow> life g S cur r"
    and others: "foreign None r \<Longrightarrow> born r" "foreign (Some cur) r \<Longrightarrow> life g S cur r"
    and later: "life g S cur r \<Longrightarrow> set g \<subseteq> set g' \<Longrightarrow> life g' S cur r"
begin

theorem run_lives:
  assumes "versions_run rv ob acc foreign g h" "guarded G g"
  shows "lives born (life g) (st_versions h)"
  using assms
proof (induction rule: versions_run.induct)
  case (call g h c a h')
  then have g: "guarded G g" "G g c" by (simp_all add: guarded_append_iff)
  then have "lives born (life g) (st_versions h)" using call.IH by simp
  then have old: "lives born (life (g @ [(c, a)])) (st_versions h)"
    by (rule lives_mono) (auto elim: later)
  have ok: "store_ok rv h" and known: "answers_known rv ob acc g (set (st_versions h))"
    using call.hyps(1) by (auto intro: versions_run_ok versions_run_known)
  from call.hyps(2) show ?case
  proof cases
    case (created P r)
    then show ?thesis using old create [OF g(2)] by (simp add: lives_Cons)
  next
    case (written cur v E r)
    obtain vs where vs: "st_versions h = cur # vs" using store_ok_newest [OF ok written(3)] by blast
    have "life g (set (st_versions h)) cur r"
      using update [OF g(2) written(1) known _ store_ok_now [OF ok written(3)] written(4,5)] ok
      by (simp add: store_ok_def)
    then have "life (g @ [(c, a)]) (set (st_versions h)) cur r" by (rule later) auto
    then show ?thesis using old written vs by (simp add: lives_Cons)
  qed (use old in auto)
next
  case (foreign g h r)
  have "store_ok rv h" using foreign.hyps(1) by (rule versions_run_ok)
  then show ?case using foreign others by (cases "st_now h") (auto simp: lives_Cons store_ok_def)
qed auto

end

section \<open>Processes\<close>

text \<open>
  A log of the calls of several processes, in the order in which they were answered. \<open>calls_of\<close> is
  what one of them did.
\<close>

type_synonym 'p log = "('p \<times> call \<times> resp) list"

definition calls_of :: "'p \<Rightarrow> 'p log \<Rightarrow> trace" where
  "calls_of p l = map snd (filter (\<lambda>ev. fst ev = p) l)"

lemma calls_of_simps [simp]:
  "calls_of p [] = []" "calls_of p (l @ l') = calls_of p l @ calls_of p l'"
  "calls_of p (ev # l) = (if fst ev = p then [snd ev] else []) @ calls_of p l"
  by (simp_all add: calls_of_def)

text \<open>A guard that only asks for what has happened, in whatever order, and by whichever process.\<close>

definition lasting :: "(trace \<Rightarrow> call \<Rightarrow> bool) \<Rightarrow> bool" where
  "lasting G \<longleftrightarrow> (\<forall>v w c. G v c \<longrightarrow> set v \<subseteq> set w \<longrightarrow> G w c)"

lemma lastingD: "lasting G \<Longrightarrow> G v c \<Longrightarrow> set v \<subseteq> set w \<Longrightarrow> G w c"
  by (auto simp: lasting_def)

lemma lasting_stable: "lasting G \<Longrightarrow> stable G"
  by (auto simp: stable_def lasting_def)

lemma guarded_log:
  assumes "lasting G" "\<And>p. guarded G (calls_of p l)"
  shows "guarded G (map snd l)"
  using assms(2)
proof (induction l rule: rev_induct)
  case (snoc ev l)
  obtain p c a where ev: "ev = (p, c, a)" by (cases ev)
  have l: "guarded G (calls_of q l)" for q
    using snoc.prems [of q] by (simp add: guarded_append_iff)
  have "G (calls_of p l) c" using snoc.prems [of p] ev by (simp add: guarded_append_iff)
  then have "G (map snd l) c" by (rule lastingD [OF assms(1)]) (auto simp: calls_of_def)
  then show ?case using snoc.IH [OF l] ev by (simp add: guarded_append_iff)
qed simp

section \<open>Operations that follow a protocol\<close>

definition obeys :: "(trace \<Rightarrow> call \<Rightarrow> bool) \<Rightarrow> 'a io \<Rightarrow> bool" where
  "obeys G m \<longleftrightarrow> spec m (\<lambda>_ u. guarded G u)"

named_theorems io_obeys \<comment> \<open>introduction rules of \<open>obeys\<close>\<close>

lemma obeys_emits: "emits P m \<Longrightarrow> (\<And>v c. P c \<Longrightarrow> G v c) \<Longrightarrow> obeys G m"
  unfolding obeys_def by (erule spec_of_emits) (simp add: guarded_all)

lemma obeys_ret [io_obeys]: "obeys G (ret x)"
  by (simp add: obeys_def spec_ret)

lemma obeys_bind: "stable G \<Longrightarrow> obeys G m \<Longrightarrow> (\<And>x. obeys G (f x)) \<Longrightarrow> obeys G (State_Monad.bind m f)"
  unfolding obeys_def by (rule spec_bind_guarded)

lemma obeys_invoke [io_obeys]: "G [] c \<Longrightarrow> obeys G (invoke e c)"
  unfolding obeys_def by (rule spec_invoke) simp

lemma obeys_if [io_obeys]: "(b \<Longrightarrow> obeys G m) \<Longrightarrow> (\<not> b \<Longrightarrow> obeys G m') \<Longrightarrow> obeys G (if b then m else m')"
  by simp

lemma obeys_option [io_obeys]:
  "(x = None \<Longrightarrow> obeys G m) \<Longrightarrow> (\<And>y. x = Some y \<Longrightarrow> obeys G (f y))
   \<Longrightarrow> obeys G (case x of None \<Rightarrow> m | Some y \<Rightarrow> f y)"
  by (cases x) simp_all

lemma obeys_sum [io_obeys]:
  "(\<And>y. x = Inl y \<Longrightarrow> obeys G (f y)) \<Longrightarrow> (\<And>y. x = Inr y \<Longrightarrow> obeys G (g y))
   \<Longrightarrow> obeys G (case x of Inl y \<Rightarrow> f y | Inr y \<Rightarrow> g y)"
  by (cases x) simp_all

lemma obeys_prod [io_obeys]: "(\<And>a b. x = (a, b) \<Longrightarrow> obeys G (f a b)) \<Longrightarrow> obeys G (case x of (a, b) \<Rightarrow> f a b)"
  by (cases x) simp

lemma obeys_Let [io_obeys]: "obeys G (f x) \<Longrightarrow> obeys G (let y = x in f y)"
  by (simp add: Let_def)

lemma obeys_calls [io_obeys]:
  "G [] (Get s k ns n) \<Longrightarrow> obeys G (api_get dec e s k ns n)"
  "G [] (ListObjs s k ns ls) \<Longrightarrow> obeys G (api_list f e s k ns ls)"
  "G [] c \<Longrightarrow> obeys G (api_do e c)" "G [] Now \<Longrightarrow> obeys G (now e)"
  unfolding obeys_def by (intro io_spec; simp)+

text \<open>Part of a run: what an operation did until it ended or its process crashed.\<close>

definition part_of_run :: "'a io \<Rightarrow> trace \<Rightarrow> bool" where
  "part_of_run m u \<longleftrightarrow> (\<exists>t w. snd (run_state m t) = t @ u @ w)"

lemma obeys_part: "obeys G m \<Longrightarrow> part_of_run m u \<Longrightarrow> guarded G u"
  unfolding obeys_def part_of_run_def spec_def by (metis guarded_append_iff same_append_eq)

text \<open>
  The same with the history \<open>h\<close> of the process at hand: \<open>proceeds G h m Q\<close> says that \<open>m\<close>, run after
  \<open>h\<close>, keeps to the protocol, and that its result and the whole history satisfy \<open>Q\<close>.
\<close>

definition proceeds :: "(trace \<Rightarrow> call \<Rightarrow> bool) \<Rightarrow> trace \<Rightarrow> 'a io \<Rightarrow> ('a \<Rightarrow> trace \<Rightarrow> bool) \<Rightarrow> bool" where
  "proceeds G h m Q \<longleftrightarrow> spec m (\<lambda>x u. guarded (\<lambda>w. G (h @ w)) u \<and> Q x (h @ u))"

named_theorems io_proceeds \<comment> \<open>introduction rules of \<open>proceeds\<close>\<close>

lemma proceeds_ret [io_proceeds]: "Q x h \<Longrightarrow> proceeds G h (ret x) Q"
  unfolding proceeds_def by (rule spec_ret) simp

lemma proceeds_bind [io_proceeds]:
  assumes "proceeds G h m R" "\<And>x h'. R x h' \<Longrightarrow> proceeds G h' (f x) Q"
  shows "proceeds G h (State_Monad.bind m f) Q"
  unfolding proceeds_def
proof (rule spec_bind, rule spec_conseq [OF assms(1) [unfolded proceeds_def]])
  fix x and u :: trace assume u: "guarded (\<lambda>w. G (h @ w)) u \<and> R x (h @ u)"
  then have "proceeds G (h @ u) (f x) Q" by (intro assms(2)) simp
  then show "spec (f x) (\<lambda>y v. guarded (\<lambda>w. G (h @ w)) (u @ v) \<and> Q y (h @ u @ v))"
    using u unfolding proceeds_def by (elim spec_conseq) (simp add: guarded_append_iff)
qed

lemma proceeds_conseq: "proceeds G h m Q \<Longrightarrow> (\<And>x h'. Q x h' \<Longrightarrow> Q' x h') \<Longrightarrow> proceeds G h m Q'"
  unfolding proceeds_def by (erule spec_conseq) blast

lemma proceeds_invoke [io_proceeds]: "G h c \<Longrightarrow> (\<And>r. Q r (h @ [(c, r)])) \<Longrightarrow> proceeds G h (invoke e c) Q"
  unfolding proceeds_def by (rule spec_invoke) simp

lemma proceeds_now [io_proceeds]: "G h Now \<Longrightarrow> (\<And>r. Q (as_time r) (h @ [(Now, r)])) \<Longrightarrow> proceeds G h (now e) Q"
  unfolding proceeds_def by (rule spec_now) simp

lemma proceeds_get [io_proceeds]:
  "G h (Get s k ns n) \<Longrightarrow> (\<And>r. Q (dec r) (h @ [(Get s k ns n, r)])) \<Longrightarrow> proceeds G h (api_get dec e s k ns n) Q"
  unfolding proceeds_def by (rule spec_api_get) simp

lemma proceeds_do [io_proceeds]: "G h c \<Longrightarrow> (\<And>r. Q (ack r) (h @ [(c, r)])) \<Longrightarrow> proceeds G h (api_do e c) Q"
  unfolding proceeds_def by (rule spec_api_do) (simp del: ack_def)

lemma proceeds_if [io_proceeds]:
  "(b \<Longrightarrow> proceeds G h m Q) \<Longrightarrow> (\<not> b \<Longrightarrow> proceeds G h m' Q) \<Longrightarrow> proceeds G h (if b then m else m') Q"
  by simp

lemma proceeds_option [io_proceeds]:
  "(x = None \<Longrightarrow> proceeds G h m Q) \<Longrightarrow> (\<And>y. x = Some y \<Longrightarrow> proceeds G h (f y) Q)
   \<Longrightarrow> proceeds G h (case x of None \<Rightarrow> m | Some y \<Rightarrow> f y) Q"
  by (cases x) simp_all

lemma proceeds_sum [io_proceeds]:
  "(\<And>y. x = Inl y \<Longrightarrow> proceeds G h (f y) Q) \<Longrightarrow> (\<And>y. x = Inr y \<Longrightarrow> proceeds G h (g y) Q)
   \<Longrightarrow> proceeds G h (case x of Inl y \<Rightarrow> f y | Inr y \<Rightarrow> g y) Q"
  by (cases x) simp_all

lemma proceeds_prod [io_proceeds]:
  "(\<And>a b. x = (a, b) \<Longrightarrow> proceeds G h (f a b) Q) \<Longrightarrow> proceeds G h (case x of (a, b) \<Rightarrow> f a b) Q"
  by (cases x) simp

lemma proceeds_Let [io_proceeds]: "proceeds G h (f x) Q \<Longrightarrow> proceeds G h (let y = x in f y) Q"
  by (simp add: Let_def)

lemma proceeds_emits:
  assumes "emits P m" "\<And>v c. P c \<Longrightarrow> G v c" "\<And>x h'. set h \<subseteq> set h' \<Longrightarrow> Q x h'"
  shows "proceeds G h m Q"
  unfolding proceeds_def
proof (rule spec_of_emits [OF assms(1)], intro conjI)
  fix x and u :: trace assume u: "\<forall>ev \<in> set u. P (fst ev)"
  show "guarded (\<lambda>w. G (h @ w)) u" by (rule guarded_all) (use u assms(2) in blast)
  show "Q x (h @ u)" by (rule assms(3)) simp
qed

lemma proceeds_obeys: "proceeds G [] m Q \<Longrightarrow> obeys G m"
  unfolding proceeds_def obeys_def by (erule spec_conseq) simp

lemma obeys_after: "obeys (\<lambda>w. G (h @ w)) m \<Longrightarrow> proceeds G h m (\<lambda>_ h'. set h \<subseteq> set h')"
  unfolding proceeds_def obeys_def by (erule spec_conseq) simp

end
