(* ===== verification/Operator_Log.thy ===== *)
theory Operator_Log
  imports Shared_Store Reconciler Watches Metrics Alert_Receiver
begin

text \<open>
  The operator at work: any number of processes, each of which runs one operation after the other
  and may crash at any call. The operations are the reconciler of the configuration, the delayed
  creation of a run, the reconciler of the records, the mapping of events, a scrape, and a webhook
  request of the receiver (\<open>cmd/controller/main.go\<close>, \<open>cmd/alertreceiver/main.go\<close>).
\<close>

inductive operator_trace :: "trace \<Rightarrow> bool" where
  idle: "operator_trace []"
| reconcile: "operator_trace u \<Longrightarrow> part_of_run (thc_Reconcile S R e reqNs reqName) v \<Longrightarrow> operator_trace (u @ v)"
| delayed: "operator_trace u \<Longrightarrow> part_of_run (delayed_run k L e isDone thc cluster checkType cfg runName) v
    \<Longrightarrow> operator_trace (u @ v)"
| delivery: "operator_trace u \<Longrightarrow> part_of_run (runAlert_Reconcile k L T W e ns reqNs reqName) v \<Longrightarrow> operator_trace (u @ v)"
| event: "operator_trace u \<Longrightarrow> part_of_run (runAlert_watches L e ns ev) v \<Longrightarrow> operator_trace (u @ v)"
| scrape: "operator_trace u \<Longrightarrow> part_of_run (Collect_metrics e ns) v \<Longrightarrow> operator_trace (u @ v)"
| webhook: "operator_trace u \<Longrightarrow> part_of_run (HandleWebhook ul k L J P e dyn r) v \<Longrightarrow> operator_trace (u @ v)"

definition operator_log :: "'p log \<Rightarrow> bool" where
  "operator_log l \<longleftrightarrow> (\<forall>p. operator_trace (calls_of p l))"

section \<open>Sequences of operations under a protocol\<close>

lemma obeys_then_do: "stable G \<Longrightarrow> obeys G m \<Longrightarrow> (\<And>a. obeys G (f a)) \<Longrightarrow> obeys G (then_do m f)"
proof -
  assume G: "stable G" "obeys G m" "\<And>a. obeys G (f a)"
  have "obeys G (case x of Panicked \<Rightarrow> ret Panicked | Done a \<Rightarrow> f a)" for x
    using G(3) by (cases x) (simp_all add: obeys_ret)
  then show ?thesis unfolding then_do_def by (rule obeys_bind [OF G(1,2)])
qed

lemma obeys_plain: "stable G \<Longrightarrow> obeys G m \<Longrightarrow> obeys G (plain m)"
  unfolding plain_def by (intro obeys_bind obeys_ret)

lemma obeys_until_error: "stable G \<Longrightarrow> (\<And>m. m \<in> set ms \<Longrightarrow> obeys G m) \<Longrightarrow> obeys G (until_error ms)"
  by (induction ms) (auto intro!: obeys_then_do io_obeys)

lemma obeys_attempt_all: "stable G \<Longrightarrow> (\<And>m. m \<in> set ms \<Longrightarrow> obeys G m) \<Longrightarrow> obeys G (attempt_all er ms)"
  by (induction ms arbitrary: er) (auto intro!: obeys_then_do io_obeys)

lemmas managed_sets = cleanup_operations_def managed_operations_def optional_operations_def

lemma managed_emits_all:
  "m \<in> set (cleanup_operations S R e) \<Longrightarrow> emits managed_call m"
  "m \<in> set (managed_operations S R e thc) \<Longrightarrow> emits managed_call m"
  "m \<in> set (optional_operations S R e thc) \<Longrightarrow> emits managed_call m"
  by (auto simp: managed_sets intro!: emits_plain managed_ops)

lemma managed_obeys:
  assumes "\<And>v c. managed_call c \<Longrightarrow> G v c"
  shows "m \<in> set (cleanup_operations S R e) \<Longrightarrow> obeys G m"
    "m \<in> set (managed_operations S R e thc) \<Longrightarrow> obeys G m"
    "m \<in> set (optional_operations S R e thc) \<Longrightarrow> obeys G m"
  by (erule obeys_emits [OF managed_emits_all(1) assms] obeys_emits [OF managed_emits_all(2) assms]
      obeys_emits [OF managed_emits_all(3) assms]; assumption)+

text \<open>
  A pass over a live configuration and a deletion follow a protocol that leaves the calls for managed
  resources alone, if the recovery, the schedule and the last update do.
\<close>

lemma live_obeys:
  assumes G: "stable G" "\<And>v c. managed_call c \<Longrightarrow> G v c"
    and recovery: "obeys G (recoverPendingRuns (lib_retry S) (lib_ulib S) e (r_operatorNamespace R))"
    and finish: "\<And>cl p. obeys G (finish_pass S e (with_clusters cl thc) cl p)"
  shows "obeys G (reconcile_live S R e thc)"
proof -
  have "emits managed_call (sync_log_level R e thc)" "emits managed_call (getMonitoredClusters e sp)" for sp
    unfolding sync_log_level_def getMonitoredClusters_def
    by (intro io_emits; simp add: managed_call_def)+
  then have first: "obeys G (sync_log_level R e thc)" "obeys G (getMonitoredClusters e sp)" for sp
    using G(2) by (auto intro: obeys_emits)
  show ?thesis
    unfolding reconcile_live_def Let_def
    by (intro obeys_bind [OF G(1)] first io_obeys recovery obeys_then_do [OF G(1)] obeys_until_error [OF G(1)]
        obeys_attempt_all [OF G(1)] obeys_plain [OF G(1)] finish managed_obeys [OF G(2)])
qed

lemma deletion_obeys:
  assumes G: "stable G" "\<And>v c. managed_call c \<Longrightarrow> G v c" "G [] (Update (KTHC (without_finalizer S thc)))"
  shows "obeys G (handleDeletion S R e thc)"
  unfolding handleDeletion_def cleanupResources_def
  by (intro obeys_then_do [OF G(1)] obeys_attempt_all [OF G(1)] obeys_bind [OF G(1)] io_obeys G(3)
      managed_obeys(1) [OF G(2)])

section \<open>Protocols of the operator\<close>

text \<open>A protocol that every operation follows is followed by the whole operator.\<close>

locale operator_protocol =
  fixes G :: "trace \<Rightarrow> call \<Rightarrow> bool"
  assumes lasting: "lasting G"
    and reconcile: "obeys G (thc_Reconcile S R e reqNs reqName)"
    and delayed: "obeys G (delayed_run k L e isDone thc cluster checkType cfg runName)"
    and delivery: "obeys G (runAlert_Reconcile k L T W e ns reqNs reqName)"
    and event: "obeys G (runAlert_watches L e ns ev)"
    and scrape: "obeys G (Collect_metrics e ns)"
    and webhook: "obeys G (HandleWebhook ul k L J P e dyn r)"
begin

lemma process_guarded: "operator_trace u \<Longrightarrow> guarded G u"
proof (induction rule: operator_trace.induct)
  case idle
  show ?case by simp
qed (auto intro!: guarded_append [OF lasting_stable [OF lasting]]
      intro: obeys_part reconcile delayed delivery event scrape webhook)

lemma log_guarded: "operator_log l \<Longrightarrow> guarded G (map snd l)"
  by (rule guarded_log [OF lasting]) (auto simp: operator_log_def intro: process_guarded)

end

end
