(* ===== verification/Concurrent_Records.thy ===== *)
theory Concurrent_Records
  imports Operator_Log Queue_Delivery
begin

text \<open>
  The audit records (\<open>record.go\<close>, \<open>runrecovery.go\<close>, \<open>hubrunstatus.go\<close>, \<open>runalerts.go\<close>) while all
  processes of the operator run at the same time, read stale caches and crash: every version of a
  record that the API server ever stores is a step of one life from the version before it.
\<close>

section \<open>The protocol of the writers\<close>

definition seen_at :: "string \<Rightarrow> string \<Rightarrow> trace \<Rightarrow> telcoHealthCheckRun \<Rightarrow> bool" where
  "seen_at ns name v b \<longleftrightarrow> (\<exists>s. (Get s RecordKind ns name, RObj (KRecord b)) \<in> set v)"

text \<open>The first status of a record goes to the object that its creation returned.\<close>

definition begins :: "trace \<Rightarrow> telcoHealthCheckRun \<Rightarrow> bool" where
  "begins v q \<longleftrightarrow> (\<exists>ns name runName cluster owner a stored tb trigger.
     (Create (KRecord (pending_record ns name runName cluster owner)), a) \<in> set v
     \<and> as_stored_record (pending_record ns name runName cluster owner) a = Inr stored
     \<and> q = stored\<lparr>rec_status := pending_status runName cluster tb trigger\<rparr>)"

text \<open>A settlement changes the phase of a record that was read as pending and undecided.\<close>

definition outcome_phase :: "string \<Rightarrow> bool" where
  "outcome_phase ph \<longleftrightarrow> ph = PhaseCreated \<or> ph = PhaseFailed"

definition settles_status :: "trace \<Rightarrow> telcoHealthCheckRun \<Rightarrow> bool" where
  "settles_status v q \<longleftrightarrow> (\<exists>ns name b ph. seen_at ns name v b \<and> outcome_phase ph
     \<and> is_pending b \<and> \<not> outcome_known b \<and> q = set_phase ph b)"

text \<open>A read showed an outcome, or the write of one was acknowledged.\<close>

definition outcome_seen :: "string \<Rightarrow> string \<Rightarrow> trace \<Rightarrow> bool" where
  "outcome_seen ns name v \<longleftrightarrow>
     (\<exists>b. seen_at ns name v b \<and> (\<not> is_pending b \<or> outcome_known b))
   \<or> (\<exists>b ph a. seen_at ns name v b \<and> outcome_phase ph
        \<and> (StatusUpdate (KRecord (set_phase ph b)), a) \<in> set v \<and> ack a = None)"

definition clears :: "trace \<Rightarrow> telcoHealthCheckRun \<Rightarrow> bool" where
  "clears v q \<longleftrightarrow> (\<exists>ns name b. seen_at ns name v b \<and> is_pending b \<and> q = clear_pending b \<and> outcome_seen ns name v)"

definition delivers_status :: "trace \<Rightarrow> kobj \<Rightarrow> kobj \<Rightarrow> bool" where
  "delivers_status v x y \<longleftrightarrow> (\<exists>ns name b st. x = KRecord b \<and> y = KRecord (b\<lparr>rec_status := st\<rparr>)
     \<and> seen_at ns name v b \<and> runAlert_step (rec_status b) st)"

definition pending_new :: "telcoHealthCheckRun \<Rightarrow> bool" where
  "pending_new q \<longleftrightarrow> (\<exists>ns name runName cluster owner. q = pending_record ns name runName cluster owner)"

lemma pending_new_record [simp]: "pending_new (pending_record ns name runName cluster owner)"
  unfolding pending_new_def by (intro exI) (rule refl)

definition record_protocol :: "trace \<Rightarrow> call \<Rightarrow> bool" where
  "record_protocol v c \<longleftrightarrow> (case c of
       Create (KRecord q) \<Rightarrow> pending_new q
     | StatusUpdate (KRecord q) \<Rightarrow> begins v q \<or> settles_status v q
     | StatusPatch x y \<Rightarrow> delivers_status v x y
     | Update (KRecord q) \<Rightarrow> clears v q
     | _ \<Rightarrow> True)"

definition no_record_write :: "call \<Rightarrow> bool" where
  "no_record_write c \<longleftrightarrow> (case c of
       Create (KRecord q) \<Rightarrow> False
     | StatusUpdate (KRecord q) \<Rightarrow> False
     | StatusPatch x y \<Rightarrow> False
     | Update (KRecord q) \<Rightarrow> False
     | _ \<Rightarrow> True)"

lemma record_protocol_other: "no_record_write c \<Longrightarrow> record_protocol v c"
  by (auto simp: no_record_write_def record_protocol_def split: call.splits kobj.splits)

lemma record_protocol_simps [simp]:
  "record_protocol v (Get s k ns n)" "record_protocol v (ListObjs s k ns ls)" "record_protocol v Now"
  "record_protocol v (Delete x)" "record_protocol v (Spawn d c ct m)" "record_protocol v (StatusUpdate (KTHC thc))"
  "record_protocol v (Update (KTHC thc))" "record_protocol v (Create (KUnstr u))" "record_protocol v Rand63"
  "record_protocol v (Rand63n i)" "record_protocol v (SetLevel l)" "record_protocol v (HttpDo req)"
  "record_protocol v (StatusUpdate (KRecord q)) \<longleftrightarrow> begins v q \<or> settles_status v q"
  "record_protocol v (Update (KRecord q)) \<longleftrightarrow> clears v q"
  "record_protocol v (StatusPatch x y) \<longleftrightarrow> delivers_status v x y"
  "record_protocol v (Create (KRecord q)) \<longleftrightarrow> pending_new q"
  by (simp_all add: record_protocol_def)

section \<open>Every operation follows the protocol\<close>

lemma seen_at_mono: "seen_at ns name v b \<Longrightarrow> set v \<subseteq> set w \<Longrightarrow> seen_at ns name w b"
  unfolding seen_at_def by blast

lemma clearsI: "seen_at ns name v b \<Longrightarrow> is_pending b \<Longrightarrow> outcome_seen ns name v \<Longrightarrow> clears v (clear_pending b)"
  unfolding clears_def by (intro exI conjI) (assumption+, rule refl)

lemma outcome_seen_mono: "outcome_seen ns name v \<Longrightarrow> set v \<subseteq> set w \<Longrightarrow> outcome_seen ns name w"
  unfolding outcome_seen_def by (meson seen_at_mono subsetD)

lemma record_protocol_lasting: "lasting record_protocol"
  unfolding lasting_def
proof (intro allI impI)
  fix v w :: trace and c assume G: "record_protocol v c" and vw: "set v \<subseteq> set w"
  have "begins v q \<Longrightarrow> begins w q" for q
    using vw unfolding begins_def by (elim exE conjE) (intro exI conjI, erule (1) subsetD, assumption+)
  moreover have "settles_status v q \<Longrightarrow> settles_status w q" for q
    using vw unfolding settles_status_def by (elim exE conjE) (intro exI conjI, erule (1) seen_at_mono, assumption+)
  moreover have "clears v q \<Longrightarrow> clears w q" for q
    using vw unfolding clears_def
    by (elim exE conjE) (intro exI conjI, erule (1) seen_at_mono, assumption+, erule (1) outcome_seen_mono)
  moreover have "delivers_status v x y \<Longrightarrow> delivers_status w x y" for x y
    using vw unfolding delivers_status_def
    by (elim exE conjE) (intro exI conjI, assumption, assumption, erule (1) seen_at_mono, assumption)
  ultimately show "record_protocol w c"
    using G unfolding record_protocol_def by (auto split: call.splits kobj.splits)
qed

lemmas record_protocol_stable = lasting_stable [OF record_protocol_lasting]

text \<open>Creation.\<close>

lemma Begin_obeys: "obeys record_protocol (Begin e ns name runName cluster tb trigger owner)"
proof -
  have "begins [(Create (KRecord (pending_record ns name runName cluster owner)), a)]
      (stored\<lparr>rec_status := pending_status runName cluster tb trigger\<rparr>)"
    if "as_stored_record (pending_record ns name runName cluster owner) a = Inr stored" for a stored
    unfolding begins_def using that
    by (intro exI [of _ ns] exI [of _ name] exI [of _ runName] exI [of _ cluster] exI [of _ owner] exI [of _ a]
        exI [of _ stored] exI [of _ tb] exI [of _ trigger]) simp
  then show ?thesis unfolding obeys_def Begin_def by (intro io_spec) simp_all
qed

text \<open>Settlement.\<close>

lemma finish_status_obeys:
  assumes "outcome_phase ph"
  shows "spec (retry_on_conflict k (finish_status_attempt e c ns name ph))
    (\<lambda>r u. guarded record_protocol u \<and> (r = None \<longrightarrow> outcome_seen ns name u))"
proof (rule spec_retry)
  have "settles_status [(Get c RecordKind ns name, RObj (KRecord b))] (set_phase ph b)"
    if "is_pending b" "\<not> outcome_known b" for b
    unfolding settles_status_def seen_at_def using that assms by fastforce
  moreover have "outcome_seen ns name [(Get c RecordKind ns name, RObj (KRecord b)), (StatusUpdate (KRecord (set_phase ph b)), a)]"
    if "ack a = None" for b a
    unfolding outcome_seen_def seen_at_def using that assms by fastforce
  moreover have "outcome_seen ns name [(Get c RecordKind ns name, RObj (KRecord b))]"
    if "\<not> is_pending b \<or> outcome_known b" for b
    unfolding outcome_seen_def seen_at_def using that by fastforce
  ultimately show "spec (finish_status_attempt e c ns name ph)
      (\<lambda>r u. guarded record_protocol u \<and> (r = None \<longrightarrow> outcome_seen ns name u))"
    unfolding finish_status_attempt_def by (intro io_spec) (auto simp: as_record_Inr simp del: ack_def)
qed (auto intro: guarded_append [OF record_protocol_stable] outcome_seen_mono)

lemma finish_annotation_obeys:
  assumes "outcome_seen ns name h"
  shows "spec (retry_on_conflict k (finish_annotation_attempt e c ns name))
    (\<lambda>_ u. guarded (\<lambda>v. record_protocol (h @ v)) u)"
proof (rule spec_retry)
  have "clears (h @ [(Get c RecordKind ns name, RObj (KRecord b))]) (clear_pending b)" if "is_pending b" for b
    using that by (intro clearsI [of ns name] outcome_seen_mono [OF assms]) (auto simp: seen_at_def)
  then show "spec (finish_annotation_attempt e c ns name) (\<lambda>_ u. guarded (\<lambda>v. record_protocol (h @ v)) u)"
    unfolding finish_annotation_attempt_def by (intro io_spec) (auto simp: as_record_Inr)
  show "guarded (\<lambda>v. record_protocol (h @ v)) (u @ v)"
    if "guarded (\<lambda>v. record_protocol (h @ v)) u" "guarded (\<lambda>v. record_protocol (h @ v)) v" for u v
  proof (rule guarded_append [OF _ that])
    show "stable (\<lambda>v. record_protocol (h @ v))"
      unfolding stable_def by (auto elim: lastingD [OF record_protocol_lasting])
  qed
qed

lemma finishCreation_obeys:
  assumes "outcome_phase ph" shows "obeys record_protocol (finishCreation k e c ns name ph)"
  unfolding obeys_def finishCreation_def
proof (rule spec_bind, rule spec_conseq [OF finish_status_obeys [OF assms]], rule spec_option)
  fix r and u :: trace
  assume u: "guarded record_protocol u \<and> (r = None \<longrightarrow> outcome_seen ns name u)"
  then show "spec (ret (Some er)) (\<lambda>_ v. guarded record_protocol (u @ v))" for er
    by (intro spec_ret) simp
  assume "r = None"
  with u show "spec (retry_on_conflict k (finish_annotation_attempt e c ns name)) (\<lambda>_ v. guarded record_protocol (u @ v))"
    by (intro spec_conseq [OF finish_annotation_obeys]) (auto simp: guarded_append_iff)
qed

lemma settle_obeys: "obeys record_protocol (Confirm k e c ns name)" "obeys record_protocol (Fail k e c ns name)"
  unfolding Confirm_def Fail_def by (rule finishCreation_obeys; simp add: outcome_phase_def)+

text \<open>Runs: periodic, for alerts, and the recovery.\<close>

lemmas obeys_record = io_obeys obeys_bind [OF record_protocol_stable] Begin_obeys settle_obeys

lemma create_and_settle_obeys: "obeys record_protocol (create_and_settle k e c ns runName run result)"
  unfolding create_and_settle_def by (intro obeys_record) simp_all

lemma config_obeys:
  "obeys record_protocol (BuildVarMap L e c ns cluster)" "obeys record_protocol (LoadRunConfig J e c name ns)"
  unfolding BuildVarMap_def LoadRunConfig_def Let_def by (intro obeys_record; simp)+

lemma periodic_run_obeys: "obeys record_protocol (createAgenticRunForCluster k L e thc cluster checkType cfg runName)"
  unfolding createAgenticRunForCluster_def by (intro obeys_record config_obeys create_and_settle_obeys)

lemma alert_run_obeys: "obeys record_protocol (createAgenticRunOnCluster ul k L J cluster alertName annotations e)"
  unfolding createAgenticRunOnCluster_def resolveAlertConfigMap_def start_alert_run_def Let_def
  by (intro obeys_record config_obeys create_and_settle_obeys) simp_all

lemma recovery_obeys: "obeys record_protocol (recoverPendingRuns k L e ns)"
proof -
  have "obeys record_protocol (recover_one k L e ns r)" for r
    unfolding recover_one_def by (intro obeys_record) simp_all
  then have "obeys record_protocol (recover_loop k L e ns rs p)" for rs p
    by (induction rs arbitrary: p) (auto intro!: obeys_record)
  then show ?thesis unfolding recoverPendingRuns_def by (intro obeys_record) simp_all
qed

lemma periodic_loop_obeys: "obeys record_protocol (periodic_loop k L J e t0 period cl checks thc r p)"
proof -
  have create: "obeys record_protocol (create_loop k L e thc ct cfg mn mx prefix cs)" for thc ct cfg mn mx prefix cs
    by (induction cs) (auto simp: Let_def randomJitter_def rand_Int63_def rand_Int63n_def
        intro!: obeys_record periodic_run_obeys)
  have "obeys record_protocol (claim_and_run k L J e t0 cl check mn mx thc)" for check mn mx thc
    unfolding claim_and_run_def loadRunConfigForCheck_def createAgenticRunsForClustersWithConfig_def Let_def
    by (intro obeys_record config_obeys create) simp_all
  then show ?thesis
    by (induction checks arbitrary: thc r p)
      (auto simp: Let_def shouldRunCheck_def until_due_def split: prod.split intro!: obeys_record)
qed

section \<open>The reconcilers and the receiver\<close>

lemma managed_no_record_write: "managed_call c \<Longrightarrow> record_protocol v c"
  by (intro record_protocol_other)
    (auto simp: managed_call_def resource_call_def no_record_write_def split: call.splits kobj.splits)

lemma reconcile_obeys: "obeys record_protocol (thc_Reconcile S R e reqNs reqName)"
proof -
  have "obeys record_protocol (runPeriodicChecks k L J e thc cl)" for k L J thc cl
    unfolding runPeriodicChecks_def Let_def by (intro obeys_record periodic_loop_obeys) simp_all
  then have "obeys record_protocol (finish_pass S e thc cl p)" for thc cl p
    unfolding finish_pass_def by (intro obeys_record) simp_all
  then have "obeys record_protocol (reconcile_live S R e thc)" for thc
    by (intro live_obeys record_protocol_stable managed_no_record_write recovery_obeys)
  moreover have "obeys record_protocol (handleDeletion S R e thc)" for thc
    by (rule deletion_obeys [OF record_protocol_stable managed_no_record_write]) simp_all
  ultimately show ?thesis
    unfolding thc_Reconcile_def by (intro obeys_record) simp_all
qed

lemma delivery_obeys: "obeys record_protocol (runAlert_Reconcile k L T W e ns reqNs reqName)"
proof -
  have "patch_ok v x y \<Longrightarrow> delivers_status v x y" for v x y
    unfolding patch_ok_def delivers_status_def read_live_def seen_at_def by blast
  then have "alert_guard W ns v c \<Longrightarrow> record_protocol v c" for v c
    by (auto simp: alert_guard_def record_protocol_def split: call.splits)
  then show ?thesis
    unfolding obeys_def by (intro spec_conseq [OF runAlert_Reconcile_spec]) (blast intro: guarded_mono)
qed

lemma webhook_obeys: "obeys record_protocol (HandleWebhook ul k L J P e dyn r)"
proof -
  have "obeys record_protocol (alerts_loop ul k L J e clusters names alerts)" for clusters names alerts
    by (induction alerts) (auto intro!: obeys_record alert_run_obeys)
  then show ?thesis
    unfolding HandleWebhook_def processAlerts_def rcv_getMonitoredClusters_def getDefinedAlertNames_def
    by (intro obeys_record) simp_all
qed

interpretation record_writers: operator_protocol record_protocol
proof
  show "lasting record_protocol" by (rule record_protocol_lasting)
  show "obeys record_protocol (runAlert_watches L e ns ev)" for L e ns ev
    by (cases ev) (auto simp: runAlert_watches_def mapHubRunToRecords_def mapHubResultToRecords_def
        mapHealthcheckToRuns_def mapAlertSecretToRuns_def split: prod.split intro!: obeys_record)
  show "obeys record_protocol (Collect_metrics e ns)" for e ns
    unfolding Collect_metrics_def by (intro obeys_record) simp_all
qed (auto simp: delayed_run_def intro: reconcile_obeys delivery_obeys webhook_obeys periodic_run_obeys obeys_ret)

section \<open>A record on the API server\<close>

text \<open>
  What the calls mean for the record of a key. Status and metadata are written separately; a merge
  patch with optimistic lock carries the resource version of its base, and makes the status of a base
  that is stored the patched one.
\<close>

definition as_created :: "telcoHealthCheckRun \<Rightarrow> telcoHealthCheckRun \<Rightarrow> bool" where
  "as_created q r \<longleftrightarrow> r\<lparr>om_uid := om_uid q, om_resourceVersion := om_resourceVersion q, om_creation := om_creation q\<rparr>
     = q\<lparr>rec_status := zero_runStatus\<rparr>"

definition with_status :: "telcoHealthCheckRunStatus \<Rightarrow> telcoHealthCheckRun \<Rightarrow> telcoHealthCheckRun \<Rightarrow> bool" where
  "with_status st cur r \<longleftrightarrow> content r = content (cur\<lparr>rec_status := stored_status st\<rparr>)"

definition patched_from :: "telcoHealthCheckRun \<Rightarrow> telcoHealthCheckRun \<Rightarrow> telcoHealthCheckRun \<Rightarrow> telcoHealthCheckRun \<Rightarrow> bool" where
  "patched_from b q cur r \<longleftrightarrow> (\<exists>st. with_status st cur r \<and> (rec_status b = rec_status cur \<longrightarrow> st = rec_status q))"

definition with_metadata :: "telcoHealthCheckRun \<Rightarrow> telcoHealthCheckRun \<Rightarrow> telcoHealthCheckRun \<Rightarrow> bool" where
  "with_metadata q cur r \<longleftrightarrow> content r = content (q\<lparr>rec_status := rec_status cur\<rparr>)"

definition answers_about :: "string \<Rightarrow> string \<Rightarrow> resp \<Rightarrow> bool" where
  "answers_about ns name a \<longleftrightarrow> (case a of RObj (KRecord r) \<Rightarrow> is_at ns name r | _ \<Rightarrow> True)"

definition at_key :: "string \<Rightarrow> string \<Rightarrow> telcoHealthCheckRun \<Rightarrow> telcoHealthCheckRun access \<Rightarrow> telcoHealthCheckRun access" where
  "at_key ns name q ac = (if is_at ns name q then ac else Elsewhere (answers_about (om_namespace q) (om_name q)))"

fun record_access :: "string \<Rightarrow> string \<Rightarrow> call \<Rightarrow> telcoHealthCheckRun access" where
  "record_access ns name (Get s RecordKind ns' n) =
     (if ns' = ns \<and> n = name then Reading (s = Live) else Elsewhere (answers_about ns' n))"
| "record_access ns name (Create (KRecord q)) = at_key ns name q (Creating (as_created q))"
| "record_access ns name (StatusUpdate (KRecord q)) =
     at_key ns name q (Writing (om_resourceVersion q) (with_status (rec_status q)))"
| "record_access ns name (StatusPatch (KRecord b) (KRecord q)) =
     at_key ns name b (Writing (om_resourceVersion b) (patched_from b q))"
| "record_access ns name (Update (KRecord q)) = at_key ns name q (Writing (om_resourceVersion q) (with_metadata q))"
| "record_access ns name (Delete (KRecord q)) = at_key ns name q Deleting"
| "record_access ns name c = Elsewhere (\<lambda>_. True)"

definition record_shown :: "string \<Rightarrow> string \<Rightarrow> resp \<Rightarrow> telcoHealthCheckRun option" where
  "record_shown ns name a = (case a of RObj (KRecord r) \<Rightarrow> if is_at ns name r then Some r else None | _ \<Rightarrow> None)"

text \<open>Others may touch the rest of the metadata: finalizers, owners, the time of deletion.\<close>

definition touched :: "telcoHealthCheckRun \<Rightarrow> telcoHealthCheckRun \<Rightarrow> bool" where
  "touched cur r \<longleftrightarrow> rec_status r = rec_status cur \<and> om_annotations r = om_annotations cur \<and> om_labels r = om_labels cur"

definition record_foreign :: "telcoHealthCheckRun option \<Rightarrow> telcoHealthCheckRun \<Rightarrow> bool" where
  "record_foreign cur r \<longleftrightarrow> (case cur of None \<Rightarrow> False | Some p \<Rightarrow> touched p r)"

abbreviation record_run :: "string \<Rightarrow> string \<Rightarrow> trace \<Rightarrow> telcoHealthCheckRun store \<Rightarrow> bool" where
  "record_run ns name \<equiv> versions_run om_resourceVersion (record_shown ns name) (record_access ns name) record_foreign"

section \<open>The life of a record\<close>

definition new_record :: "telcoHealthCheckRun \<Rightarrow> bool" where
  "new_record r \<longleftrightarrow> (\<exists>q. pending_new q \<and> as_created q r)"

text \<open>
  The identity is entered into an empty status and belongs to the run key of the record; a
  settlement meets a pending record without an outcome; a delivery is a step of the alert; the
  pending annotation goes only once some version had an outcome or had lost it.
\<close>

inductive record_life :: "telcoHealthCheckRun set \<Rightarrow> telcoHealthCheckRun \<Rightarrow> telcoHealthCheckRun \<Rightarrow> bool" where
  begun: "rec_status p = zero_runStatus \<Longrightarrow> sget (om_labels p) RunKeyLabel = Key cluster runName
    \<Longrightarrow> with_status (pending_status runName cluster tb trigger) p r \<Longrightarrow> record_life S p r"
| settled: "is_pending p \<Longrightarrow> \<not> outcome_known p \<Longrightarrow> outcome_phase ph
    \<Longrightarrow> with_status (rec_status (set_phase ph p)) p r \<Longrightarrow> record_life S p r"
| alerted: "runAlert_step (rec_status p) st \<Longrightarrow> with_status st p r \<Longrightarrow> record_life S p r"
| cleared: "is_pending p \<Longrightarrow> \<exists>s \<in> S. \<not> is_pending s \<or> outcome_known s \<Longrightarrow> content r = content (clear_pending p)
    \<Longrightarrow> record_life S p r"
| touched: "touched p r \<Longrightarrow> record_life S p r"

text \<open>What the protocol knows is in the store.\<close>

lemma record_shown_iff: "record_shown ns name a = Some r \<longleftrightarrow> a = RObj (KRecord r) \<and> is_at ns name r"
  by (auto simp: record_shown_def split: resp.splits kobj.splits)

abbreviation record_known :: "string \<Rightarrow> string \<Rightarrow> trace \<Rightarrow> telcoHealthCheckRun set \<Rightarrow> bool" where
  "record_known ns name \<equiv> answers_known om_resourceVersion (record_shown ns name) (record_access ns name)"

lemma seen_stored:
  assumes "record_known ns name g S" "seen_at ns' n g b"
  shows "is_at ns name b \<Longrightarrow> ns' = ns \<and> n = name" and "ns' = ns \<Longrightarrow> n = name \<Longrightarrow> b \<in> S \<and> is_at ns name b"
proof -
  obtain s where "(Get s RecordKind ns' n, RObj (KRecord b)) \<in> set g" using assms(2) by (auto simp: seen_at_def)
  with assms(1) have "answer_known om_resourceVersion (record_shown ns name) (record_access ns name (Get s RecordKind ns' n)) (RObj (KRecord b)) S"
    by (fastforce simp: answers_known_def)
  then have "if ns' = ns \<and> n = name then b \<in> S \<and> is_at ns name b else is_at ns' n b"
    by (auto simp: answer_known_def answers_about_def record_shown_iff split: if_splits)
  then show "is_at ns name b \<Longrightarrow> ns' = ns \<and> n = name" "ns' = ns \<Longrightarrow> n = name \<Longrightarrow> b \<in> S \<and> is_at ns name b"
    by (auto simp: is_at_def split: if_splits)
qed

text \<open>The object that a creation returned is the one that was stored, new and without status.\<close>

lemma created_stored:
  assumes "record_known ns name g S" "(Create (KRecord q), a) \<in> set g" "as_stored_record q a = Inr stored"
    "is_at ns name stored"
  shows "stored \<in> S \<and> as_created q stored"
proof -
  have known: "answer_known om_resourceVersion (record_shown ns name) (record_access ns name (Create (KRecord q))) a S"
    using assms(1,2) by (fastforce simp: answers_known_def)
  have a: "a = ROk \<and> stored = q \<or> a = RObj (KRecord stored)"
    using assms(3) by (auto simp: as_stored_record_def as_record_Inr split: resp.splits)
  then have "is_at ns name q" using assms(4) known
    by (auto simp: at_key_def answer_known_def answers_about_def is_at_def split: if_splits)
  with known a show ?thesis
    by (auto simp: at_key_def answer_known_def record_shown_iff)
qed

text \<open>A status write that was acknowledged is in the store.\<close>

lemma update_stored:
  assumes "record_known ns name g S" "(StatusUpdate (KRecord q), a) \<in> set g" "ack a = None" "is_at ns name q"
  shows "\<exists>r \<in> S. \<exists>cur \<in> S. with_status (rec_status q) cur r"
proof -
  have "answer_known om_resourceVersion (record_shown ns name) (record_access ns name (StatusUpdate (KRecord q))) a S"
    using assms(1,2) by (fastforce simp: answers_known_def)
  then show ?thesis using assms(3,4)
    by (auto simp: at_key_def answer_known_def refusal_def split: resp.splits)
qed

lemma with_status_status: "with_status st cur r \<Longrightarrow> rec_status r = stored_status st"
  unfolding with_status_def by (metis content_simps(6) telcoHealthCheckRun.select_convs(1) telcoHealthCheckRun.surjective telcoHealthCheckRun.update_convs(1))

lemma outcome_known_status:
  "rec_status r = stored_status (rec_status (set_phase ph b)) \<Longrightarrow> outcome_phase ph \<Longrightarrow> outcome_known r"
  by (auto simp: outcome_known_def stored_status_def set_phase_def outcome_phase_def record_consts)

lemma outcome_stored:
  assumes "record_known ns name g S" "outcome_seen ns name g"
  shows "\<exists>s \<in> S. \<not> is_pending s \<or> outcome_known s"
  using assms(2) unfolding outcome_seen_def
proof (elim disjE exE conjE)
  fix b assume "seen_at ns name g b" "\<not> is_pending b"
  then show ?thesis using seen_stored(2) [OF assms(1)] by blast
next
  fix b assume "seen_at ns name g b" "outcome_known b"
  then show ?thesis using seen_stored(2) [OF assms(1)] by blast
next
  fix b ph a assume b: "seen_at ns name g b" "outcome_phase ph"
    and a: "(StatusUpdate (KRecord (set_phase ph b)), a) \<in> set g" "ack a = None"
  have "is_at ns name (set_phase ph b)"
    using seen_stored(2) [OF assms(1) b(1)] by (simp add: is_at_def set_phase_def)
  then obtain r cur where "r \<in> S" "with_status (rec_status (set_phase ph b)) cur r"
    using update_stored [OF assms(1) a] by blast
  then show ?thesis using outcome_known_status [OF with_status_status b(2)] by blast
qed

text \<open>What the protocol writes on the stored version is a step of its life.\<close>

lemma content_stored: "content r = content p \<Longrightarrow> is_pending r = is_pending p \<and> om_labels r = om_labels p"
  by (metis content_pending(1) content_simps(4))

lemma protocol_life:
  assumes G: "record_protocol g c" and acc: "record_access ns name c = Writing v E"
    and known: "record_known ns name g S" and inj: "inj_on om_resourceVersion S" and cur: "cur \<in> S" "om_resourceVersion cur = v"
    and E: "E cur r"
  shows "record_life S cur r"
proof -
  have same: "b = cur" if "seen_at ns' n g b" "is_at ns name b" "om_resourceVersion b = v" for ns' n b
  proof -
    have "b \<in> S" using seen_stored [OF known that(1)] that(2) by blast
    then show ?thesis using inj cur that(3) by (simp add: inj_onD)
  qed
  show ?thesis
  proof (cases c)
    case (StatusUpdate x)
    with acc obtain q where q: "x = KRecord q" "is_at ns name q" "om_resourceVersion q = v"
      "E = with_status (rec_status q)"
      by (cases x) (auto simp: at_key_def split: if_splits)
    from G StatusUpdate q(1) have "begins g q \<or> settles_status g q" by simp
    then show ?thesis
    proof
      assume "begins g q"
      then obtain ns' n runName cluster owner a stored tb trigger where
        b: "(Create (KRecord (pending_record ns' n runName cluster owner)), a) \<in> set g"
          "as_stored_record (pending_record ns' n runName cluster owner) a = Inr stored"
          "q = stored\<lparr>rec_status := pending_status runName cluster tb trigger\<rparr>"
        unfolding begins_def by blast
      have "is_at ns name stored" using q(2) b(3) by (simp add: is_at_def)
      then have s: "stored \<in> S" "as_created (pending_record ns' n runName cluster owner) stored"
        using created_stored [OF known b(1,2)] by blast+
      have "om_resourceVersion stored = om_resourceVersion cur" using q(3) b(3) cur(2) by simp
      then have "stored = cur" using s(1) inj cur(1) by (meson inj_onD)
      moreover have "rec_status stored = zero_runStatus" "sget (om_labels stored) RunKeyLabel = Key cluster runName"
        using s(2) by (cases stored; auto simp: as_created_def pending_record_def sget_def record_consts)+
      ultimately show ?thesis using E q(4) b(3) by (auto intro: record_life.begun)
    next
      assume "settles_status g q"
      then obtain ns' n b ph where b: "seen_at ns' n g b" "outcome_phase ph" "is_pending b" "\<not> outcome_known b"
        "q = set_phase ph b"
        unfolding settles_status_def by blast
      have "b = cur" using same [OF b(1)] q(2,3) b(5) by (simp add: is_at_def set_phase_def)
      then show ?thesis using E q(4) b by (auto intro: record_life.settled)
    qed
  next
    case (StatusPatch x y)
    with G obtain ns' n b st where b: "x = KRecord b" "y = KRecord (b\<lparr>rec_status := st\<rparr>)" "seen_at ns' n g b"
      "runAlert_step (rec_status b) st"
      by (auto simp: delivers_status_def)
    with acc StatusPatch have w: "is_at ns name b" "om_resourceVersion b = v" "E = patched_from b (b\<lparr>rec_status := st\<rparr>)"
      by (auto simp: at_key_def split: if_splits)
    have "b = cur" using same [OF b(3) w(1,2)] .
    then show ?thesis using E w(3) b(4) by (auto simp: patched_from_def intro: record_life.alerted)
  next
    case (Update x)
    with acc obtain q where q: "x = KRecord q" "is_at ns name q" "om_resourceVersion q = v" "E = with_metadata q"
      by (cases x) (auto simp: at_key_def split: if_splits)
    with G Update obtain ns' n b where b: "seen_at ns' n g b" "is_pending b" "q = clear_pending b" "outcome_seen ns' n g"
      by (auto simp: clears_def)
    have at: "is_at ns name b" using q(2) b(3) by (simp add: is_at_def clear_pending_def)
    have "b = cur" using same [OF b(1) at] q(3) b(3) by (simp add: clear_pending_def)
    moreover have "\<exists>s \<in> S. \<not> is_pending s \<or> outcome_known s"
      using outcome_stored [OF known] b(4) seen_stored(1) [OF known b(1) at] by blast
    moreover have "content r = content (clear_pending cur)"
      using E q(4) b(3) \<open>b = cur\<close> by (simp add: with_metadata_def clear_pending_def)
    ultimately show ?thesis using b(2) by (blast intro: record_life.cleared)
  next
    case (Get s kd ns' n)
    with acc show ?thesis by (cases kd) (auto split: if_splits)
  next
    case (Create x)
    with acc show ?thesis by (cases x) (auto simp: at_key_def split: if_splits)
  next
    case (Delete x)
    with acc show ?thesis by (cases x) (auto simp: at_key_def split: if_splits)
  qed (use acc in auto)
qed

interpretation stored_record: versioned_object om_resourceVersion "record_shown ns name" "record_access ns name"
    record_foreign record_protocol new_record "\<lambda>_. record_life" for ns name
proof
  fix g c P r assume "record_protocol g c" "record_access ns name c = Creating P" "P r"
  moreover from this obtain q where "c = Create (KRecord q)" "P = as_created q"
    by (cases "(ns, name, c)" rule: record_access.cases) (auto simp: at_key_def split: if_splits)
  ultimately show "new_record r" by (auto simp: new_record_def)
next
  show "record_foreign None r \<Longrightarrow> new_record r" for r by (simp add: record_foreign_def)
  show "record_foreign (Some cur) r \<Longrightarrow> record_life S cur r" for S cur r
    by (simp add: record_foreign_def record_life.touched)
qed (blast intro: protocol_life)+

section \<open>Concurrent records\<close>

definition records_under_load :: "string \<Rightarrow> string \<Rightarrow> 'p log \<Rightarrow> telcoHealthCheckRun store \<Rightarrow> bool" where
  "records_under_load ns name l h \<longleftrightarrow> operator_log l \<and> record_run ns name (map snd l) h"

lemma load_lives: "records_under_load ns name l h \<Longrightarrow> lives new_record record_life (st_versions h)"
  unfolding records_under_load_def
  by (elim conjE) (rule stored_record.run_lives [OF _ record_writers.log_guarded])

text \<open>
  A record that is in order: its queue is well formed, and the identity in its status, if it has
  one, is the one of its run key.
\<close>

definition identity_ok :: "telcoHealthCheckRun \<Rightarrow> bool" where
  "identity_ok r \<longleftrightarrow> (let st = rec_status r in
     rr_clusterName st = [] \<and> rr_agenticRunName st = []
     \<or> sget (om_labels r) RunKeyLabel = Key (rr_clusterName st) (rr_agenticRunName st))"

definition record_in_order :: "telcoHealthCheckRun \<Rightarrow> bool" where
  "record_in_order r \<longleftrightarrow> alert_inv (rec_status r) \<and> identity_ok r"

lemma zero_status_inv: "alert_inv zero_runStatus"
  by (simp add: alert_inv_def zero_runStatus_def queue_tail_ok_def)

lemma runAlert_identity:
  "runAlert_step st st' \<Longrightarrow> rr_clusterName st' = rr_clusterName st \<and> rr_agenticRunName st' = rr_agenticRunName st"
  by (erule runAlert_stepE)
    (simp_all add: queue_at_def notify_firing_def notify_resolved_def stopped_def started_def popped_def renewed_def Let_def)

lemma stored_identity [simp]:
  "rr_clusterName (stored_status st) = rr_clusterName st" "rr_agenticRunName (stored_status st) = rr_agenticRunName st"
  by (simp_all add: stored_status_def)

lemma with_status_meta:
  "with_status st cur r \<Longrightarrow> is_pending r = is_pending cur \<and> om_labels r = om_labels cur"
proof -
  assume "with_status st cur r"
  then have "is_pending r = is_pending (cur\<lparr>rec_status := stored_status st\<rparr>)"
    "om_labels r = om_labels (cur\<lparr>rec_status := stored_status st\<rparr>)"
    unfolding with_status_def using content_stored by blast+
  then show ?thesis by (simp add: is_pending_def)
qed

lemma content_cleared:
  "content r = content (clear_pending p) \<Longrightarrow> rec_status r = rec_status p \<and> om_labels r = om_labels p"
proof -
  assume eq: "content r = content (clear_pending p)"
  have "rec_status (content r) = rec_status (content (clear_pending p))" "om_labels (content r) = om_labels (content (clear_pending p))"
    by (simp_all add: eq)
  then show ?thesis by (simp add: clear_pending_def)
qed

lemma identity_ok_cong:
  "identity_ok p \<Longrightarrow> om_labels r = om_labels p \<Longrightarrow> rr_clusterName (rec_status r) = rr_clusterName (rec_status p)
   \<Longrightarrow> rr_agenticRunName (rec_status r) = rr_agenticRunName (rec_status p) \<Longrightarrow> identity_ok r"
  by (simp add: identity_ok_def Let_def)

lemma record_in_order_life:
  assumes "record_life S p r" "record_in_order p" shows "record_in_order r"
  using assms(1)
proof cases
  case (begun cluster runName tb trigger)
  have "alert_inv (rec_status r)"
    unfolding with_status_status [OF begun(3)] by (intro queue_inv.persisted queue_inv.initial)
  then show ?thesis
    using with_status_status [OF begun(3)] with_status_meta [OF begun(3)] begun(2)
    by (simp add: record_in_order_def identity_ok_def Let_def pending_status_def)
next
  case (settled ph)
  have "alert_inv (rec_status r)" unfolding with_status_status [OF settled(4)]
    using assms(2) by (intro queue_inv.persisted queue_inv.settled) (simp add: record_in_order_def)
  moreover have "identity_ok r"
    using assms(2) with_status_status [OF settled(4)] with_status_meta [OF settled(4)] unfolding record_in_order_def
    by (elim conjE identity_ok_cong) (simp_all add: set_phase_def)
  ultimately show ?thesis by (simp add: record_in_order_def)
next
  case (alerted st)
  have "alert_inv (rec_status r)" unfolding with_status_status [OF alerted(2)]
    using assms(2) alerted(1) by (intro queue_inv.persisted queue_inv.kept [OF _ alerted(1)]) (simp add: record_in_order_def)
  moreover have "identity_ok r"
    using assms(2) with_status_status [OF alerted(2)] with_status_meta [OF alerted(2)] runAlert_identity [OF alerted(1)]
    unfolding record_in_order_def by (elim conjE identity_ok_cong) simp_all
  ultimately show ?thesis by (simp add: record_in_order_def)
next
  case cleared
  then show ?thesis using assms(2) content_cleared [OF cleared(3)]
    unfolding record_in_order_def by (auto elim: identity_ok_cong)
next
  case touched
  then show ?thesis using assms(2) unfolding record_in_order_def touched_def by (auto elim: identity_ok_cong)
qed

lemma new_record_fields:
  assumes "new_record r" shows "rec_status r = zero_runStatus \<and> is_pending r"
proof -
  obtain q where q: "pending_new q" "as_created q r" using assms by (auto simp: new_record_def)
  then show ?thesis
    by (cases r) (auto simp: pending_new_def as_created_def pending_record_def is_pending_def sget_def record_consts)
qed

text \<open>A version without the pending annotation comes after a version with an outcome, or shows one.\<close>

fun outcome_first :: "telcoHealthCheckRun list \<Rightarrow> bool" where
  "outcome_first [] \<longleftrightarrow> True"
| "outcome_first (r # vs) \<longleftrightarrow> (is_pending r \<or> list_ex outcome_known (r # vs)) \<and> outcome_first vs"

lemma outcome_first_mem: "outcome_first vs \<Longrightarrow> s \<in> set vs \<Longrightarrow> \<not> is_pending s \<Longrightarrow> list_ex outcome_known vs"
  by (induction vs) auto

lemma lives_outcome_first: "lives new_record record_life vs \<Longrightarrow> outcome_first vs"
proof (induction new_record record_life vs rule: lives.induct)
  case (2 r)
  then show ?case using new_record_fields by simp
next
  case (3 r p vs)
  then have IH: "outcome_first (p # vs)" by simp
  have "is_pending r \<or> list_ex outcome_known (p # vs)"
  proof (cases "new_record r")
    case True
    then show ?thesis using new_record_fields by simp
  next
    case False
    then have "record_life (set (p # vs)) p r" using 3 by simp
    then have "is_pending r = is_pending p \<or> list_ex outcome_known (p # vs)"
    proof cases
      case cleared
      then show ?thesis using outcome_first_mem [OF IH] by (auto simp: list_ex_iff)
    qed (auto dest: with_status_meta simp: touched_def is_pending_def)
    then show ?thesis using outcome_first_mem [OF IH, of p] by auto
  qed
  then show ?case using IH by auto
qed simp

text \<open>
  C4. Concurrent record lives: whatever the processes of the operator do at the same time, wherever
  they crash, and however stale their caches are, every version of an audit record that the API
  server stores is the creation of a new pending record or one step of the record's life from the
  version stored before it: the identity is entered into an empty status, an outcome never
  overwrites another one, a delivery is a step of the alert from the stored status, and only the
  pending annotation is ever dropped, after an outcome. No update is lost.
\<close>

theorem concurrent_record_lives:
  assumes "records_under_load ns name l h"
  shows "lives new_record record_life (st_versions h)"
  using assms by (rule load_lives)

text \<open>
  C12. Under the same conditions every version of a record that is ever stored has a well formed
  queue of notifications and an identity that belongs to its run key.
\<close>

theorem concurrent_records_in_order:
  assumes "records_under_load ns name l h"
  shows "list_all record_in_order (st_versions h)"
proof -
  have "record_in_order r" if "new_record r" for r
    using new_record_fields [OF that] zero_status_inv
    by (simp add: record_in_order_def identity_ok_def) (simp add: zero_runStatus_def)
  then have "\<forall>r \<in> set (st_versions h). record_in_order r"
    using lives_inv [OF load_lives [OF assms]] record_in_order_life by blast
  then show ?thesis by (simp add: list_all_iff)
qed

text \<open>
  C11. Under the same conditions a record is never taken for settled without an outcome: a version
  without the pending annotation is stored only after a version whose status has an outcome, so
  that a crash anywhere leaves a record that the recovery still finds.
\<close>

theorem concurrent_outcome_first:
  assumes "records_under_load ns name l h"
  shows "outcome_first (st_versions h)"
  using load_lives [OF assms] by (rule lives_outcome_first)

section \<open>An example\<close>

text \<open>
  A delayed creation crashes after it entered the identity of its run; the reconciler of the records
  saw the new record in between, found nothing to do and failed to read the configuration.
\<close>

definition sample_pending :: telcoHealthCheckRun where
  "sample_pending = pending_record operatorNamespace ''run'' ''run'' ''spoke'' sample_thc"

definition sample_created :: telcoHealthCheckRun where
  "sample_created = sample_pending\<lparr>om_uid := ''u2'', om_resourceVersion := ''1''\<rparr>"

definition sample_identified :: telcoHealthCheckRun where
  "sample_identified = sample_created\<lparr>om_resourceVersion := ''2'',
     rec_status := pending_status ''run'' ''spoke'' TriggerTypePeriodicHealthCheck ''check''\<rparr>"

definition creating_hub :: env where
  "creating_hub t c = (case c of
       Create (KRecord q) \<Rightarrow> RObj (KRecord sample_created)
     | StatusUpdate (KRecord q) \<Rightarrow> RObj (KRecord sample_identified)
     | Get s k ns n \<Rightarrow> if k = RecordKind then RObj (KRecord sample_created) else RErr (ApiErr NotFound)
     | _ \<Rightarrow> RErr (ApiErr Timeout))"

definition empty_config :: runConfig where
  "empty_config = \<lparr>rc_request = '''', rc_skills = [], rc_mcpServers = []\<rparr>"

definition sample_creation :: trace where
  "sample_creation =
     [(Get Cached RouteKind operatorNamespace kubeCompareMCPRouteName, RErr (ApiErr NotFound)),
      (Create (KRecord sample_pending), RObj (KRecord sample_created)),
      (StatusUpdate (KRecord (sample_created\<lparr>rec_status :=
          pending_status ''run'' ''spoke'' TriggerTypePeriodicHealthCheck ''check''\<rparr>)), RObj (KRecord sample_identified))]"

definition sample_reading :: trace where
  "sample_reading =
     [(Get Live RecordKind operatorNamespace ''run'', RObj (KRecord sample_created)),
      (Get Live RecordKind operatorNamespace ''run'', RObj (KRecord sample_created)),
      (Get Live ThcKind '''' TelcoHealthcheckCanonicalName, RErr (ApiErr NotFound))]"

definition sample_log :: "bool log" where
  "sample_log = map (Pair True) (take 2 sample_creation) @ map (Pair False) sample_reading
     @ map (Pair True) (drop 2 sample_creation)"

definition sample_store :: "telcoHealthCheckRun store" where
  "sample_store = \<lparr>st_now = Some sample_identified, st_versions = [sample_identified, sample_created]\<rparr>"

lemma sample_creation_run:
  "part_of_run (delayed_run 4 tree_ulib creating_hub False sample_thc ''spoke'' ''check'' empty_config ''run'') sample_creation"
proof -
  have "\<exists>run. BuildObject tree_ulib ''run'' ''spoke'' (periodic_labels sample_thc)
      (ExpandVariables empty_config (base_vars operatorNamespace ''spoke'')) = Inr run"
    by (simp add: BuildObject_def ExpandVariables_def empty_config_def tree_ulib_def skill_values_def Let_def)
  then obtain run where run: "BuildObject tree_ulib ''run'' ''spoke'' (periodic_labels sample_thc)
      (ExpandVariables empty_config (base_vars operatorNamespace ''spoke'')) = Inr run" by blast
  have "om_uid sample_thc \<noteq> []" by (simp add: sample_thc_def)
  then have "snd (run_state (delayed_run 4 tree_ulib creating_hub False sample_thc ''spoke'' ''check'' empty_config ''run'') [])
      = [] @ sample_creation @ [(Create (KUnstr run), RErr (ApiErr Timeout))]"
    by (simp add: delayed_run_def createAgenticRunForCluster_def BuildVarMap_def api_get_def creating_hub_def Begin_def
        run as_stored_record_def create_and_settle_def api_do_def DefinitiveCreateError_def sample_creation_def
        sample_pending_def [symmetric] Let_def)
  then show ?thesis unfolding part_of_run_def by blast
qed

lemma sample_reading_run:
  "part_of_run (runAlert_Reconcile 4 tree_ulib (\<lambda>_. None) sample_weblib creating_hub operatorNamespace operatorNamespace ''run'')
     sample_reading"
proof -
  have "\<not> syncable sample_created"
    by (simp add: syncable_def sample_created_def sample_pending_def pending_record_def zero_runStatus_def)
  then have "snd (run_state (runAlert_Reconcile 4 tree_ulib (\<lambda>_. None) sample_weblib creating_hub operatorNamespace
      operatorNamespace ''run'') []) = [] @ sample_reading @ []"
    by (simp add: runAlert_Reconcile_def api_get_def creating_hub_def syncHubRunStatus_def deliver_pass_def sample_reading_def)
  then show ?thesis unfolding part_of_run_def by blast
qed

lemma sample_operator_log: "operator_log sample_log"
proof -
  have "calls_of True sample_log = [] @ sample_creation" "calls_of False sample_log = [] @ sample_reading"
    by (simp_all add: sample_log_def calls_of_def sample_creation_def sample_reading_def)
  then show ?thesis
    unfolding operator_log_def
    by (auto simp only: all_bool_eq
        intro!: operator_trace.delayed [OF operator_trace.idle sample_creation_run]
          operator_trace.delivery [OF operator_trace.idle sample_reading_run])
qed

lemma sample_at: "is_at operatorNamespace ''run'' sample_pending" "is_at operatorNamespace ''run'' sample_created"
    "is_at operatorNamespace ''run'' sample_identified"
  by (simp_all add: is_at_def sample_identified_def sample_created_def sample_pending_def pending_record_def)

lemma sample_versions: "record_run operatorNamespace ''run'' (map snd sample_log) sample_store"
proof -
  let ?run = "record_run operatorNamespace ''run''"
  let ?h1 = "put_version sample_created \<lparr>st_now = None, st_versions = []\<rparr>"
  let ?step = "store_step om_resourceVersion (record_shown operatorNamespace ''run'')"
  let ?w = "sample_created\<lparr>rec_status := pending_status ''run'' ''spoke'' TriggerTypePeriodicHealthCheck ''check''\<rparr>"
  have shown: "record_shown operatorNamespace ''run'' (RObj (KRecord sample_created)) = Some sample_created"
    "record_shown operatorNamespace ''run'' (RObj (KRecord sample_identified)) = Some sample_identified"
    by (simp_all add: record_shown_iff sample_at)
  have "?run [] \<lparr>st_now = None, st_versions = []\<rparr>" by (rule versions_run.start)
  then have "?run ([] @ [sample_creation ! 0]) \<lparr>st_now = None, st_versions = []\<rparr>"
    unfolding sample_creation_def nth_Cons_0
    by (rule versions_run.call) (simp add: store_step.elsewhere)
  then have "?run (([] @ [sample_creation ! 0]) @ [sample_creation ! 1]) ?h1"
    unfolding sample_creation_def One_nat_def nth_Cons_Suc nth_Cons_0
  proof (rule versions_run.call)
    show "?step (record_access operatorNamespace ''run'' (Create (KRecord sample_pending))) (RObj (KRecord sample_created))
        \<lparr>st_now = None, st_versions = []\<rparr> ?h1"
      using shown by (simp add: at_key_def sample_at)
        (rule store_step.created, simp_all add: as_created_def fresh_version_def sample_created_def sample_pending_def pending_record_def)
  qed
  moreover have "?step (Reading True) (RObj (KRecord sample_created)) ?h1 ?h1"
    using shown by (intro store_step.shown) simp_all
  then have "?run g ?h1 \<Longrightarrow> ?run (g @ [(Get Live RecordKind operatorNamespace ''run'', RObj (KRecord sample_created))]) ?h1" for g
    by (auto intro: versions_run.call)
  moreover have "?run g ?h1 \<Longrightarrow> ?run (g @ [(Get Live ThcKind '''' TelcoHealthcheckCanonicalName, RErr (ApiErr NotFound))]) ?h1" for g
    by (erule versions_run.call) (simp add: store_step.elsewhere)
  moreover have "?step (record_access operatorNamespace ''run'' (StatusUpdate (KRecord ?w))) (RObj (KRecord sample_identified)) ?h1 sample_store"
  proof -
    have "is_at operatorNamespace ''run'' ?w" using sample_at by (simp add: is_at_def)
    moreover have "with_status (rec_status ?w) sample_created sample_identified"
      by (simp add: with_status_def content_def sample_identified_def sample_created_def stored_status_def pending_status_def zero_runStatus_def)
    moreover have "fresh_version om_resourceVersion ?h1 sample_identified"
      by (simp add: fresh_version_def sample_identified_def sample_created_def)
    moreover have "put_version sample_identified ?h1 = sample_store" by (simp add: sample_store_def put_version_def)
    ultimately show ?thesis
      using shown(2) store_step.written [of ?h1 sample_created om_resourceVersion _
          "with_status (rec_status ?w)" sample_identified "record_shown operatorNamespace ''run''"]
      by (simp add: at_key_def)
  qed
  then have "?run g ?h1 \<Longrightarrow> ?run (g @ [(StatusUpdate (KRecord ?w), RObj (KRecord sample_identified))]) sample_store" for g
    by (rule versions_run.call [rotated])
  ultimately have "?run (((((([] @ [sample_creation ! 0]) @ [sample_creation ! 1])
      @ [(Get Live RecordKind operatorNamespace ''run'', RObj (KRecord sample_created))])
      @ [(Get Live RecordKind operatorNamespace ''run'', RObj (KRecord sample_created))])
      @ [(Get Live ThcKind '''' TelcoHealthcheckCanonicalName, RErr (ApiErr NotFound))])
      @ [(StatusUpdate (KRecord ?w), RObj (KRecord sample_identified))]) sample_store"
    by blast
  then show ?thesis by (simp add: sample_log_def sample_creation_def sample_reading_def)
qed

lemma sample_load: "records_under_load operatorNamespace ''run'' sample_log sample_store"
  unfolding records_under_load_def using sample_operator_log sample_versions by blast

theorem concurrent_record_lives_witness: "lives new_record record_life [sample_identified, sample_created]"
  using concurrent_record_lives [OF sample_load] by (simp add: sample_store_def)

theorem concurrent_records_in_order_witness: "record_in_order sample_identified \<and> record_in_order sample_created"
  using concurrent_records_in_order [OF sample_load] by (simp add: sample_store_def)

theorem concurrent_outcome_first_witness: "outcome_first [sample_identified, sample_created]"
  using concurrent_outcome_first [OF sample_load] by (simp add: sample_store_def)

end
