(* ===== verification/Concurrent_Claims.thy ===== *)
theory Concurrent_Claims
  imports Operator_Log Queue_Delivery
begin

text \<open>
  The schedule in the status of the configuration (\<open>runPeriodicChecks\<close> of
  \<open>telcohealthcheck_controller.go\<close>) while several replicas of the controller reconcile with stale
  caches. The comment there says that a claim with an old resource version is refused, so that an
  interval is claimed once: every claim that the API server stores was due against the last-run time
  that it replaces.
\<close>

section \<open>The protocol of the schedule\<close>

definition is_config :: "string \<Rightarrow> string \<Rightarrow> telcoHealthcheck \<Rightarrow> bool" where
  "is_config ns name b \<longleftrightarrow> om_namespace b = ns \<and> om_name b = name"

text \<open>Versions of the configuration that were read or came back from a status update.\<close>

definition config_seen :: "trace \<Rightarrow> telcoHealthcheck \<Rightarrow> bool" where
  "config_seen v b \<longleftrightarrow> (\<exists>s ns n. (Get s ThcKind ns n, RObj (KTHC b)) \<in> set v)"

definition based_on :: "telcoHealthcheck \<Rightarrow> telcoHealthcheck \<Rightarrow> bool" where
  "based_on b x \<longleftrightarrow> x = b\<lparr>thc_status := thc_status x\<rparr>"

inductive descends :: "trace \<Rightarrow> telcoHealthcheck \<Rightarrow> telcoHealthcheck \<Rightarrow> bool" for v where
  read: "config_seen v b \<Longrightarrow> descends v b b"
| returned: "descends v b0 b1 \<Longrightarrow> based_on b1 x \<Longrightarrow> (StatusUpdate (KTHC x), RObj (KTHC b2)) \<in> set v \<Longrightarrow> descends v b0 b2"

text \<open>An answer without an object, which the API server never gives.\<close>

definition blind :: "trace \<Rightarrow> bool" where
  "blind v \<longleftrightarrow> (\<exists>x. (StatusUpdate (KTHC x), ROk) \<in> set v)"

text \<open>A last-run time is due if the clock was read a period after it.\<close>

definition due :: "trace \<Rightarrow> duration \<Rightarrow> instant option \<Rightarrow> bool" where
  "due v period lastRun \<longleftrightarrow> (case lastRun of
       None \<Rightarrow> True
     | Some l \<Rightarrow> (\<exists>t. (Now, t) \<in> set v \<and> time_sub (as_time t) l \<ge> period))"

definition check_period :: "telcoHealthcheck \<Rightarrow> periodicCheck \<Rightarrow> duration" where
  "check_period b check = from_opt (ph_period (sp_periodic (thc_spec b))) (pc_period check)"

text \<open>The check is configured and enabled by \<open>b0\<close>, and the schedule is on.\<close>

definition scheduled :: "telcoHealthcheck \<Rightarrow> periodicCheck \<Rightarrow> bool" where
  "scheduled b0 check \<longleftrightarrow> check \<in> set (configuredPeriodicChecks b0) \<and> pc_enabled check
     \<and> ph_period (sp_periodic (thc_spec b0)) \<noteq> 0"

definition claims :: "trace \<Rightarrow> telcoHealthcheck \<Rightarrow> telcoHealthcheck \<Rightarrow> telcoHealthcheck \<Rightarrow> bool" where
  "claims v b0 b x \<longleftrightarrow> (\<exists>check t0. scheduled b0 check \<and> (Now, t0) \<in> set v
     \<and> due v (check_period b0 check) (get_slot (pc_lastRun check) b)
     \<and> get_slot (pc_lastRun check) x = Some (as_time t0)
     \<and> (\<forall>sl. sl \<noteq> pc_lastRun check \<longrightarrow> get_slot sl x = get_slot sl b))"

definition same_slots :: "telcoHealthcheck \<Rightarrow> telcoHealthcheck \<Rightarrow> bool" where
  "same_slots b x \<longleftrightarrow> (\<forall>sl. get_slot sl x = get_slot sl b)"

definition status_based :: "trace \<Rightarrow> telcoHealthcheck \<Rightarrow> bool" where
  "status_based v x \<longleftrightarrow> blind v \<or> (\<exists>b0 b. descends v b0 b \<and> based_on b x \<and> (same_slots b x \<or> claims v b0 b x))"

definition claim_protocol :: "trace \<Rightarrow> call \<Rightarrow> bool" where
  "claim_protocol v c \<longleftrightarrow> (case c of StatusUpdate (KTHC x) \<Rightarrow> status_based v x | _ \<Rightarrow> True)"

definition no_config_status :: "call \<Rightarrow> bool" where
  "no_config_status c \<longleftrightarrow> (case c of StatusUpdate (KTHC x) \<Rightarrow> False | _ \<Rightarrow> True)"

lemma no_config_status_simps [simp]:
  "no_config_status (Get s k ns n)" "no_config_status (ListObjs s k ns ls)" "no_config_status Now"
  "no_config_status (Create y)" "no_config_status (Update y)" "no_config_status (Delete y)"
  "no_config_status (StatusUpdate (KRecord r))" "no_config_status (Spawn d cl ct m)" "no_config_status Rand63"
  "no_config_status (Rand63n i)" "no_config_status (StatusPatch y z)" "no_config_status (HttpDo req)" "no_config_status (SetLevel l)"
  by (simp_all add: no_config_status_def)

lemma claim_protocol_other: "no_config_status c \<Longrightarrow> claim_protocol v c"
  by (auto simp: claim_protocol_def no_config_status_def split: call.splits kobj.splits)

lemma claim_protocol_update [simp]: "claim_protocol v (StatusUpdate (KTHC x)) \<longleftrightarrow> status_based v x"
  by (simp add: claim_protocol_def)

section \<open>More history\<close>

lemma descends_mono: "descends v b0 b \<Longrightarrow> set v \<subseteq> set w \<Longrightarrow> descends w b0 b"
proof (induction rule: descends.induct)
  case (read b)
  then have "config_seen w b" unfolding config_seen_def by blast
  then show ?case by (rule descends.read)
next
  case (returned b0 b1 x b2)
  then show ?case by (blast intro: descends.returned)
qed

lemma blind_mono: "blind v \<Longrightarrow> set v \<subseteq> set w \<Longrightarrow> blind w"
  unfolding blind_def by blast

lemma due_mono: "due v p l \<Longrightarrow> set v \<subseteq> set w \<Longrightarrow> due w p l"
  unfolding due_def by (cases l) auto

lemma claims_mono: "claims v b0 b x \<Longrightarrow> set v \<subseteq> set w \<Longrightarrow> claims w b0 b x"
  unfolding claims_def by (elim exE conjE, intro exI conjI) (assumption, erule (1) subsetD, erule (1) due_mono, assumption+)

lemma status_based_mono: "status_based v x \<Longrightarrow> set v \<subseteq> set w \<Longrightarrow> status_based w x"
  unfolding status_based_def using blind_mono descends_mono claims_mono by meson

lemma claim_protocol_lasting: "lasting claim_protocol"
  unfolding lasting_def claim_protocol_def
  by (auto split: call.splits kobj.splits intro: status_based_mono)

text \<open>A copy of the configuration that has the last-run times of a version.\<close>

definition tracks :: "trace \<Rightarrow> telcoHealthcheck \<Rightarrow> telcoHealthcheck \<Rightarrow> bool" where
  "tracks v b0 x \<longleftrightarrow> blind v \<or> (\<exists>b. descends v b0 b \<and> based_on b x \<and> same_slots b x)"

lemma tracks_mono: "tracks v b0 x \<Longrightarrow> set v \<subseteq> set w \<Longrightarrow> tracks w b0 x"
  unfolding tracks_def using blind_mono descends_mono by meson

lemma tracks_based: "tracks v b0 x \<Longrightarrow> status_based v x"
  unfolding tracks_def status_based_def by blast

lemma based_on_refl [simp]: "based_on b b" "same_slots b b"
  by (simp_all add: based_on_def same_slots_def)

lemma based_on_set_slot: "based_on b x \<Longrightarrow> based_on b (set_slot sl t x)"
  unfolding based_on_def by (cases sl; cases x; cases b) simp_all

lemma get_slot_other: "sl' \<noteq> sl \<Longrightarrow> get_slot sl' (set_slot sl t x) = get_slot sl' x"
  by (cases sl; cases sl') simp_all

section \<open>The scheduling pass\<close>

lemma config_quiet:
  "emits no_config_status (loadRunConfigForCheck J e ct)" "emits no_config_status (BuildVarMap L e c ns cluster)"
  "emits no_config_status (LoadRunConfig J e c name ns)"
proof -
  show load: "emits no_config_status (LoadRunConfig J e c name ns)" for c name ns
    unfolding LoadRunConfig_def by (intro io_emits) simp
  show "emits no_config_status (loadRunConfigForCheck J e ct)"
    unfolding loadRunConfigForCheck_def by (intro io_emits load)
  show "emits no_config_status (BuildVarMap L e c ns cluster)"
    unfolding BuildVarMap_def Let_def by (intro io_emits) simp
qed

lemma record_quiet:
  "emits no_config_status (Begin e ns name runName cluster tb trigger owner)"
  "emits no_config_status (finishCreation k e c ns name ph)"
  "emits no_config_status (Confirm k e c ns name)" "emits no_config_status (Fail k e c ns name)"
proof -
  show "emits no_config_status (Begin e ns name runName cluster tb trigger owner)"
    unfolding Begin_def Let_def by (intro io_emits) simp_all
  show f: "emits no_config_status (finishCreation k e c ns name ph)" for ph
    unfolding finishCreation_def finish_status_attempt_def finish_annotation_attempt_def
    by (intro io_emits) simp_all
  show "emits no_config_status (Confirm k e c ns name)" "emits no_config_status (Fail k e c ns name)"
    unfolding Confirm_def Fail_def by (rule f)+
qed

lemma run_quiet:
  "emits no_config_status (create_and_settle k e c ns runName run result)"
  "emits no_config_status (createAgenticRunForCluster k L e thc cluster checkType cfg runName)"
  "emits no_config_status (createAgenticRunOnCluster ul k L J cluster alertName annotations e)"
proof -
  show cs: "emits no_config_status (create_and_settle k e c ns runName run result)" for c ns runName run and result :: "gerr option \<Rightarrow> 'b"
    unfolding create_and_settle_def by (intro io_emits record_quiet) simp
  then show "emits no_config_status (createAgenticRunForCluster k L e thc cluster checkType cfg runName)"
    unfolding createAgenticRunForCluster_def create_and_settle_def by (intro io_emits record_quiet config_quiet) simp
  show "emits no_config_status (createAgenticRunOnCluster ul k L J cluster alertName annotations e)"
    unfolding createAgenticRunOnCluster_def resolveAlertConfigMap_def start_alert_run_def create_and_settle_def Let_def
    by (intro io_emits record_quiet config_quiet) simp_all
qed

lemma create_quiet:
  "emits no_config_status (createAgenticRunsForClustersWithConfig k L e thc cl ct cfg mn mx)"
proof -
  have "emits no_config_status (create_loop k L e thc ct cfg mn mx prefix cs)" for prefix cs
    by (induction cs) (auto simp: Let_def randomJitter_def rand_Int63_def rand_Int63n_def intro!: io_emits run_quiet)
  then show ?thesis
    unfolding createAgenticRunsForClustersWithConfig_def by (intro io_emits) simp
qed

lemma proceeds_quiet:
  "emits no_config_status m \<Longrightarrow> (\<And>x h'. set h \<subseteq> set h' \<Longrightarrow> Q x h') \<Longrightarrow> proceeds claim_protocol h m Q"
  by (rule proceeds_emits [OF _ claim_protocol_other])

text \<open>One claim: the status that is written claims the check, and what comes back is tracked again.\<close>

definition may_claim :: "trace \<Rightarrow> telcoHealthcheck \<Rightarrow> periodicCheck \<Rightarrow> telcoHealthcheck \<Rightarrow> instant \<Rightarrow> bool" where
  "may_claim h b0 check thc t0 \<longleftrightarrow> tracks h b0 thc \<and> scheduled b0 check
     \<and> due h (check_period b0 check) (get_slot (pc_lastRun check) thc) \<and> (\<exists>n0. (Now, n0) \<in> set h \<and> t0 = as_time n0)"

lemma may_claim_mono: "may_claim h b0 check thc t0 \<Longrightarrow> set h \<subseteq> set h' \<Longrightarrow> may_claim h' b0 check thc t0"
  unfolding may_claim_def using tracks_mono due_mono by blast

lemma claim_based:
  assumes "may_claim h b0 check thc t0"
  shows "status_based h (set_slot (pc_lastRun check) (Some t0) thc)"
proof (cases "blind h")
  case False
  then obtain b where b: "descends h b0 b" "based_on b thc" "same_slots b thc"
    using assms by (auto simp: may_claim_def tracks_def)
  obtain n0 where "(Now, n0) \<in> set h" "t0 = as_time n0" using assms by (auto simp: may_claim_def simp del: as_time_def)
  then have "claims h b0 b (set_slot (pc_lastRun check) (Some t0) thc)"
    using assms b(3) get_slot_other unfolding claims_def may_claim_def same_slots_def
    by (intro exI [of _ check] exI [of _ n0]) simp
  with b show ?thesis unfolding status_based_def using based_on_set_slot by blast
qed (simp add: status_based_def)

lemma claim_tracked:
  assumes "may_claim h b0 check thc t0"
    and "as_stored_thc (set_slot (pc_lastRun check) (Some t0) thc) a = Inr stored"
    and "(StatusUpdate (KTHC (set_slot (pc_lastRun check) (Some t0) thc)), a) \<in> set h'" "set h \<subseteq> set h'"
  shows "tracks h' b0 stored"
proof (cases "blind h'")
  case False
  let ?x = "set_slot (pc_lastRun check) (Some t0) thc"
  have a: "a = RObj (KTHC stored)"
    using assms(2,3) False by (auto simp: as_stored_thc_def blind_def as_thc_Inr split: resp.splits)
  have "\<not> blind h" using False assms(4) blind_mono by blast
  then obtain b where "descends h b0 b" "based_on b thc"
    using assms(1) by (auto simp: may_claim_def tracks_def)
  then have "descends h' b0 b" "based_on b ?x" using assms(4) descends_mono based_on_set_slot by blast+
  then have "descends h' b0 stored" using assms(3) a by (blast intro: descends.returned)
  then show ?thesis by (auto simp: tracks_def)
qed (simp add: tracks_def)

lemma claim_proceeds:
  assumes "may_claim h b0 check thc t0"
  shows "proceeds claim_protocol h (claim_and_run k L J e t0 cl check mn mx thc)
    (\<lambda>x h'. set h \<subseteq> set h' \<and> (snd (fst x) = None \<longrightarrow> tracks h' b0 (snd x)))"
proof -
  let ?x = "set_slot (pc_lastRun check) (Some t0) thc"
  have update: "claim_protocol h' (StatusUpdate (KTHC ?x))" if "set h \<subseteq> set h'" for h'
    using claim_based [OF may_claim_mono [OF assms that]] by simp
  show ?thesis
    unfolding claim_and_run_def
  proof (rule proceeds_bind [OF proceeds_quiet [OF config_quiet(1)]], assumption)
    fix g and h1 :: trace assume h1: "set h \<subseteq> set h1"
    show "proceeds claim_protocol h1 (case g of
         Inl er \<Rightarrow> ret ((False, Some er), thc)
       | Inr cfg \<Rightarrow> do {
           let claimed = ?x;
           a \<leftarrow> invoke e (StatusUpdate (KTHC claimed));
           (case as_stored_thc claimed a of
              Inl er \<Rightarrow> ret ((False, Some (Wrap (''persisting '' @ pc_name check @ '' schedule claim'') er)), claimed)
            | Inr stored \<Rightarrow> do {
                r \<leftarrow> createAgenticRunsForClustersWithConfig k L e stored cl (pc_name check) cfg mn mx;
                ret ((True, map_option (Wrap (''creating '' @ pc_name check @ '' AgenticRuns'')) r), stored) }) })
      (\<lambda>x h'. set h \<subseteq> set h' \<and> (snd (fst x) = None \<longrightarrow> tracks h' b0 (snd x)))"
    proof (rule proceeds_sum, rule proceeds_ret, use h1 in simp, rule proceeds_Let, rule proceeds_bind,
        rule proceeds_invoke [where Q = "\<lambda>a h'. h' = h1 @ [(StatusUpdate (KTHC ?x), a)]"], rule update [OF h1], rule refl)
      fix cfg a h2 assume h2: "h2 = h1 @ [(StatusUpdate (KTHC ?x), a)]"
      have tracked: "tracks h3 b0 stored" if "as_stored_thc ?x a = Inr stored" "set h2 \<subseteq> set h3" for stored h3
        by (rule claim_tracked [OF assms that(1)]) (use h1 h2 that(2) in auto)
      show "proceeds claim_protocol h2 (case as_stored_thc ?x a of
            Inl er \<Rightarrow> ret ((False, Some (Wrap (''persisting '' @ pc_name check @ '' schedule claim'') er)), ?x)
          | Inr stored \<Rightarrow> do {
              r \<leftarrow> createAgenticRunsForClustersWithConfig k L e stored cl (pc_name check) cfg mn mx;
              ret ((True, map_option (Wrap (''creating '' @ pc_name check @ '' AgenticRuns'')) r), stored) })
        (\<lambda>x h'. set h \<subseteq> set h' \<and> (snd (fst x) = None \<longrightarrow> tracks h' b0 (snd x)))"
        by (intro proceeds_sum proceeds_ret proceeds_bind [OF proceeds_quiet [OF create_quiet]])
          (use h1 h2 tracked in auto)
    qed
  qed
qed


lemma shouldRunCheck_due:
  "proceeds claim_protocol h (shouldRunCheck e l p) (\<lambda>x h'. set h \<subseteq> set h' \<and> (x \<longrightarrow> due h' p l))"
  unfolding shouldRunCheck_def due_def
  by (intro io_proceeds) (auto simp: claim_protocol_other simp del: as_time_def)

lemma until_due_quiet: "emits no_config_status (until_due e l p r)"
  unfolding until_due_def by (intro io_emits) simp

lemma loop_proceeds:
  assumes "\<forall>check \<in> set checks. check \<in> set (configuredPeriodicChecks b0)" "period \<noteq> 0"
    "period = ph_period (sp_periodic (thc_spec b0))"
    "tracks h b0 thc" "\<exists>n0. (Now, n0) \<in> set h \<and> t0 = as_time n0"
  shows "proceeds claim_protocol h (periodic_loop k L J e t0 period cl checks thc r p)
    (\<lambda>x h'. snd (snd (fst x)) = None \<longrightarrow> tracks h' b0 (snd x))"
  using assms(1,4,5)
proof (induction checks arbitrary: h thc r p)
  case Nil
  then show ?case by (auto intro!: proceeds_ret)
next
  case (Cons check checks)
  then have IH: "proceeds claim_protocol h' (periodic_loop k L J e t0 period cl checks thc' r' p')
      (\<lambda>x h'. snd (snd (fst x)) = None \<longrightarrow> tracks h' b0 (snd x))"
    if "tracks h' b0 thc'" "set h \<subseteq> set h'" for h' thc' r' p'
    using that by (intro Cons.IH) auto
  show ?case
  proof (cases "pc_enabled check")
    case False
    then show ?thesis using IH [OF Cons.prems(2)] by simp
  next
    case True
    let ?period = "from_opt period (pc_period check)"
    have claim: "may_claim h1 b0 check thc t0"
      if "set h \<subseteq> set h1" "due h1 ?period (get_slot (pc_lastRun check) thc)" for h1
    proof -
      have "scheduled b0 check" "check_period b0 check = ?period"
        using Cons.prems(1) True assms(2,3) by (simp_all add: scheduled_def check_period_def)
      moreover have "\<exists>n0. (Now, n0) \<in> set h1 \<and> t0 = as_time n0" using Cons.prems(3) that(1) by blast
      ultimately show ?thesis using that tracks_mono [OF Cons.prems(2)] by (simp add: may_claim_def)
    qed
    have branch: "proceeds claim_protocol h2 (case err of
         Some er \<Rightarrow> ret ((q, p \<or> claim, Some er), thc')
       | None \<Rightarrow> periodic_loop k L J e t0 period cl checks thc' q True)
      (\<lambda>x h'. snd (snd (fst x)) = None \<longrightarrow> tracks h' b0 (snd x))"
      if "err = None \<longrightarrow> tracks h2 b0 thc'" "set h \<subseteq> set h2" for h2 err thc' q claim
      using that by (cases err) (auto intro!: proceeds_ret IH)
    have en: "\<not> \<not> pc_enabled check" using True by simp
    show ?thesis
      unfolding periodic_loop.simps if_not_P [OF en]
    proof (rule proceeds_sum, rule proceeds_ret, use Cons.prems(2) in simp, rule proceeds_prod, rule proceeds_Let,
        rule proceeds_Let, rule proceeds_bind [OF shouldRunCheck_due], rule proceeds_if)
      fix w mn mx run and h1 :: trace and q
      assume h1: "set h \<subseteq> set h1 \<and> (run \<longrightarrow> due h1 ?period (get_slot (pc_lastRun check) thc))"
      show "proceeds claim_protocol h1 (do {
           ((claim, err), thc) \<leftarrow> claim_and_run k L J e t0 cl check mn mx thc;
           (case err of
              Some er \<Rightarrow> ret ((q, p \<or> claim, Some er), thc)
            | None \<Rightarrow> periodic_loop k L J e t0 period cl checks thc q True) })
        (\<lambda>x h'. snd (snd (fst x)) = None \<longrightarrow> tracks h' b0 (snd x))" if run
        using h1 that branch
        by (intro proceeds_bind [OF claim_proceeds [OF claim]]) (auto simp del: if_split split: prod.split intro!: proceeds_ret)
      show "proceeds claim_protocol h1 (do {
           requeueAfter \<leftarrow> until_due e (get_slot (pc_lastRun check) thc) ?period q;
           periodic_loop k L J e t0 period cl checks thc requeueAfter p })
        (\<lambda>x h'. snd (snd (fst x)) = None \<longrightarrow> tracks h' b0 (snd x))"
        using h1 Cons.prems(2)
        by (intro proceeds_bind [OF proceeds_quiet [OF until_due_quiet]] IH) (auto elim: tracks_mono)
    qed
  qed
qed

lemma based_on_spec: "based_on b thc \<Longrightarrow> thc_spec thc = thc_spec b"
  unfolding based_on_def by (cases thc; cases b) simp

lemma tracks_clusters:
  "config_seen h b \<Longrightarrow> tracks h b (with_clusters cl b)"
  "thc_spec (with_clusters cl b) = thc_spec b"
proof -
  have "based_on b (with_clusters cl b)" by (simp add: based_on_def with_clusters_def)
  moreover have "get_slot sl (with_clusters cl b) = get_slot sl b" for sl
    by (cases sl) (simp_all add: with_clusters_def)
  ultimately show "config_seen h b \<Longrightarrow> tracks h b (with_clusters cl b)"
    unfolding tracks_def same_slots_def by (blast intro: descends.read)
qed (simp add: with_clusters_def)

lemma finish_proceeds:
  assumes "config_seen h b"
  shows "proceeds claim_protocol h (finish_pass S e (with_clusters cl b) cl pending) (\<lambda>_ _. True)"
proof -
  let ?thc = "with_clusters cl b"
  have same: "configuredPeriodicChecks ?thc = configuredPeriodicChecks b"
    by (simp add: configuredPeriodicChecks_def tracks_clusters(2))
  have tr: "tracks h' b ?thc" if "set h \<subseteq> set h'" for h'
    using tracks_clusters(1) [OF assms] that by (rule tracks_mono)
  have loop: "proceeds claim_protocol h' (periodic_loop k L J e (as_time n0) period cl (configuredPeriodicChecks b) ?thc period False)
      (\<lambda>x h'. snd (snd (fst x)) = None \<longrightarrow> tracks h' b (snd x))"
    if "set h \<subseteq> set h'" "(Now, n0) \<in> set h'" "period \<noteq> 0" "period = ph_period (sp_periodic (thc_spec b))" for h' n0 k L J period
  proof (rule loop_proceeds [OF _ that(3,4)])
    show "tracks h' b ?thc" by (rule tr [OF that(1)])
  qed (use that(2) in auto)
  have "proceeds claim_protocol h (runPeriodicChecks k L J e ?thc cl)
      (\<lambda>x h'. snd (snd (fst x)) = None \<longrightarrow> tracks h' b (snd x))" for k L J
    unfolding runPeriodicChecks_def same tracks_clusters(2)
    by (rule proceeds_bind, rule proceeds_now [where Q = "\<lambda>t h'. \<exists>r. t = as_time r \<and> h' = h @ [(Now, r)]"])
      (auto simp: claim_protocol_other simp del: as_time_def intro!: io_proceeds loop tr)
  note checks = this
  show ?thesis
    unfolding finish_pass_def
    by (rule proceeds_bind [OF checks]) (auto intro!: io_proceeds tracks_based simp del: ack_def)
qed

section \<open>The whole operator\<close>

lemma claim_stable: "stable claim_protocol" "stable (\<lambda>w. claim_protocol (h @ w))"
  using lasting_stable [OF claim_protocol_lasting] unfolding stable_def
  by (auto elim: lastingD [OF claim_protocol_lasting])

lemma managed_claim: "managed_call c \<Longrightarrow> claim_protocol v c"
  by (rule claim_protocol_other)
    (auto simp: managed_call_def no_config_status_def split: call.splits)

lemma recovery_quiet: "emits no_config_status (recoverPendingRuns k L e ns)"
proof -
  have "recovery_call r c \<Longrightarrow> no_config_status c" for r c
    by (auto simp: recovery_call_def no_config_status_def split: call.splits)
  then show ?thesis
    unfolding recoverPendingRuns_def by (intro io_emits emits_mono [OF recover_loop_calls]) auto
qed

lemma obeys_after_iff: "proceeds G h m (\<lambda>_ _. True) \<longleftrightarrow> obeys (\<lambda>w. G (h @ w)) m"
  by (simp add: proceeds_def obeys_def)

lemma config_reconcile_obeys: "obeys claim_protocol (thc_Reconcile S R e reqNs reqName)"
proof -
  have live: "proceeds claim_protocol h (reconcile_live S R e b) (\<lambda>_ _. True)" if "config_seen h b" for h b
  proof -
    show ?thesis
      unfolding obeys_after_iff
    proof (rule live_obeys [OF claim_stable(2) managed_claim])
      show "obeys (\<lambda>w. claim_protocol (h @ w)) (recoverPendingRuns (lib_retry S) (lib_ulib S) e (r_operatorNamespace R))"
        by (rule obeys_emits [OF recovery_quiet claim_protocol_other])
      show "obeys (\<lambda>w. claim_protocol (h @ w)) (finish_pass S e (with_clusters cl b) cl p)" for cl p
        using finish_proceeds [OF that] by (simp add: obeys_after_iff)
    qed
  qed
  have deletion: "proceeds claim_protocol h (handleDeletion S R e b) (\<lambda>_ _. True)" for h b
    unfolding obeys_after_iff
    by (rule deletion_obeys [OF claim_stable(2) managed_claim]) (simp_all add: claim_protocol_other)
  have "proceeds claim_protocol [] (thc_Reconcile S R e reqNs reqName) (\<lambda>_ _. True)"
    unfolding thc_Reconcile_def
    by (rule proceeds_bind, rule proceeds_get [where Q = "\<lambda>x h'. \<exists>r. x = as_thc r \<and> h' = [(Get Cached ThcKind reqNs reqName, r)]"])
      (auto simp: claim_protocol_other as_thc_Inr config_seen_def intro!: io_proceeds live deletion)
  then show ?thesis by (rule proceeds_obeys)
qed

interpretation config_writers: operator_protocol claim_protocol
proof
  show "lasting claim_protocol" by (rule claim_protocol_lasting)
  show "obeys claim_protocol (thc_Reconcile S R e reqNs reqName)" for S R e reqNs reqName
    by (rule config_reconcile_obeys)
  have quiet: "obeys claim_protocol m" if "emits no_config_status m" for m :: "unit io"
    using that by (rule obeys_emits) (rule claim_protocol_other)
  show "obeys claim_protocol (delayed_run k L e isDone thc cluster checkType cfg runName)"
    for k L e isDone thc cluster checkType cfg runName
    unfolding delayed_run_def by (intro obeys_if obeys_ret quiet run_quiet)
  show "obeys claim_protocol (runAlert_Reconcile k L T W e ns reqNs reqName)" for k L T W e ns reqNs reqName
    unfolding obeys_def
    by (rule spec_conseq [OF runAlert_Reconcile_spec], erule guarded_mono)
      (auto simp: alert_guard_def claim_protocol_def split: call.splits)
  show "obeys claim_protocol (runAlert_watches L e ns ev)" for L e ns ev
    by (rule obeys_emits [of no_config_status], cases ev)
      (auto simp: runAlert_watches_def mapHubRunToRecords_def mapHubResultToRecords_def
        mapHealthcheckToRuns_def mapAlertSecretToRuns_def claim_protocol_other split: prod.split intro!: io_emits)
  show "obeys claim_protocol (Collect_metrics e ns)" for e ns
    by (rule obeys_emits [of no_config_status]) (auto simp: Collect_metrics_def claim_protocol_other intro!: io_emits)
  show "obeys claim_protocol (HandleWebhook ul k L J P e dyn r)" for ul k L J P e dyn r
  proof (rule obeys_emits [OF _ claim_protocol_other])
    have "emits no_config_status (alerts_loop ul k L J e clusters names alerts)" for clusters names alerts
      by (induction alerts) (auto intro!: io_emits run_quiet)
    then show "emits no_config_status (HandleWebhook ul k L J P e dyn r)"
      unfolding HandleWebhook_def processAlerts_def rcv_getMonitoredClusters_def getDefinedAlertNames_def
      by (intro io_emits) simp_all
  qed
qed

section \<open>The configuration on the API server\<close>

text \<open>Times are stored in whole seconds; status and the rest of the object are written separately.\<close>

definition stored_times :: "telcoHealthcheck \<Rightarrow> telcoHealthcheck \<Rightarrow> bool" where
  "stored_times x r \<longleftrightarrow> (\<forall>sl. get_slot sl r = map_option truncate_second (get_slot sl x))"

definition status_replaced :: "telcoHealthcheck \<Rightarrow> telcoHealthcheck \<Rightarrow> telcoHealthcheck \<Rightarrow> bool" where
  "status_replaced x cur r \<longleftrightarrow> thc_spec r = thc_spec cur \<and> stored_times x r"

definition status_kept :: "telcoHealthcheck \<Rightarrow> telcoHealthcheck \<Rightarrow> bool" where
  "status_kept cur r \<longleftrightarrow> thc_status r = thc_status cur"

definition config_at :: "string \<Rightarrow> string \<Rightarrow> telcoHealthcheck \<Rightarrow> telcoHealthcheck access \<Rightarrow> telcoHealthcheck access" where
  "config_at ns name q ac = (if is_config ns name q then ac else Elsewhere (\<lambda>a. case a of
     RObj (KTHC r) \<Rightarrow> is_config (om_namespace q) (om_name q) r | ROk \<Rightarrow> False | _ \<Rightarrow> True))"

fun config_access :: "string \<Rightarrow> string \<Rightarrow> call \<Rightarrow> telcoHealthcheck access" where
  "config_access ns name (Get s ThcKind ns' n) =
     (if ns' = ns \<and> n = name then Reading (s = Live)
      else Elsewhere (\<lambda>a. case a of RObj (KTHC r) \<Rightarrow> is_config ns' n r | _ \<Rightarrow> True))"
| "config_access ns name (StatusUpdate (KTHC q)) = config_at ns name q (Writing (om_resourceVersion q) (status_replaced q))"
| "config_access ns name (Update (KTHC q)) = config_at ns name q (Writing (om_resourceVersion q) status_kept)"
| "config_access ns name c = Elsewhere (\<lambda>_. True)"

definition config_shown :: "string \<Rightarrow> string \<Rightarrow> resp \<Rightarrow> telcoHealthcheck option" where
  "config_shown ns name a = (case a of RObj (KTHC r) \<Rightarrow> if is_config ns name r then Some r else None | _ \<Rightarrow> None)"

text \<open>Users create the configuration, without a status, and edit everything but the status.\<close>

definition never_run :: "telcoHealthcheck \<Rightarrow> bool" where
  "never_run r \<longleftrightarrow> (\<forall>sl. get_slot sl r = None)"

definition config_foreign :: "telcoHealthcheck option \<Rightarrow> telcoHealthcheck \<Rightarrow> bool" where
  "config_foreign cur r \<longleftrightarrow> (case cur of None \<Rightarrow> never_run r | Some p \<Rightarrow> status_kept p r)"

abbreviation config_run :: "string \<Rightarrow> string \<Rightarrow> trace \<Rightarrow> telcoHealthcheck store \<Rightarrow> bool" where
  "config_run ns name \<equiv> versions_run om_resourceVersion (config_shown ns name) (config_access ns name) config_foreign"

abbreviation config_known :: "string \<Rightarrow> string \<Rightarrow> trace \<Rightarrow> telcoHealthcheck set \<Rightarrow> bool" where
  "config_known ns name \<equiv> answers_known om_resourceVersion (config_shown ns name) (config_access ns name)"

text \<open>
  The life of the last-run times: a write keeps all of them, or claims one check that the stored
  configuration schedules, and whose stored last run is due, for a time that was read from the clock.
\<close>

inductive claim_life :: "trace \<Rightarrow> telcoHealthcheck set \<Rightarrow> telcoHealthcheck \<Rightarrow> telcoHealthcheck \<Rightarrow> bool" where
  unclaimed: "thc_status r = thc_status p \<or> stored_times p r \<Longrightarrow> claim_life g S p r"
| claimed: "scheduled p check \<Longrightarrow> due g (check_period p check) (get_slot (pc_lastRun check) p) \<Longrightarrow> (Now, t0) \<in> set g
    \<Longrightarrow> get_slot (pc_lastRun check) r = Some (truncate_second (as_time t0))
    \<Longrightarrow> (\<And>sl. sl \<noteq> pc_lastRun check \<Longrightarrow> get_slot sl r = map_option truncate_second (get_slot sl p))
    \<Longrightarrow> claim_life g S p r"

lemma config_shown_iff: "config_shown ns name a = Some r \<longleftrightarrow> a = RObj (KTHC r) \<and> is_config ns name r"
  by (auto simp: config_shown_def split: resp.splits kobj.splits)

lemma known_not_blind: "config_known ns name g S \<Longrightarrow> \<not> blind g"
proof
  assume known: "config_known ns name g S" and "blind g"
  then obtain x where "(StatusUpdate (KTHC x), ROk) \<in> set g" by (auto simp: blind_def)
  with known have "answer_known om_resourceVersion (config_shown ns name) (config_access ns name (StatusUpdate (KTHC x))) ROk S"
    by (fastforce simp: answers_known_def)
  then show False by (auto simp: config_at_def answer_known_def config_shown_def split: if_splits)
qed

lemma config_seen_stored:
  assumes "config_known ns name g S" "config_seen g b" "is_config ns name b"
  shows "b \<in> S"
proof -
  obtain s ns' n where "(Get s ThcKind ns' n, RObj (KTHC b)) \<in> set g" using assms(2) by (auto simp: config_seen_def)
  with assms(1) have "answer_known om_resourceVersion (config_shown ns name) (config_access ns name (Get s ThcKind ns' n)) (RObj (KTHC b)) S"
    by (fastforce simp: answers_known_def)
  then show ?thesis using assms(3)
    by (auto simp: answer_known_def config_shown_iff is_config_def split: if_splits)
qed

lemma based_on_fields:
  "based_on b x \<Longrightarrow> om_resourceVersion x = om_resourceVersion b \<and> om_namespace x = om_namespace b \<and> om_name x = om_name b"
  unfolding based_on_def by (cases x; cases b) simp

text \<open>What descends from a version that was read is a version of the same specification.\<close>

lemma descends_stored:
  assumes "descends g b0 b" "config_known ns name g S" "inj_on om_resourceVersion S" "is_config ns name b"
  shows "b0 \<in> S \<and> b \<in> S \<and> thc_spec b = thc_spec b0"
  using assms(1,4)
proof (induction rule: descends.induct)
  case (read b)
  then show ?case using config_seen_stored [OF assms(2)] by simp
next
  case (returned b0 b1 x b2)
  have ak: "answer_known om_resourceVersion (config_shown ns name) (config_access ns name (StatusUpdate (KTHC x))) (RObj (KTHC b2)) S"
    using assms(2) returned(3) by (fastforce simp: answers_known_def)
  then have x: "is_config ns name x" using returned.prems
    by (auto simp: config_at_def answer_known_def is_config_def split: if_splits)
  then obtain cur where b2: "b2 \<in> S" "cur \<in> S" "om_resourceVersion cur = om_resourceVersion x" "status_replaced x cur b2"
    using ak by (auto simp: config_at_def answer_known_def config_shown_iff)
  have "is_config ns name b1" using x based_on_fields [OF returned(2)] by (simp add: is_config_def)
  then have b1: "b0 \<in> S" "b1 \<in> S" "thc_spec b1 = thc_spec b0" using returned.IH by simp_all
  have "cur = b1" using b2(2,3) b1(2) based_on_fields [OF returned(2)] assms(3) by (simp add: inj_onD)
  then show ?case using b1 b2 by (simp add: status_replaced_def)
qed

lemma scheduled_cong: "thc_spec b = thc_spec b0 \<Longrightarrow> scheduled b check = scheduled b0 check \<and> check_period b check = check_period b0 check"
  by (simp add: scheduled_def check_period_def configuredPeriodicChecks_def)

lemma claim_step:
  assumes "claim_protocol g c" "config_access ns name c = Writing v E" "config_known ns name g S"
    "inj_on om_resourceVersion S" "cur \<in> S" "om_resourceVersion cur = v" "E cur r"
  shows "claim_life g S cur r"
  using assms(2)
proof (cases "(ns, name, c)" rule: config_access.cases)
  case (2 ns' n x)
  then have x: "c = StatusUpdate (KTHC x)" "is_config ns name x" "v = om_resourceVersion x" "E = status_replaced x"
    using assms(2) by (auto simp: config_at_def split: if_splits)
  then obtain b0 b where b: "descends g b0 b" "based_on b x" "same_slots b x \<or> claims g b0 b x"
    using assms(1) known_not_blind [OF assms(3)] by (auto simp: status_based_def)
  have "is_config ns name b" using x(2) based_on_fields [OF b(2)] by (simp add: is_config_def)
  then have s: "b \<in> S" "thc_spec b = thc_spec b0" using descends_stored [OF b(1) assms(3,4)] by blast+
  have "b = cur" using s(1) assms(4,5,6) x(3) based_on_fields [OF b(2)] by (simp add: inj_onD)
  have times: "stored_times x r" using assms(7) x(4) by (simp add: status_replaced_def)
  show ?thesis using b(3)
  proof
    assume "same_slots b x"
    then show ?thesis using times \<open>b = cur\<close>
      by (intro claim_life.unclaimed) (simp add: same_slots_def stored_times_def)
  next
    assume "claims g b0 b x"
    then obtain check t0 where k: "scheduled b0 check" "(Now, t0) \<in> set g"
      "due g (check_period b0 check) (get_slot (pc_lastRun check) b)"
      "get_slot (pc_lastRun check) x = Some (as_time t0)"
      "\<And>sl. sl \<noteq> pc_lastRun check \<Longrightarrow> get_slot sl x = get_slot sl b"
      unfolding claims_def by blast
    show ?thesis
      using k times scheduled_cong [OF s(2), of check] \<open>b = cur\<close>
      by (intro claim_life.claimed [of cur check g t0]) (auto simp: stored_times_def simp del: as_time_def)
  qed
qed (use assms in \<open>auto simp: config_at_def status_kept_def intro: claim_life.unclaimed split: if_splits\<close>)

lemma claim_life_later: "claim_life g S cur r \<Longrightarrow> set g \<subseteq> set g' \<Longrightarrow> claim_life g' S cur r"
proof (induction rule: claim_life.induct)
  case (claimed p check g t0 r S)
  then show ?case by (intro claim_life.claimed [of p check g' t0]) (auto intro: due_mono)
qed (rule claim_life.unclaimed)

interpretation stored_config: versioned_object om_resourceVersion "config_shown ns name" "config_access ns name"
    config_foreign claim_protocol never_run claim_life for ns name
proof
  fix g c P r assume "config_access ns name c = Creating P"
  then show "never_run r"
    by (cases "(ns, name, c)" rule: config_access.cases) (auto simp: config_at_def split: if_splits)
next
  show "config_foreign None r \<Longrightarrow> never_run r" for r by (simp add: config_foreign_def)
  show "config_foreign (Some cur) r \<Longrightarrow> claim_life g S cur r" for g S cur r
    by (auto simp: config_foreign_def status_kept_def intro: claim_life.unclaimed)
qed (blast intro: claim_step claim_life_later)+

section \<open>Concurrent claims\<close>

definition config_under_load :: "string \<Rightarrow> string \<Rightarrow> 'p log \<Rightarrow> telcoHealthcheck store \<Rightarrow> bool" where
  "config_under_load ns name l h \<longleftrightarrow> operator_log l \<and> config_run ns name (map snd l) h"

text \<open>
  C5. An interval is claimed once: whatever the replicas of the controller and the users do at the
  same time, and however stale the caches are, every version of the configuration that the API server
  stores either keeps the last-run times of the version before it, or claims exactly one check that
  this version enables and whose last run, as stored in this version, was a period ago by a reading
  of the clock. A claim that was computed from an older version is never stored.
\<close>

theorem concurrent_claims:
  assumes "config_under_load ns name l h"
  shows "lives never_run (claim_life (map snd l)) (st_versions h)"
  using assms unfolding config_under_load_def
  by (elim conjE) (rule stored_config.run_lives [OF _ config_writers.log_guarded])


section \<open>An example\<close>

text \<open>
  Two replicas make a pass for the same version of a configuration with one check that never ran,
  and both find it due. The claim that reaches the API server first is stored, the other is refused.
\<close>

definition claim_libs :: libs where
  "claim_libs = \<lparr>lib_retry = 4, lib_lower = id, lib_ulib = tree_ulib, lib_json = sample_json,
     lib_yaml = \<lparr>unmarshal_map = (\<lambda>s. Inl (Msg s)), marshal_map = (\<lambda>m. Inl (Msg []))\<rparr>,
     lib_configMap = (\<lambda>f. Inr (object_meta.extend (empty_meta [] f) \<lparr>cm_data = None\<rparr>)),
     lib_manifests = (\<lambda>d. ([], None)), lib_cronJob = (\<lambda>f. Inl (Msg f)),
     lib_finalizers = \<lparr>containsFinalizer = (\<lambda>fs f. f \<in> set fs), addFinalizer = (\<lambda>fs f. fs @ [f]),
       removeFinalizer = (\<lambda>fs f. filter (\<lambda>g. g \<noteq> f) fs)\<rparr>\<rparr>"

definition claim_operator :: telcoHealthcheckReconciler where
  "claim_operator = \<lparr>r_operatorNamespace = operatorNamespace, r_alertReceiverSvcURL = [], r_logLevel = False\<rparr>"

definition claim_config :: telcoHealthcheck where
  "claim_config = sample_thc\<lparr>om_finalizers := [telcoHealthcheckFinalizer],
     thc_spec := (thc_spec sample_thc)\<lparr>
       sp_alerts := \<lparr>al_hostNetwork = False, al_podNetwork = False, al_hostReservedCPU = False,
         al_ovsProcessCPU = False, al_userAlerts = False\<rparr>,
       sp_periodic := \<lparr>ph_period = 3600 * second, ph_minJitter = None, ph_maxJitter = None,
         ph_rdsCompliance = \<lparr>rds_period = None, rds_enabled = False, rds_minJitter = None, rds_maxJitter = None\<rparr>,
         ph_lowLatencyCheck = \<lparr>ll_period = None, ll_enabled = True, ll_minJitter = None, ll_maxJitter = None\<rparr>\<rparr>\<rparr>,
     thc_status := \<lparr>st_monitoredClusters = [], st_lastPeriodicRunTime = None,
       st_lastRDSComplianceRunTime = None, st_lastLowLatencyCheckRunTime = None\<rparr>\<rparr>"

definition check_config_map :: configMap where
  "check_config_map = object_meta.extend (empty_meta operatorNamespace ''telco-anomaly-low-latency-check-config'')
     \<lparr>cm_data = Some [''request'' \<mapsto> ''check'']\<rparr>"

definition claim_hub :: "resp \<Rightarrow> env" where
  "claim_hub a t c = (case c of
      Get s k ns n \<Rightarrow>
        if k = ThcKind then RObj (KTHC claim_config)
        else if k = ConfigMapKind \<and> n = ''telco-anomaly-low-latency-check-config'' then RObj (KConfigMap check_config_map)
        else RErr (ApiErr NotFound)
    | ListObjs s k ns ls \<Rightarrow> RList []
    | Now \<Rightarrow> RTime (5 * second)
    | StatusUpdate x \<Rightarrow> a
    | _ \<Rightarrow> ROk)"

lemma claim_hub_simps:
  "claim_hub a t (Get s ThcKind ns n) = RObj (KTHC claim_config)"
  "n \<noteq> ''telco-anomaly-low-latency-check-config'' \<Longrightarrow> claim_hub a t (Get s ConfigMapKind ns n) = RErr (ApiErr NotFound)"
  "claim_hub a t (Get s ConfigMapKind ns ''telco-anomaly-low-latency-check-config'') = RObj (KConfigMap check_config_map)"
  "claim_hub a t (Get s SecretKind ns n) = RErr (ApiErr NotFound)"
  "claim_hub a t (Get s CronJobKind ns n) = RErr (ApiErr NotFound)"
  "claim_hub a t (ListObjs s k ns ls) = RList []" "claim_hub a t Now = RTime (5 * second)"
  "claim_hub a t (StatusUpdate x) = a" "claim_hub a t (Create x) = ROk" "claim_hub a t (Delete x) = ROk"
  by (simp_all add: claim_hub_def)

lemma claim_config_simps:
  "om_deletion claim_config = None" "has_finalizer claim_libs claim_config"
  "mc_include (sp_managedClusters (thc_spec claim_config)) = []" "mc_exclude (sp_managedClusters (thc_spec claim_config)) = []"
  "sp_alerts (thc_spec claim_config) = \<lparr>al_hostNetwork = False, al_podNetwork = False, al_hostReservedCPU = False,
     al_ovsProcessCPU = False, al_userAlerts = False\<rparr>"
  "rds_enabled (ph_rdsCompliance (sp_periodic (thc_spec claim_config))) = False"
  "ll_enabled (ph_lowLatencyCheck (sp_periodic (thc_spec claim_config))) = True"
  "sp_purgeInterval (thc_spec claim_config) = None"
  "om_resourceVersion claim_config = ''1''" "is_config [] TelcoHealthcheckCanonicalName claim_config"
  by (simp_all add: claim_config_def has_finalizer_def claim_libs_def sample_thc_def is_config_def)

lemma claim_libs_simps:
  "lib_configMap claim_libs f = Inr (object_meta.extend (empty_meta [] f) \<lparr>cm_data = None\<rparr>)"
  "lib_manifests claim_libs d = ([], None)" "lib_json claim_libs = sample_json"
  "lib_yaml claim_libs = \<lparr>unmarshal_map = (\<lambda>s. Inl (Msg s)), marshal_map = (\<lambda>m. Inl (Msg []))\<rparr>"
  by (simp_all add: claim_libs_def)

text \<open>Operations with a fixed result whose calls do not concern the configuration.\<close>

abbreviation the_access :: "call \<Rightarrow> telcoHealthcheck access" where
  "the_access \<equiv> config_access [] TelcoHealthcheckCanonicalName"

definition harmless_trace :: "trace \<Rightarrow> bool" where
  "harmless_trace u \<longleftrightarrow> list_all (\<lambda>ev. the_access (fst ev) = Elsewhere (\<lambda>_. True)) u"

definition harmless :: "'a io \<Rightarrow> 'a \<Rightarrow> bool" where
  "harmless m x \<longleftrightarrow> (\<forall>t. \<exists>u. run_state m t = (x, t @ u) \<and> harmless_trace u)"

lemma harmless_trace_simps [simp]:
  "harmless_trace []" "harmless_trace (ev # u) \<longleftrightarrow> the_access (fst ev) = Elsewhere (\<lambda>_. True) \<and> harmless_trace u"
  "harmless_trace (u @ v) \<longleftrightarrow> harmless_trace u \<and> harmless_trace v"
  by (simp_all add: harmless_trace_def)

lemma harmless_ret: "harmless (ret x) x"
  by (simp add: harmless_def)

lemma harmless_bind: "harmless m x \<Longrightarrow> harmless (f x) y \<Longrightarrow> harmless (State_Monad.bind m f) y"
proof -
  assume m: "harmless m x" and f: "harmless (f x) y"
  show ?thesis unfolding harmless_def
  proof
    fix t
    obtain u where u: "run_state m t = (x, t @ u)" "harmless_trace u"
      using m unfolding harmless_def by blast
    obtain v where v: "run_state (f x) (t @ u) = (y, (t @ u) @ v)" "harmless_trace v"
      using f unfolding harmless_def by blast
    show "\<exists>w. run_state (State_Monad.bind m f) t = (y, t @ w) \<and> harmless_trace w"
      using u v by (intro exI [of _ "u @ v"]) simp
  qed
qed

lemma harmless_then_do: "harmless m (Done x) \<Longrightarrow> harmless (f x) y \<Longrightarrow> harmless (then_do m f) y"
  unfolding then_do_def by (erule harmless_bind) simp

lemma harmless_plain: "harmless m x \<Longrightarrow> harmless (plain m) (Done x)"
  unfolding plain_def by (erule harmless_bind) (rule harmless_ret)

lemma harmless_until_error: "list_all (\<lambda>m. harmless m (Done None)) ms \<Longrightarrow> harmless (until_error ms) (Done None)"
  by (induction ms) (auto intro!: harmless_ret harmless_then_do)

lemma harmless_attempt_all: "list_all (\<lambda>m. \<exists>r. harmless m (Done r)) ms \<Longrightarrow> \<exists>r. harmless (attempt_all er ms) (Done r)"
proof (induction ms arbitrary: er)
  case (Cons m ms)
  then obtain r r' where "harmless m (Done r)" "harmless (attempt_all (first_err er r) ms) (Done r')" by force
  then show ?case by (auto intro: harmless_then_do)
qed (auto intro: harmless_ret)

lemma claim_operations:
  "list_all (\<lambda>m. harmless m (Done None)) (managed_operations claim_libs claim_operator (claim_hub a) (with_clusters [] claim_config))"
  "list_all (\<lambda>m. \<exists>r. harmless m (Done r)) (optional_operations claim_libs claim_operator (claim_hub a) (with_clusters [] claim_config))"
proof -
  note run = claim_hub_simps claim_libs_simps claim_config_simps api_get_def api_list_def api_do_def Let_def
  have "harmless (reconcileSystemAlertConfigMaps (lib_configMap claim_libs) (claim_hub a) ns (sp_alerts (thc_spec claim_config))) None" for ns
    by (simp add: harmless_def reconcileSystemAlertConfigMaps_def systemAlertAssets_def decodeSystemAlertCM_def
        delete_asset_def run object_meta.defs empty_meta_def)
  moreover have "harmless (reconcileSystemPeriodicConfigMaps (lib_configMap claim_libs) (claim_hub a) ns
      (sp_periodic (thc_spec claim_config))) None" for ns
    by (simp add: harmless_def reconcileSystemPeriodicConfigMaps_def systemPeriodicAssets_def decodeSystemPeriodicCM_def
        delete_asset_def ensure_asset_def run object_meta.defs empty_meta_def)
  moreover have "harmless (reconcileKubeCompareMCP (lib_manifests claim_libs) (claim_hub a) ns False) None" for ns
    by (simp add: harmless_def reconcileKubeCompareMCP_def removeKubeCompareMCP_def delete_ignoring_def
        deleteManifests_def forEachObject_def first_err_def run)
  moreover have "harmless (reconcilePurgeCronJob (lib_cronJob claim_libs) (claim_hub a) ns (with_clusters [] claim_config)) (Done None)" for ns
    by (simp add: harmless_def reconcilePurgeCronJob_def cleanupPurgeCronJob_def with_clusters_def run)
  ultimately show "list_all (\<lambda>m. harmless m (Done None))
      (managed_operations claim_libs claim_operator (claim_hub a) (with_clusters [] claim_config))"
    by (simp add: managed_operations_def tracks_clusters(2) claim_config_simps harmless_plain)
  have "\<exists>r. harmless (reconcileAlertRules (lib_lower claim_libs) (lib_json claim_libs) (claim_hub a) ns False) (Done r)" for ns
    by (intro exI [of _ None]) (simp add: harmless_def reconcileAlertRules_def listAllAlertConfigs_def store_rules_def
        thanosRulerConfigMap_def run)
  moreover have "harmless (reconcileObservabilityMetrics (lib_json claim_libs) (claim_hub a) ns False) None" for ns
    by (simp add: harmless_def reconcileObservabilityMetrics_def listAllAlertConfigs_def
        observabilityMetricsConfigMap_def run)
  moreover have "\<exists>r. harmless (reconcileAlertManagerReceiver (lib_yaml claim_libs) (claim_hub a) url) (Done r)" for url
    by (simp add: harmless_def reconcileAlertManagerReceiver_def run)
  ultimately show "list_all (\<lambda>m. \<exists>r. harmless m (Done r))
      (optional_operations claim_libs claim_operator (claim_hub a) (with_clusters [] claim_config))"
    by (auto simp: optional_operations_def tracks_clusters(2) claim_config_simps intro: harmless_plain)
qed

definition claimed_config :: telcoHealthcheck where
  "claimed_config = set_slot LowLatencySlot (Some (5 * second)) (with_clusters [] claim_config)"

definition stored_claim :: telcoHealthcheck where
  "stored_claim = claimed_config\<lparr>om_resourceVersion := ''2''\<rparr>"

definition claim_read :: "call \<times> resp" where
  "claim_read = (Get Cached ThcKind [] TelcoHealthcheckCanonicalName, RObj (KTHC claim_config))"

definition claim_clock :: "call \<times> resp" where
  "claim_clock = (Now, RTime (5 * second))"


lemma claim_config_checks:
  "ph_period (sp_periodic (thc_spec claim_config)) = 3600 * second"
  "resolvePeriodicJitter (sp_periodic (thc_spec claim_config)) n None None = Inr (30 * second, 5 * minute)"
  "configuredPeriodicChecks (with_clusters [] claim_config) =
     [\<lparr>pc_name = ''rds-compliance'', pc_enabled = False, pc_period = None, pc_minJitter = None, pc_maxJitter = None,
        pc_lastRun = RDSComplianceSlot\<rparr>,
      \<lparr>pc_name = ''low-latency-check'', pc_enabled = True, pc_period = None, pc_minJitter = None, pc_maxJitter = None,
        pc_lastRun = LowLatencySlot\<rparr>]"
  "get_slot sl (with_clusters [] claim_config) = None"
  by (cases sl; simp add: claim_config_def resolvePeriodicJitter_def from_opt_def configuredPeriodicChecks_def with_clusters_def)+

definition config_read :: "call \<times> resp" where
  "config_read = (Get Cached ConfigMapKind operatorNamespace ''telco-anomaly-low-latency-check-config'',
     RObj (KConfigMap check_config_map))"

lemma claim_load: "\<exists>cfg. run_state (loadRunConfigForCheck (lib_json claim_libs) (claim_hub a) ''low-latency-check'') t
    = (Inr cfg, t @ [config_read])"
  by (simp add: loadRunConfigForCheck_def checkTypeConfigMaps_def LoadRunConfig_def api_get_def claim_hub_simps
      check_config_map_def object_meta.defs empty_meta_def data_get_def config_read_def)

lemma claim_create: "\<exists>u. run_state (createAgenticRunsForClustersWithConfig k L (claim_hub a) thc [] ct cfg (30 * second) (5 * minute)) t
    = (None, t @ u)"
  by (simp add: createAgenticRunsForClustersWithConfig_def now_def)

lemma claim_run:
  assumes "a = RErr er \<or> a = RObj (KTHC stored_claim)"
  shows "\<exists>c er' thc w. run_state (claim_and_run k L (lib_json claim_libs) (claim_hub a) (5 * second) []
      \<lparr>pc_name = ''low-latency-check'', pc_enabled = True, pc_period = None, pc_minJitter = None, pc_maxJitter = None,
        pc_lastRun = LowLatencySlot\<rparr> (30 * second) (5 * minute) (with_clusters [] claim_config)) t
    = (((c, er'), thc), t @ [config_read, (StatusUpdate (KTHC claimed_config), a)] @ w)"
proof -
  obtain cfg where load: "run_state (loadRunConfigForCheck (lib_json claim_libs) (claim_hub a) ''low-latency-check'') t
      = (Inr cfg, t @ [config_read])"
    using claim_load by blast
  obtain u where ok: "run_state (createAgenticRunsForClustersWithConfig k L (claim_hub (RObj (KTHC stored_claim))) stored_claim []
      ''low-latency-check'' cfg (30 * second) (5 * minute))
      (t @ [config_read, (StatusUpdate (KTHC claimed_config), RObj (KTHC stored_claim))])
      = (None, (t @ [config_read, (StatusUpdate (KTHC claimed_config), RObj (KTHC stored_claim))]) @ u)"
    using claim_create by blast
  have fold: "set_slot LowLatencySlot (Some 5000000000) (with_clusters [] claim_config) = claimed_config"
    by (simp add: claimed_config_def)
  from assms show ?thesis
  proof
    assume "a = RErr er"
    then show ?thesis using load
      by (intro exI [of _ False] exI [of _ "Some (Wrap (''persisting low-latency-check schedule claim'') er)"]
          exI [of _ claimed_config] exI [of _ "[]"])
        (simp add: claim_and_run_def Let_def fold claim_hub_simps as_stored_thc_def del: set_slot.simps)
  next
    assume "a = RObj (KTHC stored_claim)"
    then show ?thesis using load ok
      by (intro exI [of _ True] exI [of _ None] exI [of _ stored_claim] exI [of _ u])
        (simp add: claim_and_run_def Let_def fold claim_hub_simps as_stored_thc_def del: set_slot.simps)
  qed
qed

lemma claim_finish:
  assumes "a = RErr er \<or> a = RObj (KTHC stored_claim)"
  shows "\<exists>x w. run_state (finish_pass claim_libs (claim_hub a) (with_clusters [] claim_config) [] False) t
      = (x, t @ [claim_clock, config_read, (StatusUpdate (KTHC claimed_config), a)] @ w)"
proof -
  obtain c er' thc w where "run_state (claim_and_run (lib_retry claim_libs) (lib_ulib claim_libs) (lib_json claim_libs) (claim_hub a) (5 * second) []
      \<lparr>pc_name = ''low-latency-check'', pc_enabled = True, pc_period = None, pc_minJitter = None, pc_maxJitter = None,
        pc_lastRun = LowLatencySlot\<rparr> (30 * second) (5 * minute) (with_clusters [] claim_config)) (t @ [claim_clock])
    = (((c, er'), thc), (t @ [claim_clock]) @ [config_read, (StatusUpdate (KTHC claimed_config), a)] @ w)"
    using claim_run [OF assms, of "lib_retry claim_libs" "lib_ulib claim_libs" "t @ [claim_clock]"] by blast
  then show ?thesis
    by (cases er') (simp_all add: finish_pass_def runPeriodicChecks_def now_def claim_hub_simps claim_config_checks
        tracks_clusters(2) shouldRunCheck_def from_opt_def Let_def claim_clock_def)
qed

text \<open>A whole pass, up to its claim.\<close>

definition claim_calls :: "resp \<Rightarrow> trace" where
  "claim_calls a = [claim_clock, config_read, (StatusUpdate (KTHC claimed_config), a)]"

lemma claim_pass:
  assumes "a = RErr er \<or> a = RObj (KTHC stored_claim)"
  shows "\<exists>u. harmless_trace u \<and> part_of_run (thc_Reconcile claim_libs claim_operator (claim_hub a) [] TelcoHealthcheckCanonicalName)
    (claim_read # u @ claim_calls a)"
proof -
  let ?e = "claim_hub a"
  let ?thc = "with_clusters [] claim_config"
  have log: "harmless (sync_log_level claim_operator ?e claim_config) ()"
    by (simp add: harmless_def sync_log_level_def claim_operator_def)
  have clusters: "harmless (getMonitoredClusters ?e (sp_managedClusters (thc_spec claim_config))) (Inr [])"
    by (simp add: harmless_def getMonitoredClusters_def api_list_def claim_hub_simps claim_config_simps select_clusters_def)
  have recovery: "harmless (recoverPendingRuns (lib_retry claim_libs) (lib_ulib claim_libs) ?e ns) (Inr False)" for ns
    by (simp add: harmless_def recoverPendingRuns_def api_list_def claim_hub_simps)
  have managed: "harmless (until_error (managed_operations claim_libs claim_operator ?e ?thc)) (Done None)"
    by (rule harmless_until_error [OF claim_operations(1)])
  obtain r where optional: "harmless (attempt_all None (optional_operations claim_libs claim_operator ?e ?thc)) (Done r)"
    using harmless_attempt_all [OF claim_operations(2)] by blast
  let ?t0 = "[claim_read]"
  obtain u1 where u1: "run_state (sync_log_level claim_operator ?e claim_config) ?t0 = ((), ?t0 @ u1)" "harmless_trace u1"
    using log unfolding harmless_def by blast
  obtain u2 where u2: "run_state (getMonitoredClusters ?e (sp_managedClusters (thc_spec claim_config))) (?t0 @ u1)
      = (Inr [], (?t0 @ u1) @ u2)" "harmless_trace u2"
    using clusters unfolding harmless_def by blast
  obtain u3 where u3: "run_state (recoverPendingRuns (lib_retry claim_libs) (lib_ulib claim_libs) ?e operatorNamespace)
      ((?t0 @ u1) @ u2) = (Inr False, ((?t0 @ u1) @ u2) @ u3)" "harmless_trace u3"
    using recovery unfolding harmless_def by blast
  obtain u4 where u4: "run_state (until_error (managed_operations claim_libs claim_operator ?e ?thc)) (((?t0 @ u1) @ u2) @ u3)
      = (Done None, (((?t0 @ u1) @ u2) @ u3) @ u4)" "harmless_trace u4"
    using managed unfolding harmless_def by blast
  obtain u5 where u5: "run_state (attempt_all None (optional_operations claim_libs claim_operator ?e ?thc))
      ((((?t0 @ u1) @ u2) @ u3) @ u4) = (Done r, ((((?t0 @ u1) @ u2) @ u3) @ u4) @ u5)" "harmless_trace u5"
    using optional unfolding harmless_def by blast
  let ?u = "u1 @ u2 @ u3 @ u4 @ u5"
  obtain x w where fin: "run_state (finish_pass claim_libs ?e ?thc [] False) (?t0 @ ?u) = (x, (?t0 @ ?u) @ claim_calls a @ w)"
    unfolding claim_calls_def using claim_finish [OF assms] by blast
  have "run_state (thc_Reconcile claim_libs claim_operator ?e [] TelcoHealthcheckCanonicalName) []
      = run_state (reconcile_live claim_libs claim_operator ?e claim_config) ?t0"
    by (simp add: thc_Reconcile_def api_get_def claim_hub_simps claim_config_simps claim_read_def)
  also have "\<dots> = (Done x, (?t0 @ ?u) @ claim_calls a @ w)"
    using u1(1) u2(1) u3(1) u4(1) u5(1) fin
    by (simp add: reconcile_live_def Let_def then_do_def plain_def claim_operator_def)
  finally have "snd (run_state (thc_Reconcile claim_libs claim_operator ?e [] TelcoHealthcheckCanonicalName) [])
      = [] @ (claim_read # ?u @ claim_calls a) @ w"
    by simp
  then have "part_of_run (thc_Reconcile claim_libs claim_operator ?e [] TelcoHealthcheckCanonicalName) (claim_read # ?u @ claim_calls a)"
    unfolding part_of_run_def by blast
  moreover have "harmless_trace ?u" using u1 u2 u3 u4 u5 by simp
  ultimately show ?thesis by blast
qed

text \<open>Both passes on the API server: the second replica read before the first one claimed.\<close>

definition claim_store :: "telcoHealthcheck store" where
  "claim_store = \<lparr>st_now = Some stored_claim, st_versions = [stored_claim, claim_config]\<rparr>"

lemma harmless_run: "config_run [] TelcoHealthcheckCanonicalName g h \<Longrightarrow> harmless_trace u
    \<Longrightarrow> config_run [] TelcoHealthcheckCanonicalName (g @ u) h"
proof (induction u arbitrary: g)
  case (Cons ev u)
  then have "config_run [] TelcoHealthcheckCanonicalName (g @ [(fst ev, snd ev)]) h"
    by (intro versions_run.call) (auto simp: store_step.elsewhere)
  then show ?case using Cons.IH [of "g @ [ev]"] Cons.prems by simp
qed simp

lemma claim_access:
  "the_access (fst claim_read) = Reading False" "harmless_trace [claim_clock, config_read]"
  "the_access (StatusUpdate (KTHC claimed_config)) = Writing ''1'' (status_replaced claimed_config)"
  "is_config [] TelcoHealthcheckCanonicalName stored_claim"
  by (simp_all add: claim_read_def claim_clock_def config_read_def config_at_def is_config_def stored_claim_def
      claimed_config_def claim_config_def with_clusters_def sample_thc_def)

lemma claim_config_runs:
  assumes "harmless_trace u" "harmless_trace v"
  shows "config_run [] TelcoHealthcheckCanonicalName
    ((claim_read # u @ [claim_clock, config_read]) @ (claim_read # v @ claim_calls (RObj (KTHC stored_claim)))
      @ [(StatusUpdate (KTHC claimed_config), RErr (ApiErr Conflict))]) claim_store"
proof -
  let ?run = "config_run [] TelcoHealthcheckCanonicalName"
  let ?step = "store_step om_resourceVersion (config_shown [] TelcoHealthcheckCanonicalName)"
  let ?h = "put_version claim_config \<lparr>st_now = None, st_versions = []\<rparr>"
  have shown: "config_shown [] TelcoHealthcheckCanonicalName (RObj (KTHC claim_config)) = Some claim_config"
    "config_shown [] TelcoHealthcheckCanonicalName (RObj (KTHC stored_claim)) = Some stored_claim"
    by (simp_all add: config_shown_iff claim_config_simps claim_access)
  have new: "config_foreign None claim_config"
    unfolding config_foreign_def never_run_def
    by (simp, rule allI, case_tac sl) (simp_all add: claim_config_def)
  have start: "?run [] ?h"
    by (rule versions_run.foreign [OF versions_run.start]) (simp_all add: new fresh_version_def)
  have "?step (Reading False) (RObj (KTHC claim_config)) ?h ?h"
    using shown by (intro store_step.shown) simp_all
  then have read: "?run (g @ [claim_read]) ?h" if "?run g ?h" for g
    using that claim_access(1) unfolding claim_read_def by (auto intro: versions_run.call)
  have "status_replaced claimed_config claim_config stored_claim"
    unfolding status_replaced_def stored_times_def
    by (intro conjI allI, simp add: stored_claim_def claimed_config_def with_clusters_def, case_tac sl)
      (simp_all add: stored_claim_def claimed_config_def with_clusters_def claim_config_def truncate_second_def)
  moreover have "put_version stored_claim ?h = claim_store" by (simp add: claim_store_def put_version_def)
  moreover have "fresh_version om_resourceVersion ?h stored_claim"
    by (simp add: fresh_version_def stored_claim_def claim_config_simps)
  ultimately have "?step (the_access (StatusUpdate (KTHC claimed_config))) (RObj (KTHC stored_claim)) ?h claim_store"
    using shown(2) store_step.written [of ?h claim_config om_resourceVersion _ "status_replaced claimed_config"
        stored_claim "config_shown [] TelcoHealthcheckCanonicalName"]
    unfolding claim_access(3) by (simp add: claim_config_simps)
  then have put: "?run (g @ [(StatusUpdate (KTHC claimed_config), RObj (KTHC stored_claim))]) claim_store" if "?run g ?h" for g
    using that by (rule versions_run.call [rotated])
  have refuse: "?run (g @ [(StatusUpdate (KTHC claimed_config), RErr (ApiErr Conflict))]) claim_store" if "?run g claim_store" for g
    using that by (rule versions_run.call) (unfold claim_access(3), rule store_step.refused, simp_all)
  have "?run ([] @ [claim_read]) ?h" by (rule read [OF start])
  note first = harmless_run [OF harmless_run [OF this assms(1)] claim_access(2)]
  note second = harmless_run [OF harmless_run [OF read [OF first] assms(2)] claim_access(2)]
  from refuse [OF put [OF second]] show ?thesis by (simp add: claim_calls_def)
qed

theorem concurrent_claims_witness:
  "\<exists>l :: bool log. config_under_load [] TelcoHealthcheckCanonicalName l claim_store
     \<and> lives never_run (claim_life (map snd l)) [stored_claim, claim_config]"
proof -
  obtain u where u: "harmless_trace u" "part_of_run (thc_Reconcile claim_libs claim_operator (claim_hub (RErr (ApiErr Conflict))) []
      TelcoHealthcheckCanonicalName) (claim_read # u @ claim_calls (RErr (ApiErr Conflict)))"
    using claim_pass [of "RErr (ApiErr Conflict)"] by blast
  obtain v where v: "harmless_trace v" "part_of_run (thc_Reconcile claim_libs claim_operator (claim_hub (RObj (KTHC stored_claim))) []
      TelcoHealthcheckCanonicalName) (claim_read # v @ claim_calls (RObj (KTHC stored_claim)))"
    using claim_pass [of "RObj (KTHC stored_claim)"] by blast
  let ?l = "map (Pair False) (claim_read # u @ [claim_clock, config_read])
    @ map (Pair True) (claim_read # v @ claim_calls (RObj (KTHC stored_claim)))
    @ [(False, StatusUpdate (KTHC claimed_config), RErr (ApiErr Conflict))]"
  have pairs: "calls_of p (map (Pair q) w) = (if p = q then w else [])" for p q :: bool and w
    by (induction w) auto
  have "calls_of False ?l = [] @ (claim_read # u @ claim_calls (RErr (ApiErr Conflict)))"
    "calls_of True ?l = [] @ (claim_read # v @ claim_calls (RObj (KTHC stored_claim)))"
    by (simp_all add: pairs claim_calls_def)
  then have "operator_log ?l"
    unfolding operator_log_def all_bool_eq
    using operator_trace.reconcile [OF operator_trace.idle u(2)] operator_trace.reconcile [OF operator_trace.idle v(2)]
    by simp
  moreover have "config_run [] TelcoHealthcheckCanonicalName (map snd ?l) claim_store"
    using claim_config_runs [OF u(1) v(1)] by (simp add: comp_def)
  ultimately have load: "config_under_load [] TelcoHealthcheckCanonicalName ?l claim_store"
    by (simp add: config_under_load_def)
  show ?thesis
    using load concurrent_claims [OF load] by (intro exI [of _ ?l] conjI) (simp_all only: claim_store_def store.select_convs)
qed

end
