(* ===== verification/Spec2Isabelle.thy ===== *)
theory Spec2Isabelle
  imports Record_Schema Backlog Config_Schema Patch_Base Processes Concurrent_Records Concurrent_Claims
begin

text \<open>
  A model of the telco anomaly detection operator and the theorems that make it correct.

  \<^bold>\<open>The program.\<close> The operator runs on an OpenShift hub. A singleton configuration
  (\<open>TelcoHealthcheck\<close>) selects managed clusters, alerts and periodic checks. The controller process
  (\<open>internal/controller\<close>) keeps the hub's resources in line with it, starts AgenticRuns for periodic
  checks, and reports what the runs found to an external Alertmanager. The alert receiver
  (\<open>internal/alertreceiver\<close>) is a second process: Alertmanager posts alerts to it, and it starts an
  AgenticRun for each alert of a monitored cluster with a defined name. Both processes write an audit
  record (\<open>TelcoHealthCheckRun\<close>) before they create a run and settle it afterwards
  (\<open>internal/healthcheckrun\<close>); the controller recovers records that a crash left pending, copies the
  status of the run into its record, and delivers the notifications that the record queues.

  \<^bold>\<open>How effects are modelled.\<close> Every call to the Kubernetes API, the clock, the random source, the
  external Alertmanager and the log level is a value of type \<open>call\<close>. An operation is a state
  transformer on the trace of calls made so far, and an environment \<open>e\<close>, an arbitrary function of
  that trace, chooses each answer (\<open>Hub_Client\<close>). A theorem for all \<open>e\<close> therefore covers lost
  responses, conflicts, stale caches and other writers. \<open>Trace_Logic\<close> has the rules: \<open>spec\<close> for a
  postcondition on result and calls, \<open>emits\<close> for a property of every call, \<open>guarded\<close> for a property
  of every call and its past. What needs a hub that does its work is stated over the locale
  \<open>quiet_record\<close> of \<open>Record_Hub\<close>, the documented behaviour of the API server for one record; its
  instance \<open>record_server\<close> is an executable server with optimistic concurrency control. What needs all
  processes at once is stated over \<open>Shared_Store\<close>: one log of the calls of any number of processes, in
  the order in which the server meets them, and the versions of one object that it stores.

  \<^bold>\<open>Conventions.\<close> Go strings are byte strings (\<open>string\<close>). Durations and instants are integers in
  nanoseconds; arithmetic on durations that can overflow is written with \<open>wrap64\<close>, and \<open>Time.Sub\<close>
  saturates (\<open>time_sub\<close>). Errors are values of \<open>gerr\<close>; a Go pair of value and error is a sum, an
  error alone an option, and code that can panic returns an \<open>outcome\<close>. Error texts keep the fixed
  part and the wrapped error, not the quoting of \<open>%q\<close>, the type name of \<open>%T\<close> or the reason phrase
  of an HTTP status. Code from other modules is a parameter: the accessors of
  unstructured objects (\<open>ulib\<close>, with the laws in the locale \<open>nested_fields\<close>), JSON and YAML codecs,
  the decoders of embedded manifests, \<open>controllerutil\<close>'s finalizer functions, the parsers of URLs and
  RFC 3339 times, the constructor of metrics, the tables of \<open>strings.ToLower\<close> beyond ASCII, and the number of retries of
  \<open>RetryOnConflict\<close>, for which every theorem holds whatever it is. Of the standard library, SHA-256,
  Base64, hexadecimal and decimal output, trimming, \<open>os.Expand\<close> and the routing of \<open>http.ServeMux\<close> are defined.

  \<^bold>\<open>Theories.\<close>
  \<^item> \<open>Prelude\<close>, \<open>Api_Types\<close> (\<open>api/v1alpha1\<close>), \<open>Hub_Client\<close>, \<open>Trace_Logic\<close>, \<open>Digest\<close>, \<open>Base64\<close>,
    \<open>Nested_Fields\<close>: data, calls and tools.
  \<^item> \<open>Run_Record\<close> (\<open>healthcheckrun/record.go\<close>, \<open>controller/runrecovery.go\<close>): \<open>Begin\<close>, \<open>Confirm\<close>,
    \<open>Fail\<close> and recovery. A status is overwritten only on a pending, undecided record, the annotation
    falls only after an outcome is on record, a settlement is only given up on an error of the API server, on a
    conflict only after all retries, and recovery settles a record only for a reason.
  \<^item> \<open>Agentic_Run\<close> (\<open>internal/agenticrun\<close>): configuration, variables, expansion and the AgenticRun
    object, with its contract and its agreement with the record of the same identity.
  \<^item> \<open>Audited_Creation\<close>: the protocol record, run, settlement, each step of which must follow the one before, as a
    locale that both creators interpret. \<open>Periodic_Runs\<close> (\<open>controller/agenticrun.go\<close> and the schedule of
    \<open>telcohealthcheck_controller.go\<close>): claims before runs, names, jitter, requeue times.
    \<open>Alert_Receiver\<close> (\<open>alertreceiver/handler.go\<close>): the webhook, its filters and status codes.
  \<^item> \<open>Alert_Names\<close> and \<open>Alert_Rules\<close> (\<open>useralerts.go\<close>, \<open>alertrules.go\<close>,
    \<open>observabilitymetrics.go\<close>): definitions of alerts, the rules text and its two scanners, the
    metrics allowlist.
  \<^item> \<open>Alertmanager_Config\<close> (\<open>alertmanager.go\<close>), \<open>System_Assets\<close> (\<open>systemalerts.go\<close>,
    \<open>periodicchecks.go\<close>), \<open>Managed_Resources\<close> (\<open>managedcluster.go\<close>, \<open>purge.go\<close>,
    \<open>kubecomparemcp.go\<close>): the resources the controller keeps, with their cleanup.
  \<^item> \<open>Reconciler\<close> (\<open>telcohealthcheck_controller.go\<close>): the pass that composes them, and the deletion.
    Runs come only from the schedule of a configuration that is not being deleted, the panics are the three that
    are listed, the delay to the next pass is what the period makes of it, the finalizer comes first, and deletion
    attempts every cleanup.
  \<^item> \<open>Hub_Run_Status\<close> (\<open>hubrunstatus.go\<close>) and \<open>Run_Alerts\<close> (\<open>runalerts.go\<close>): the status copied from
    the hub and the delivery of notifications. The reconciler refines the step relation
    \<open>runAlert_step\<close>; every reachable status has a well-formed queue (locale \<open>record_invariant\<close>); a
    notification leaves the queue only after it was accepted; credentials go only over HTTPS.
  \<^item> \<open>Record_Schema\<close>: no writer leaves the two enumerations in the schema of the record, the type of the
    trigger and the action required (required fields and formats of the schema are not part of it).
    \<open>Record_Hub\<close>, \<open>Crash_Recovery\<close>: on a hub that does its work, recovery completes a creation that a crash cut
    short. \<open>Queue_Delivery\<close>: there, with an Alertmanager that answers and an AgenticRun that does not change for
    the time being, the first pass synchronises the record, which may append a notification, and as many passes as
    the queue then has notifications empty it in order. \<open>Backlog\<close>: passes that ask to be run again
    at once use up a measure, so they come to an end.
  \<^item> \<open>Config_Schema\<close> (the markers in \<open>api/v1alpha1/telcohealthcheck_types.go\<close>): the CEL rules of the
    configuration, and that they agree with the checks the controller makes when it runs; a period is not
    constrained by either.
  \<^item> \<open>Go_Heap\<close>, \<open>Deep_Copy\<close> (\<open>api/v1alpha1/zz_generated.deepcopy.go\<close>), \<open>Patch_Base\<close>: a heap with pointers and
    slices, what a deep copy is, and that every generated routine makes one (under the laws of the
    library's routines, the locale \<open>deep_copies\<close>). Elsewhere objects are values; \<open>Patch_Base\<close> shows that the
    code's assignments through pointers and its \<open>append\<close> in place refine the functions on values, and that the base
    of each patch keeps the old value.
  \<^item> \<open>Watches\<close> (both \<open>SetupWithManager\<close>): which event runs which reconciler. \<open>Metrics\<close>
    (\<open>metrics.go\<close>): the descriptors and what a scrape sends; the registry accepts it, and it counts one list of
    records. \<open>Admission\<close> (\<open>internal/webhook\<close>, the readiness check of \<open>cmd/controller\<close>).
  \<^item> \<open>Receiver_Server\<close> (\<open>alertreceiver/server.go\<close>): routes, status codes, start and shutdown.
    \<open>Access\<close> (the RBAC markers, \<open>config/rbac\<close>, the cache of \<open>cmd/controller/main.go\<close>): the deployed
    role is the one the markers describe, and every call of both processes is granted.
  \<^item> \<open>Processes\<close> (both \<open>main\<close> functions, \<open>groupversion_info.go\<close>): the command line, the steps of the
    start and their exit codes, readiness; from the command line to the grants of \<open>Access\<close>.
  \<^item> \<open>Shared_Store\<close>: an object of the API server under concurrent writers. The server answers reads of a
    cache with any version it ever stored, refuses a write under an old resource version, and may lose the
    answer to a write it carried out; the locale \<open>versioned_object\<close> turns a rule that every call of a
    process keeps, given what this process saw before, into a relation between successive versions.
    \<open>Operator_Log\<close>: any number of processes, each of which runs the operations of the operator one after
    the other and may crash at any call; the locale \<open>operator_protocol\<close> collects the rules of the operations.
    \<open>Concurrent_Records\<close>: successive versions of a record are steps of one life, no update is lost, and no
    record is taken for settled without an outcome. \<open>Concurrent_Claims\<close>: a claim of the schedule is
    stored only if it is due against the version it replaces, so replicas of the controller with stale
    caches do not claim an interval twice.
  \<^item> This theory: the way from an event of a run back to its record.

  \<^bold>\<open>Bounds and termination.\<close> Loops over lists are structural recursions; the scanners recurse on the
  rest of the text with a proved measure; a retry loop runs at most \<open>k + 1\<close> attempts. No definition
  uses fuel. A queue of \<open>n\<close> notifications takes \<open>n\<close> passes, and a chain of immediate passes is no longer
  than the \<open>backlog\<close> it starts with. Names are bounded by 253 characters, the
  webhook reads at most \<open>body_limit\<close> bytes.

  \<^bold>\<open>Not modelled.\<close> Logging; cancellation and timeouts of contexts, except that a delayed run checks
  whether the manager stopped; the scheduling of goroutines: a delayed run is a \<open>Spawn\<close> call
  and its body, \<open>delayed_run\<close>, an operation of its own; the logging flags, the inside of the manager and
  of the clients, which are libraries; memory, outside \<open>Go_Heap\<close>, \<open>Deep_Copy\<close> and \<open>Patch_Base\<close>; the types
  of \<open>agenticrun/types.go\<close> that no code uses; the manifests and assets under \<open>assets\<close>, which
  the decoders are given by name. The value of a metric is a natural number, not a float; the order of an
  iteration over a Go map, which Go leaves open, is a parameter. Other clients (users,
  the garbage collector) may at any time delete an object of \<open>Shared_Store\<close>, create a configuration that never ran,
  change everything of it but the status, and change the metadata of a record but its labels and
  annotations; they write no status.
\<close>

section \<open>From a created run back to its record\<close>

text \<open>
  The hub's events find the record: for an AgenticRun built for an identity, with the
  operator's label, the watch asks the API server for the records with the run key of that
  identity, and if it answers with the record that was written for the identity, exactly this
  record is reconciled.
\<close>

theorem hub_event_reaches_record:
  assumes "nested_fields L" "BuildObject L runName cluster labels cfg = Inr run"
    and "labels ManagedByLabel = Some ManagedByValue"
    and "e t (ListObjs Live RecordKind ns [(RunKeyLabel, Key cluster runName)])
      = RList [KRecord ((pending_record ns name runName cluster owner)
          \<lparr>rec_status := pending_status runName cluster triggeredBy trigger\<rparr>)]"
  shows "fst (run_state (runAlert_watches L e ns (AgenticRunChanged run)) t) = [(ns, name)]"
  using nested_fields.BuildObject_writes [OF assms(1,2)] nested_fields.BuildObject_reads(1) [OF assms(1,2)] assms(3,4)
  by (simp add: runAlert_watches_def hub_run_predicate_def mapHubRunToRecords_def api_list_def record_requests_def List.map_filter_def pending_record_def
      pending_status_def zero_runStatus_def sget_def)

theorem hub_event_reaches_record_witness:
  "\<exists>run. fst (run_state (runAlert_watches tree_ulib
      (\<lambda>t c. RList [KRecord ((pending_record ''ns'' ''run-1'' ''run-1'' ''spoke-1'' sample_thc)
          \<lparr>rec_status := pending_status ''run-1'' ''spoke-1'' ''alert'' ''A''\<rparr>)]) ''ns'' (AgenticRunChanged run)) [])
    = [(''ns'', ''run-1'')]"
proof -
  obtain run where "BuildObject tree_ulib ''run-1'' ''spoke-1'' [ManagedByLabel \<mapsto> ManagedByValue]
      sample_config = Inr run" using sample_object by blast
  from hub_event_reaches_record [OF tree.nested_fields_axioms this] show ?thesis by (intro exI [of _ run]) simp
qed

end
